(* ===== verification/Prelude.thy ===== *)
theory Prelude
  imports Main "HOL-Library.List_Lexorder" "HOL-Library.Char_ord"
    "HOL-Library.Product_Lexorder" "HOL-Library.Option_ord" "HOL-Library.Word"
    "HOL-Library.Signed_Division"
begin

text \<open>
  What every component shares: the ordered containers of the Rust standard library
  (\<open>BTreeSet\<close> and \<open>BTreeMap\<close>, iterated in ascending key order), the slice and
  string operations the sources call, work-list graph search, and the named collections the
  component proofs feed to the simplifier.

  A Rust \<open>String\<close> is a \<open>string\<close> of bytes (UTF-8), so the list order of
  \<open>List_Lexorder\<close> over \<open>Char_ord\<close> is Rust's byte-wise \<open>Ord\<close>; tuples
  compare as in \<open>Product_Lexorder\<close> and options as in \<open>Option_ord\<close>, as in Rust.
\<close>

named_theorems bset_simps \<open>facts about ordered sets\<close>
named_theorems bmap_simps \<open>facts about ordered maps\<close>
named_theorems walk_intros \<open>the work-list invariant of graph searches\<close>
named_theorems str_simps \<open>facts about string splitting and parsing\<close>

section \<open>Machine integers and human-readable text\<close>

text \<open>
  Integers whose width the code relies on are words. \<open>saturating_add\<close> is the method of
  \<open>u64\<close>; signed \<open>/\<close> and \<open>%\<close> truncate towards zero (\<open>sdiv\<close> and
  \<open>smod\<close> on \<open>int\<close>), while \<open>div_euclid\<close> by a positive divisor is
  \<open>div\<close>.
\<close>

type_synonym u8 = "8 word"
type_synonym u16 = "16 word"
type_synonym u32 = "32 word"
type_synonym u64 = "64 word"

definition saturating_add :: "u64 \<Rightarrow> u64 \<Rightarrow> u64" where
  "saturating_add a b = (if unat a + unat b < 2 ^ 64 then a + b else 18446744073709551615)"

lemma unat_saturating_add: "unat (saturating_add a b) = min (unat a + unat b) (2 ^ 64 - 1)"
  by (auto simp: saturating_add_def unat_word_ariths min_def)

text \<open>Rust's truncating \<open>/\<close> and \<open>%\<close> on the values the sources apply them to.\<close>

lemma sdiv_nonneg: "0 \<le> a \<Longrightarrow> 0 < b \<Longrightarrow> (a::int) sdiv b = a div b"
  by (simp add: signed_divide_int_def sgn_if)

lemma smod_zero_iff: "(a::int) smod b = 0 \<longleftrightarrow> b dvd a"
  by (auto simp: signed_modulo_int_def sgn_if mod_eq_0_iff_dvd)

text \<open>
  The sources format diagnostics and reasons in Chinese. A \<open>message\<close> keeps what a machine
  can tell apart: which template was used and the values interpolated into it, in order.
\<close>

datatype message = Msg (template: string) (args: "string list")

section \<open>Ordered sets\<close>

text \<open>A \<open>BTreeSet\<close> collected from an iterator: its elements, ascending, once each.\<close>

definition bset :: "'a::linorder list \<Rightarrow> 'a list" where
  "bset xs = sort (remdups xs)"

lemma set_bset [simp, bset_simps]: "set (bset xs) = set xs"
  by (simp add: bset_def)

lemma distinct_bset [simp, bset_simps]: "distinct (bset xs)"
  by (simp add: bset_def)

lemma sorted_bset [simp, bset_simps]: "sorted (bset xs)"
  by (simp add: bset_def)

lemma bset_eq_iff [bset_simps]: "bset xs = bset ys \<longleftrightarrow> set xs = set ys"
proof
  assume "bset xs = bset ys"
  then have "set (bset xs) = set (bset ys)" by simp
  then show "set xs = set ys" by simp
next
  assume "set xs = set ys"
  then have "set (bset xs) = set (bset ys)" by simp
  then show "bset xs = bset ys"
    by (intro sorted_distinct_set_unique) simp_all
qed

lemma bset_Nil_iff [simp]: "bset xs = [] \<longleftrightarrow> xs = []"
  by (metis empty_set set_bset set_empty2)

lemma bset_idem [simp]: "sorted xs \<Longrightarrow> distinct xs \<Longrightarrow> bset xs = xs"
  by (simp add: bset_def distinct_remdups_id sorted_sort_id)

section \<open>Ordered maps\<close>

text \<open>
  A \<open>BTreeMap\<close> is an association list whose keys ascend strictly. \<open>bput\<close> is
  \<open>insert\<close> (the new value wins), \<open>map_of\<close> is \<open>get\<close>, \<open>bdel\<close> is
  \<open>remove\<close>, and \<open>bcollect\<close> is \<open>collect\<close> from an iterator of pairs.
\<close>

type_synonym ('k, 'v) bmap = "('k \<times> 'v) list"

fun bput :: "'k::linorder \<Rightarrow> 'v \<Rightarrow> ('k, 'v) bmap \<Rightarrow> ('k, 'v) bmap" where
  "bput k v [] = [(k, v)]"
| "bput k v (e # m) =
     (if fst e < k then e # bput k v m
      else if fst e = k then (k, v) # m
      else (k, v) # e # m)"

definition bdel :: "'k \<Rightarrow> ('k, 'v) bmap \<Rightarrow> ('k, 'v) bmap" where
  "bdel k m = filter (\<lambda>e. fst e \<noteq> k) m"

definition bcollect :: "('k::linorder \<times> 'v) list \<Rightarrow> ('k, 'v) bmap" where
  "bcollect es = foldl (\<lambda>m e. bput (fst e) (snd e) m) [] es"

definition bmap_ok :: "('k::linorder, 'v) bmap \<Rightarrow> bool" where
  "bmap_ok m \<longleftrightarrow> sorted_wrt (<) (map fst m)"

lemma map_of_bput [simp, bmap_simps]: "map_of (bput k v m) = (map_of m)(k \<mapsto> v)"
  by (induction m) (auto simp: fun_eq_iff)

lemma keys_bput [simp, bmap_simps]: "fst ` set (bput k v m) = insert k (fst ` set m)"
  by (induction m) auto

lemma bmap_ok_Nil [simp]: "bmap_ok []"
  by (simp add: bmap_ok_def)

lemma bmap_ok_bput [simp, bmap_simps]: "bmap_ok m \<Longrightarrow> bmap_ok (bput k v m)"
proof (induction m)
  case (Cons e m)
  then have "bmap_ok (bput k v m)" and "\<forall>x \<in> fst ` set m. fst e < x"
    by (auto simp: bmap_ok_def)
  with Cons.prems show ?case
    using keys_bput [of k v m] by (auto simp: bmap_ok_def)
qed (simp add: bmap_ok_def)

lemma bmap_ok_bdel [simp, bmap_simps]: "bmap_ok m \<Longrightarrow> bmap_ok (bdel k m)"
  unfolding bmap_ok_def bdel_def by (induction m) auto

lemma map_of_bdel [simp, bmap_simps]: "map_of (bdel k m) = (map_of m)(k := None)"
  by (induction m) (auto simp: bdel_def fun_eq_iff)

lemma bmap_ok_distinct [simp]: "bmap_ok m \<Longrightarrow> distinct (map fst m)"
  unfolding bmap_ok_def by (simp add: strict_sorted_iff)

lemma map_of_foldl_bput:
  "map_of (foldl (\<lambda>m e. bput (fst e) (snd e) m) m es) = map_of m ++ map_of (rev es)"
  by (induction es arbitrary: m) (auto simp: map_add_def fun_eq_iff split: option.splits)

lemma map_of_bcollect [simp, bmap_simps]: "map_of (bcollect es) = map_of (rev es)"
  by (simp add: bcollect_def map_of_foldl_bput)

lemma bmap_ok_foldl:
  "bmap_ok m \<Longrightarrow> bmap_ok (foldl (\<lambda>m e. bput (fst e) (snd e) m) m es)"
  by (induction es arbitrary: m) auto

lemma bmap_ok_bcollect [simp, bmap_simps]: "bmap_ok (bcollect es)"
  by (simp add: bcollect_def bmap_ok_foldl)

lemma keys_bcollect [simp, bmap_simps]: "fst ` set (bcollect es) = fst ` set es"
proof -
  have "dom (map_of (bcollect es)) = dom (map_of (rev es))" by simp
  then show ?thesis by (simp only: dom_map_of_conv_image_fst set_rev)
qed

text \<open>Two ordered maps with the same lookups are the same value, as Rust's \<open>==\<close> decides.\<close>

lemma bmap_eqI:
  assumes "bmap_ok m" and "bmap_ok n" and "map_of m = map_of n"
  shows "m = n"
proof -
  have "set (map fst m) = set (map fst n)"
    using assms(3) by (metis dom_map_of_conv_image_fst list.set_map)
  then have keys: "map fst m = map fst n"
    using assms(1,2) by (auto simp: bmap_ok_def strict_sorted_iff intro: sorted_distinct_set_unique)
  show ?thesis
  proof (rule nth_equalityI)
    show len: "length m = length n" using keys by (metis length_map)
    fix i assume i: "i < length m"
    with len have j: "i < length n" by simp
    have "map fst m ! i = map fst n ! i" using keys by simp
    with i j have k: "fst (m ! i) = fst (n ! i)" by simp
    have "map_of m (fst (m ! i)) = Some (snd (m ! i))"
      using i assms(1) by (simp add: map_of_eq_Some_iff)
    moreover have "map_of n (fst (n ! i)) = Some (snd (n ! i))"
      using j assms(2) by (simp add: map_of_eq_Some_iff)
    ultimately show "m ! i = n ! i" using assms(3) k by (simp add: prod_eq_iff)
  qed
qed

section \<open>The ordered map as an interface\<close>

text \<open>
  The components use a \<open>BTreeMap\<close> only through these laws. What follows from them
  (the contents after collecting an iterator, the entry API) is proved once here.
\<close>

locale ordered_map =
  fixes emp :: "'m"
    and put :: "'k \<Rightarrow> 'v \<Rightarrow> 'm \<Rightarrow> 'm"
    and look :: "'m \<Rightarrow> 'k \<Rightarrow> 'v option"
    and inv :: "'m \<Rightarrow> bool"
  assumes look_emp: "look emp k = None"
    and look_put: "look (put k v m) k' = (if k' = k then Some v else look m k')"
    and inv_emp: "inv emp"
    and inv_put: "inv m \<Longrightarrow> inv (put k v m)"
begin

lemma look_put_all:
  "look (foldl (\<lambda>m e. put (fst e) (snd e) m) m es) k =
     (case map_of (rev es) k of Some v \<Rightarrow> Some v | None \<Rightarrow> look m k)"
  by (induction es arbitrary: m) (auto simp: look_put map_add_def split: option.splits)

lemma look_collect:
  "look (foldl (\<lambda>m e. put (fst e) (snd e) m) emp es) k = map_of (rev es) k"
  by (simp add: look_put_all look_emp split: option.splits)

lemma inv_put_all: "inv m \<Longrightarrow> inv (foldl (\<lambda>m e. put (fst e) (snd e) m) m es)"
  by (induction es arbitrary: m) (simp_all add: inv_put)

lemma look_collect_distinct:
  "distinct (map fst es) \<Longrightarrow> (k, v) \<in> set es \<Longrightarrow>
     look (foldl (\<lambda>m e. put (fst e) (snd e) m) emp es) k = Some v"
  by (simp add: look_collect map_of_eq_Some_iff rev_map [symmetric] distinct_rev)

lemma put_idem: "look (put k v (put k w m)) = look (put k v m)"
  by (auto simp: look_put)

end

interpretation btree: ordered_map "[]" bput map_of bmap_ok
  by unfold_locales auto

section \<open>Work-list graph search\<close>

text \<open>
  The sources search graphs with a queue or a stack and a set of seen nodes. \<open>walk_ok\<close>
  is the invariant they share: everything seen or waiting is reachable from the roots, the
  roots are seen or waiting, and so is every successor of a seen node. When nothing waits any
  more, the seen nodes are exactly the reachable ones.
\<close>

definition reach_set :: "('a \<Rightarrow> 'a list) \<Rightarrow> 'a set \<Rightarrow> 'a set" where
  "reach_set succ roots = {(x, y). y \<in> set (succ x)}\<^sup>* `` roots"

definition walk_ok :: "('a \<Rightarrow> 'a list) \<Rightarrow> 'a set \<Rightarrow> 'a set \<Rightarrow> 'a set \<Rightarrow> bool" where
  "walk_ok succ roots seen wait \<longleftrightarrow>
     roots \<subseteq> seen \<union> wait \<and> seen \<union> wait \<subseteq> reach_set succ roots \<and>
     (\<forall>x \<in> seen. set (succ x) \<subseteq> seen \<union> wait)"

lemma reach_set_root [intro, simp]: "r \<in> roots \<Longrightarrow> r \<in> reach_set succ roots"
  by (auto simp: reach_set_def)

lemma reach_set_step [intro]:
  "x \<in> reach_set succ roots \<Longrightarrow> y \<in> set (succ x) \<Longrightarrow> y \<in> reach_set succ roots"
  by (auto simp: reach_set_def Image_iff intro: rtrancl_into_rtrancl)

lemma reach_set_induct [consumes 1, case_names root step]:
  assumes "x \<in> reach_set succ roots"
    and "\<And>r. r \<in> roots \<Longrightarrow> P r"
    and "\<And>x y. x \<in> reach_set succ roots \<Longrightarrow> P x \<Longrightarrow> y \<in> set (succ x) \<Longrightarrow> P y"
  shows "P x"
proof -
  from assms(1) obtain r where r: "r \<in> roots" and
    path: "(r, x) \<in> {(x, y). y \<in> set (succ x)}\<^sup>*"
    by (auto simp: reach_set_def)
  from path have "x \<in> reach_set succ roots \<and> P x"
  proof (induction rule: rtrancl_induct)
    case base
    then show ?case using r assms(2) by auto
  next
    case (step y z)
    then show ?case using assms(3) by blast
  qed
  then show ?thesis by simp
qed

lemma reach_set_least:
  assumes "roots \<subseteq> S" and "\<And>x. x \<in> S \<Longrightarrow> set (succ x) \<subseteq> S"
  shows "reach_set succ roots \<subseteq> S"
proof
  fix x assume "x \<in> reach_set succ roots"
  then show "x \<in> S"
    by (induction rule: reach_set_induct) (use assms in auto)
qed

lemma walk_start [walk_intros]: "walk_ok succ roots {} roots"
  by (auto simp: walk_ok_def)

lemma walk_skip [walk_intros]:
  "walk_ok succ roots seen (insert x wait) \<Longrightarrow> x \<in> seen \<Longrightarrow> walk_ok succ roots seen wait"
  by (auto simp: walk_ok_def)

lemma walk_visit [walk_intros]:
  "walk_ok succ roots seen (insert x wait) \<Longrightarrow>
     walk_ok succ roots (insert x seen) (set (succ x) \<union> wait)"
  unfolding walk_ok_def by (auto; blast)

lemma walk_done: "walk_ok succ roots seen {} \<Longrightarrow> seen = reach_set succ roots"
  using reach_set_least [of roots seen succ] by (auto simp: walk_ok_def)

lemma reach_set_mono: "roots \<subseteq> roots' \<Longrightarrow> reach_set succ roots \<subseteq> reach_set succ roots'"
  by (rule reach_set_least) auto

lemma reach_set_trans:
  "y \<in> reach_set succ {x} \<Longrightarrow> x \<in> reach_set succ roots \<Longrightarrow> y \<in> reach_set succ roots"
  by (induction rule: reach_set_induct) auto

end
