(* ===== verification/Core_Text.thy ===== *)
theory Core_Text
  imports Rust_Str
begin

text \<open>
  \<open>crates/brocade-core/src/text.rs\<close> (validation and normalisation of the short strings
  shared by the model and the store) and the identity labels of
  \<open>crates/brocade-core/src/model.rs\<close>: slugs, user credential labels and probe labels.
  The base64 decoder of REALITY keys is third-party code and therefore a parameter.
\<close>

section \<open>Definitions from text.rs\<close>

definition reality_fingerprints :: "string list" where
  "reality_fingerprints =
     [''chrome'', ''firefox'', ''safari'', ''ios'', ''android'', ''edge'', ''360'', ''qq'',
      ''random'', ''randomized'']"

definition is_reality_public_key :: "(string \<Rightarrow> string option) \<Rightarrow> string \<Rightarrow> bool" where
  "is_reality_public_key url_safe_no_pad_decode value \<longleftrightarrow>
     value \<noteq> [] \<and>
     (case url_safe_no_pad_decode value of None \<Rightarrow> False | Some decoded \<Rightarrow> length decoded = 32)"

definition is_reality_short_id :: "string \<Rightarrow> bool" where
  "is_reality_short_id value \<longleftrightarrow>
     2 \<le> length value \<and> length value \<le> 16 \<and> length value mod 2 = 0 \<and>
     list_all is_ascii_hexdigit value"

definition is_reality_fingerprint :: "string \<Rightarrow> bool" where
  "is_reality_fingerprint value \<longleftrightarrow> to_ascii_lowercase value \<in> set reality_fingerprints"

definition is_reality_server_name :: "string \<Rightarrow> bool" where
  "is_reality_server_name value \<longleftrightarrow>
     value \<noteq> [] \<and> CHR ''*'' \<notin> set value \<and> \<not> has_whitespace value \<and> CHR '':'' \<notin> set value"

definition is_nonzero_host_port :: "string \<Rightarrow> bool" where
  "is_nonzero_host_port value =
     (case rsplit_once CHR '':'' value of
        None \<Rightarrow> False
      | Some (host, port) \<Rightarrow>
          (let host' = (case strip_prefix ''['' host of
                          None \<Rightarrow> host
                        | Some h \<Rightarrow> (case strip_suffix '']'' h of None \<Rightarrow> host | Some h' \<Rightarrow> h'))
           in host' \<noteq> [] \<and>
              (case parse_u16 port of None \<Rightarrow> False | Some n \<Rightarrow> n \<noteq> 0)))"

definition normalize_host_port :: "string \<Rightarrow> string" where
  "normalize_host_port value =
     (let v = trim value;
          bracketed = (case strip_prefix ''['' v of
                         None \<Rightarrow> None
                       | Some rest \<Rightarrow>
                           (case split_once '']:'' rest of
                              None \<Rightarrow> None
                            | Some (host, port) \<Rightarrow> Some (''['' @ trim host @ '']:'' @ trim port)))
      in case bracketed of
           Some r \<Rightarrow> r
         | None \<Rightarrow>
             (case rsplit_once CHR '':'' v of
                Some (host, port) \<Rightarrow> trim host @ '':'' @ trim port
              | None \<Rightarrow> v))"

definition parse_version_part :: "string \<Rightarrow> nat option" where
  "parse_version_part value =
     (if value = [] \<or> \<not> list_all is_ascii_digit value then None else parse_u64 value)"

definition parse_semver3 :: "string \<Rightarrow> (nat \<times> nat \<times> nat) option" where
  "parse_semver3 value =
     (case split_char CHR ''.'' value of
        [a, b, c] \<Rightarrow>
          (case parse_version_part a of None \<Rightarrow> None | Some major \<Rightarrow>
           (case parse_version_part b of None \<Rightarrow> None | Some minor \<Rightarrow>
            (case parse_version_part c of None \<Rightarrow> None | Some patch \<Rightarrow>
               Some (major, minor, patch))))
      | _ \<Rightarrow> None)"

section \<open>Labels and slugs from model.rs\<close>

definition slug_max_len :: nat where "slug_max_len = 32"

definition is_valid_slug :: "string \<Rightarrow> bool" where
  "is_valid_slug value \<longleftrightarrow>
     value \<noteq> [] \<and> length value \<le> slug_max_len \<and>
     list_all (\<lambda>b. is_ascii_lowercase b \<or> is_ascii_digit b \<or> b \<in> {CHR ''.'', CHR ''_'', CHR ''-''}) value"

definition is_lower_hex4 :: "string \<Rightarrow> bool" where
  "is_lower_hex4 part \<longleftrightarrow>
     length part = 4 \<and>
     list_all (\<lambda>b. is_ascii_digit b \<or> 97 \<le> (of_char b :: nat) \<and> (of_char b :: nat) \<le> 102) part"

definition is_valid_opaque_tunnel_id :: "string \<Rightarrow> string \<Rightarrow> bool" where
  "is_valid_opaque_tunnel_id value pref =
     (case strip_prefix pref value of
        None \<Rightarrow> False
      | Some rest \<Rightarrow>
          (case split_once ''-'' rest of
             None \<Rightarrow> False
           | Some (first, second) \<Rightarrow> is_lower_hex4 first \<and> is_lower_hex4 second))"

definition is_valid_custom_tunnel_id :: "string \<Rightarrow> bool" where
  "is_valid_custom_tunnel_id value = is_valid_opaque_tunnel_id value ''custom-''"

definition is_valid_warp_tunnel_id :: "string \<Rightarrow> bool" where
  "is_valid_warp_tunnel_id value = is_valid_opaque_tunnel_id value ''warp-''"

definition is_valid_vpngate_tunnel_id :: "string \<Rightarrow> bool" where
  "is_valid_vpngate_tunnel_id value = is_valid_opaque_tunnel_id value ''vpngate-''"

definition grant_label :: "string \<Rightarrow> string \<Rightarrow> string \<Rightarrow> string" where
  "grant_label user tenant ingress = user @ ''@'' @ tenant @ ''#'' @ ingress"

definition parse_grant_label :: "string \<Rightarrow> (string \<times> string \<times> string) option" where
  "parse_grant_label label =
     (case split_once ''@'' label of
        None \<Rightarrow> None
      | Some (user, rest) \<Rightarrow>
          (case split_once ''#'' rest of
             None \<Rightarrow> None
           | Some (tenant, ingress) \<Rightarrow>
               (if user = [] \<or> tenant = [] \<or> ingress = [] then None
                else Some (user, tenant, ingress))))"

definition probe_label_prefix :: string where "probe_label_prefix = ''probe#''"

definition probe_label :: "string \<Rightarrow> string" where
  "probe_label ingress = probe_label_prefix @ ingress"

definition is_probe_label :: "string \<Rightarrow> bool" where
  "is_probe_label label =
     (case strip_prefix probe_label_prefix label of None \<Rightarrow> False | Some ingress \<Rightarrow> ingress \<noteq> [])"

text \<open>\<open>base.replace('%', "%25").replace('@', "%40")\<close>, in one pass.\<close>

definition escape_label :: "string \<Rightarrow> string" where
  "escape_label base =
     concat (map (\<lambda>c. if c = CHR ''%'' then ''%25'' else if c = CHR ''@'' then ''%40'' else [c]) base)"

definition probe_transport_label :: "string \<Rightarrow> string \<Rightarrow> string" where
  "probe_transport_label base role = ''probe#'' @ role @ '':'' @ escape_label base"

datatype ip_family = V4 | V6

fun probe_family_key :: "ip_family \<Rightarrow> string" where
  "probe_family_key V4 = ''v4''"
| "probe_family_key V6 = ''v6''"

definition probe_family_label :: "string \<Rightarrow> ip_family \<Rightarrow> string" where
  "probe_family_label base family = probe_transport_label base (probe_family_key family)"

definition probe_dns_label :: "string \<Rightarrow> string" where
  "probe_dns_label base = probe_transport_label base ''dns''"

definition probe_dns_tag :: "string \<Rightarrow> string" where
  "probe_dns_tag base = ''probe:dns:'' @ base"

definition probe_family_tag :: "string \<Rightarrow> ip_family \<Rightarrow> string" where
  "probe_family_tag base family = base @ '':probe-'' @ probe_family_key family"

definition probe_family_base :: "string \<Rightarrow> ip_family \<Rightarrow> string option" where
  "probe_family_base tag family = strip_suffix (probe_family_tag [] family) tag"

definition is_probe_family_tag :: "string \<Rightarrow> bool" where
  "is_probe_family_tag tag \<longleftrightarrow> ends_with tag '':probe-v4'' \<or> ends_with tag '':probe-v6''"

section \<open>Lemmas\<close>

text \<open>Characters a slug cannot hold.\<close>

lemma slug_chars:
  assumes "is_valid_slug s"
  shows "CHR ''@'' \<notin> set s" and "CHR ''#'' \<notin> set s" and "s \<noteq> []"
  using assms
  by (auto simp: is_valid_slug_def list_all_iff is_ascii_lowercase_def is_ascii_digit_def)

lemma escape_label_no_at: "CHR ''@'' \<notin> set (escape_label base)"
  by (induction base) (auto simp: escape_label_def)

lemma escape_label_inj: "escape_label a = escape_label b \<Longrightarrow> a = b"
proof (induction a arbitrary: b)
  case Nil
  then show ?case by (cases b) (auto simp: escape_label_def split: if_splits)
next
  case (Cons x xs)
  then show ?case by (cases b) (auto simp: escape_label_def split: if_splits)
qed

lemma probe_family_key_inj: "probe_family_key f = probe_family_key g \<Longrightarrow> f = g"
  by (cases f; cases g) auto

text \<open>C31: a credential label splits back into exactly the user, tenant and ingress it was
  assembled from, for any parts whose separators are unambiguous (every slug qualifies).\<close>

theorem grant_label_roundtrip:
  assumes "user \<noteq> []" and "tenant \<noteq> []" and "ingress \<noteq> []"
    and "CHR ''@'' \<notin> set user" and "CHR ''#'' \<notin> set tenant"
  shows "parse_grant_label (grant_label user tenant ingress) = Some (user, tenant, ingress)"
  using assms
  by (simp add: parse_grant_label_def grant_label_def split_once_char_append)

theorem grant_label_roundtrip_witness:
  "parse_grant_label (grant_label ''alice'' ''platform.acme'' ''i-hk'')
     = Some (''alice'', ''platform.acme'', ''i-hk'')"
  by (rule grant_label_roundtrip) simp_all

text \<open>Conversely a label that parses is the label of its parts.\<close>

lemma parse_grant_label_Some:
  "parse_grant_label label = Some (user, tenant, ingress) \<Longrightarrow>
     label = grant_label user tenant ingress \<and> user \<noteq> [] \<and> tenant \<noteq> [] \<and> ingress \<noteq> []"
  by (auto simp: parse_grant_label_def grant_label_def split_once_char_Some
      split: option.splits if_splits)

text \<open>Billing never sees probe traffic: no label of a probe credential (of an ingress, of an
  address family, of the DNS probe) parses as a user's credential label, and a user's label is
  never taken for a probe's.\<close>

theorem probe_labels_are_not_user_labels:
  assumes "is_valid_slug ingress" and "is_valid_slug user"
  shows "parse_grant_label (probe_label ingress) = None \<and>
    parse_grant_label (probe_family_label base family) = None \<and>
    parse_grant_label (probe_dns_label base) = None \<and>
    is_probe_label (probe_label ingress) \<and>
    is_probe_label (probe_family_label base family) \<and>
    \<not> is_probe_label (grant_label user tenant ingress')"
proof -
  have key: "CHR ''@'' \<notin> set (probe_family_key family)" by (cases family) auto
  have none: "CHR ''@'' \<notin> set l \<Longrightarrow> parse_grant_label l = None" for l
    by (simp add: parse_grant_label_def split_once_char_None [THEN iffD2])
  have c1: "parse_grant_label (probe_label ingress) = None"
    using slug_chars [OF assms(1)]
    by (intro none) (auto simp: probe_label_def probe_label_prefix_def)
  have c2: "parse_grant_label (probe_family_label base family) = None"
    using key escape_label_no_at
    by (intro none) (auto simp: probe_family_label_def probe_transport_label_def)
  have c3: "parse_grant_label (probe_dns_label base) = None"
    using escape_label_no_at
    by (intro none) (auto simp: probe_dns_label_def probe_transport_label_def)
  have c4: "is_probe_label (probe_label ingress)"
    using slug_chars [OF assms(1)]
    by (simp add: is_probe_label_def probe_label_def strip_prefix_def)
  have c5: "is_probe_label (probe_family_label base family)"
    by (cases family)
      (simp_all add: is_probe_label_def probe_family_label_def probe_transport_label_def
        probe_label_prefix_def strip_prefix_def)
  have c6: "\<not> is_probe_label (grant_label user tenant ingress')"
  proof
    assume "is_probe_label (grant_label user tenant ingress')"
    then obtain r where "user @ ''@'' @ tenant @ ''#'' @ ingress' = ''probe#'' @ r"
      by (auto simp: is_probe_label_def grant_label_def probe_label_prefix_def strip_prefix_Some
          split: option.splits)
    with slug_chars [OF assms(2)] show False
      by (cases "length user < 6")
        (auto simp: append_eq_append_conv2 append_eq_Cons_conv Cons_eq_append_conv)
  qed
  from c1 c2 c3 c4 c5 c6 show ?thesis by blast
qed

theorem probe_labels_are_not_user_labels_witness:
  "parse_grant_label (probe_label ''i-hk'') = None \<and>
   \<not> is_probe_label (grant_label ''alice'' ''platform'' ''i-hk'')"
proof -
  have a: "is_valid_slug ''i-hk''" and b: "is_valid_slug ''alice''"
    by (simp_all add: is_valid_slug_def slug_max_len_def is_ascii_lowercase_def is_ascii_digit_def)
  show ?thesis
    using probe_labels_are_not_user_labels [OF a b] by blast
qed

text \<open>The diagnostic transports of different relay labels or families never share a label.\<close>

lemma probe_family_label_inj:
  "probe_family_label b f = probe_family_label b' f' \<Longrightarrow> b = b' \<and> f = f'"
  by (cases f; cases f')
    (auto simp: probe_family_label_def probe_transport_label_def dest: escape_label_inj)

lemma probe_family_base_tag: "probe_family_base (probe_family_tag base f) f = Some base"
  by (simp add: probe_family_base_def probe_family_tag_def strip_suffix_Some)

lemma is_probe_family_tag_tag: "is_probe_family_tag (probe_family_tag base f)"
  by (cases f) (auto simp: is_probe_family_tag_def probe_family_tag_def ends_with_iff)

lemma parse_semver3_example: "parse_semver3 ''1.9.4'' = Some (1, 9, 4)"
  by (simp add: parse_semver3_def parse_version_part_def parse_unsigned_def is_ascii_digit_def
      digits_val_def digit_val_def)

end
