(* ===== verification/Traffic_Limit.thy ===== *)
theory Traffic_Limit
  imports Rust_Str Complex_Main
begin

text \<open>
  \<open>crates/brocade-deployment/src/traffic_limit.rs\<close>: the machine traffic policy shared by
  the console and the agent. It holds the accounting modes, the throttling rules and their
  validation, the evaluation of the rate that applies, the durable day boundaries, and the
  calendar that places the billing period around an instant. Seconds and days are \<open>i64\<close>
  in the source; here they are \<open>int\<close>: the ends of a period lie within 366 days of the
  instant (theory \<open>Traffic_Period\<close>), far from the ends of the \<open>i64\<close> range for any real clock.
\<close>

section \<open>Accounting\<close>

datatype node_traffic_cycle_kind = Monthly | Yearly

fun cycle_as_str :: "node_traffic_cycle_kind \<Rightarrow> string" where
  "cycle_as_str Monthly = ''monthly''"
| "cycle_as_str Yearly = ''yearly''"

datatype node_traffic_accounting_mode =
  BidirectionalSum | BidirectionalMax | OutboundOnly | InboundOnly

fun mode_as_str :: "node_traffic_accounting_mode \<Rightarrow> string" where
  "mode_as_str BidirectionalSum = ''bidirectional_sum''"
| "mode_as_str BidirectionalMax = ''bidirectional_max''"
| "mode_as_str OutboundOnly = ''outbound_only''"
| "mode_as_str InboundOnly = ''inbound_only''"

definition mode_parse :: "string \<Rightarrow> message + node_traffic_accounting_mode" where
  "mode_parse v =
     (if v = ''bidirectional_sum'' then Inr BidirectionalSum
      else if v = ''bidirectional_max'' then Inr BidirectionalMax
      else if v = ''outbound_only'' then Inr OutboundOnly
      else if v = ''inbound_only'' then Inr InboundOnly
      else Inl (Msg ''invalid machine traffic accounting mode'' []))"

fun mode_apply :: "node_traffic_accounting_mode \<Rightarrow> u64 \<Rightarrow> u64 \<Rightarrow> u64" where
  "mode_apply BidirectionalSum rx tx = saturating_add rx tx"
| "mode_apply BidirectionalMax rx tx = max rx tx"
| "mode_apply OutboundOnly rx tx = tx"
| "mode_apply InboundOnly rx tx = rx"

section \<open>Policy\<close>

definition max_traffic_limit_rules :: nat where "max_traffic_limit_rules = 8"
definition max_traffic_day_boundaries :: nat where "max_traffic_day_boundaries = 400"
definition max_traffic_rate_bps :: u64 where "max_traffic_rate_bps = 1000000000000"

datatype traffic_limit_threshold = QuotaPercent (tr_basis_points: u32) | Absolute (tr_bytes: string)

record traffic_limit_rule =
  tr_threshold :: traffic_limit_threshold
  tr_rate_bps :: u64

datatype traffic_limit_layer = System | Application | Both

fun layer_system :: "traffic_limit_layer \<Rightarrow> bool" where
  "layer_system l = (l = System \<or> l = Both)"

fun layer_application :: "traffic_limit_layer \<Rightarrow> bool" where
  "layer_application l = (l = Application \<or> l = Both)"

record traffic_limit_policy =
  pol_layer :: traffic_limit_layer
  pol_enabled :: bool
  pol_rules :: "traffic_limit_rule list"

definition decimal_bytes :: "string \<Rightarrow> message + u64" where
  "decimal_bytes value =
     (if value = [] \<or> \<not> list_all is_ascii_digit value
      then Inl (Msg ''not a decimal byte count'' [])
      else case parse_u64 value of
             None \<Rightarrow> Inl (Msg ''byte count out of range'' [])
           | Some n \<Rightarrow> Inr (of_nat n))"

fun validate_rules :: "bool \<Rightarrow> u64 option \<Rightarrow> traffic_limit_rule list \<Rightarrow> message + unit" where
  "validate_rules en quota [] = Inr ()"
| "validate_rules en quota (r # rs) =
     (if \<not> (1000 \<le> tr_rate_bps r \<and> tr_rate_bps r \<le> max_traffic_rate_bps)
      then Inl (Msg ''rate outside 1 Kbps to 1 Tbps'' [])
      else case tr_threshold r of
             QuotaPercent bp \<Rightarrow>
               (if \<not> (1 \<le> bp \<and> bp \<le> 10000) then Inl (Msg ''percentage outside 0 to 100'' [])
                else if en \<and> (case quota of None \<Rightarrow> True | Some q \<Rightarrow> q = 0)
                then Inl (Msg ''percentage rule without a quota'' [])
                else validate_rules en quota rs)
           | Absolute b \<Rightarrow>
               (case decimal_bytes b of
                  Inl e \<Rightarrow> Inl e
                | Inr n \<Rightarrow>
                    (if n = 0 then Inl (Msg ''absolute tr_threshold is zero'' [])
                     else validate_rules en quota rs)))"

definition policy_validate :: "traffic_limit_policy \<Rightarrow> u64 option \<Rightarrow> message + unit" where
  "policy_validate p quota =
     (if length (pol_rules p) > max_traffic_limit_rules \<or> pol_enabled p \<and> pol_rules p = []
      then Inl (Msg ''between 1 and 8 rules'' [])
      else validate_rules (pol_enabled p) quota (pol_rules p))"

text \<open>The products of the source are \<open>u128\<close>; on \<open>nat\<close> they are the same numbers.\<close>

definition rule_matches :: "u64 \<Rightarrow> u64 option \<Rightarrow> traffic_limit_rule \<Rightarrow> bool" where
  "rule_matches used quota r =
     (case tr_threshold r of
        QuotaPercent bp \<Rightarrow>
          (case quota of None \<Rightarrow> False | Some q \<Rightarrow> unat used * 10000 \<ge> unat q * unat bp)
      | Absolute b \<Rightarrow>
          (case decimal_bytes b of Inl _ \<Rightarrow> False | Inr n \<Rightarrow> used \<ge> n))"

fun iter_min :: "'a::linorder list \<Rightarrow> 'a option" where
  "iter_min [] = None"
| "iter_min (x # xs) = (case iter_min xs of None \<Rightarrow> Some x | Some y \<Rightarrow> Some (min x y))"

definition policy_rate :: "traffic_limit_policy \<Rightarrow> u64 \<Rightarrow> u64 option \<Rightarrow> u64 option" where
  "policy_rate p used quota =
     (if \<not> pol_enabled p then None
      else iter_min (map tr_rate_bps (filter (rule_matches used quota) (pol_rules p))))"

section \<open>Day boundaries\<close>

record traffic_day_boundary =
  tb_day_start_unix_secs :: int
  tb_rx_bytes :: u64
  tb_tx_bytes :: u64

fun check_boundaries ::
  "traffic_day_boundary option \<Rightarrow> int option \<Rightarrow> u64 \<Rightarrow> u64 \<Rightarrow> traffic_day_boundary list \<Rightarrow> message + unit"
where
  "check_boundaries previous sampled_at rx tx [] = Inr ()"
| "check_boundaries previous sampled_at rx tx (b # bs) =
     (if tb_day_start_unix_secs b \<le> 0
         \<or> tb_day_start_unix_secs b smod 86400 \<noteq> 0
         \<or> (case sampled_at of None \<Rightarrow> True | Some t \<Rightarrow> tb_day_start_unix_secs b > t)
         \<or> tb_rx_bytes b > rx
         \<or> tb_tx_bytes b > tx
         \<or> (case previous of
              None \<Rightarrow> False
            | Some old \<Rightarrow>
                tb_day_start_unix_secs old \<ge> tb_day_start_unix_secs b
                \<or> tb_rx_bytes old > tb_rx_bytes b \<or> tb_tx_bytes old > tb_tx_bytes b)
      then Inl (Msg ''invalid traffic day boundary'' [])
      else check_boundaries (Some b) sampled_at rx tx bs)"

definition validate_day_boundaries ::
  "traffic_day_boundary list \<Rightarrow> int option \<Rightarrow> u64 \<Rightarrow> u64 \<Rightarrow> message + unit" where
  "validate_day_boundaries bs sampled_at rx tx =
     (if length bs > max_traffic_day_boundaries then Inl (Msg ''too many traffic day boundaries'' [])
      else check_boundaries None sampled_at rx tx bs)"

section \<open>Calendar\<close>

record traffic_limit_desired =
  td_revision :: u64
  td_policy :: traffic_limit_policy
  td_quota_bytes :: "u64 option"
  td_cycle_kind :: node_traffic_cycle_kind
  td_accounting_mode :: node_traffic_accounting_mode
  td_reset_month :: "nat option"
  td_reset_day :: nat

definition desired_validate :: "traffic_limit_desired \<Rightarrow> message + unit" where
  "desired_validate d =
     (case policy_validate (td_policy d) (td_quota_bytes d) of
        Inl e \<Rightarrow> Inl e
      | Inr _ \<Rightarrow>
          (if \<not> (1 \<le> td_reset_day d \<and> td_reset_day d \<le> 31)
              \<or> (case td_cycle_kind d of
                   Monthly \<Rightarrow> td_reset_month d \<noteq> None
                 | Yearly \<Rightarrow>
                     \<not> (case td_reset_month d of None \<Rightarrow> False | Some m \<Rightarrow> 1 \<le> m \<and> m \<le> 12))
           then Inl (Msg ''invalid traffic reset date'' [])
           else Inr ()))"

definition days_from_civil :: "int \<Rightarrow> int \<Rightarrow> int \<Rightarrow> int" where
  "days_from_civil year0 month day =
     (let year = year0 - (if month \<le> 2 then 1 else 0);
          era = year div 400;
          yoe = year - era * 400;
          doy = (153 * (month + (if month > 2 then -3 else 9)) + 2) sdiv 5 + day - 1
      in era * 146097 + yoe * 365 + yoe sdiv 4 - yoe sdiv 100 + doy - 719468)"

definition civil_from_days :: "int \<Rightarrow> int \<times> int \<times> int" where
  "civil_from_days days =
     (let z = days + 719468;
          era = z div 146097;
          doe = z - era * 146097;
          yoe = (doe - doe sdiv 1460 + doe sdiv 36524 - doe sdiv 146096) sdiv 365;
          doy = doe - (365 * yoe + yoe sdiv 4 - yoe sdiv 100);
          mp = (5 * doy + 2) sdiv 153;
          day = doy - (153 * mp + 2) sdiv 5 + 1;
          month = mp + (if mp < 10 then 3 else -9)
      in (yoe + era * 400 + (if month \<le> 2 then 1 else 0), month, day))"

definition reset_at :: "int \<Rightarrow> int \<Rightarrow> nat \<Rightarrow> int" where
  "reset_at year month rd =
     (let days =
        (if month = 2 \<and> year smod 4 = 0 \<and> (year smod 100 \<noteq> 0 \<or> year smod 400 = 0) then 29
         else if month = 2 then 28
         else if month \<in> {4, 6, 9, 11} then 30
         else 31)
      in days_from_civil year month (min (int rd) days) * 86400)"

fun previous_month :: "int \<Rightarrow> int \<Rightarrow> node_traffic_cycle_kind \<Rightarrow> int \<times> int" where
  "previous_month year month Yearly = (year - 1, month)"
| "previous_month year month Monthly = (if month = 1 then (year - 1, 12) else (year, month - 1))"

definition next_month :: "int \<Rightarrow> int \<Rightarrow> node_traffic_cycle_kind \<Rightarrow> int \<times> int" where
  "next_month start_year start_month cycle =
     (case cycle of
        Yearly \<Rightarrow> (start_year + 1, start_month)
      | Monthly \<Rightarrow> (if start_month = 12 then (start_year + 1, 1) else (start_year, start_month + 1)))"

definition period :: "traffic_limit_desired \<Rightarrow> int \<Rightarrow> int \<times> int" where
  "period d now =
     (case civil_from_days (now div 86400) of
        (year, month, _) \<Rightarrow>
          (let anchor_month = (case td_reset_month d of Some m \<Rightarrow> int m | None \<Rightarrow> month);
               this = reset_at year anchor_month (td_reset_day d)
           in case (if now \<ge> this then (year, anchor_month)
                    else previous_month year anchor_month (td_cycle_kind d)) of
                (start_year, start_month) \<Rightarrow>
                  (case next_month start_year start_month (td_cycle_kind d) of
                     (end_year, end_month) \<Rightarrow>
                       (reset_at start_year start_month (td_reset_day d),
                        reset_at end_year end_month (td_reset_day d)))))"


section \<open>What the policy guarantees\<close>

lemma iter_min_None [simp]: "iter_min xs = None \<longleftrightarrow> xs = []"
  by (cases xs) (auto split: option.splits)

lemma iter_min_Min: "xs \<noteq> [] \<Longrightarrow> iter_min xs = Some (Min (set xs))"
proof (induction xs)
  case (Cons x xs)
  then show ?case by (cases "xs = []") simp_all
qed simp

lemma iter_min_map: "iter_min (map f xs) = (if xs = [] then None else Some (Min (f ` set xs)))"
  using iter_min_Min [of "map f xs"] by (cases xs) (auto simp del: iter_min.simps simp: iter_min.simps(1))

lemma mode_roundtrip: "mode_parse (mode_as_str m) = Inr m"
  by (cases m) (simp_all add: mode_parse_def)

lemma mode_parse_Inr: "mode_parse v = Inr m \<longleftrightarrow> v = mode_as_str m"
  by (cases m) (auto simp: mode_parse_def split: if_splits)

lemma mode_apply_bounds:
  "unat (mode_apply m rx tx) \<le> unat rx + unat tx"
  "m \<noteq> BidirectionalSum \<Longrightarrow> mode_apply m rx tx \<in> {rx, tx}"
  by (cases m; auto simp: unat_saturating_add max_def)+

lemma decimal_bytes_Inr:
  "decimal_bytes b = Inr n \<Longrightarrow> b \<noteq> [] \<and> list_all is_ascii_digit b"
  by (auto simp: decimal_bytes_def split: if_splits)

definition rule_ok :: "bool \<Rightarrow> u64 option \<Rightarrow> traffic_limit_rule \<Rightarrow> bool" where
  "rule_ok en quota r \<longleftrightarrow>
     1000 \<le> tr_rate_bps r \<and> tr_rate_bps r \<le> max_traffic_rate_bps \<and>
     (case tr_threshold r of
        QuotaPercent bp \<Rightarrow> 1 \<le> bp \<and> bp \<le> 10000 \<and> (en \<longrightarrow> (\<exists>q. quota = Some q \<and> q \<noteq> 0))
      | Absolute b \<Rightarrow> (\<exists>n. decimal_bytes b = Inr n \<and> n \<noteq> 0))"

lemma validate_rules_iff: "validate_rules en quota rs = Inr () \<longleftrightarrow> list_all (rule_ok en quota) rs"
proof (induction rs)
  case (Cons r rs)
  have "validate_rules en quota (r # rs) = Inr () \<longleftrightarrow>
      rule_ok en quota r \<and> validate_rules en quota rs = Inr ()"
    by (auto simp: rule_ok_def split: traffic_limit_threshold.splits sum.splits option.splits)
  with Cons show ?case by simp
qed simp

text \<open>A policy is accepted exactly when it has at most eight rules, at least one when it is enabled, and every rule has a rate between 1 Kbps and 1 Tbps and a threshold that can be reached: a percentage of a quota that is there, or a positive byte count.\<close>

theorem policy_validate_iff:
  "policy_validate p quota = Inr () \<longleftrightarrow>
     length (pol_rules p) \<le> 8 \<and> (pol_enabled p \<longrightarrow> pol_rules p \<noteq> []) \<and>
     (\<forall>r \<in> set (pol_rules p). rule_ok (pol_enabled p) quota r)"
  by (auto simp: policy_validate_def validate_rules_iff list_all_iff max_traffic_limit_rules_def)

lemma policy_rate_Min:
  "policy_rate p used quota =
     (let hits = {r \<in> set (pol_rules p). rule_matches used quota r}
      in if pol_enabled p \<and> hits \<noteq> {} then Some (Min (tr_rate_bps ` hits)) else None)"
proof -
  let ?hits = "filter (rule_matches used quota) (pol_rules p)"
  have "iter_min (map tr_rate_bps ?hits) =
    (if ?hits = [] then None else Some (Min (tr_rate_bps ` set ?hits)))"
    by (rule iter_min_map)
  moreover have "?hits = [] \<longleftrightarrow> {r \<in> set (pol_rules p). rule_matches used quota r} = {}"
    by (auto simp: filter_empty_conv)
  ultimately show ?thesis unfolding policy_rate_def Let_def set_filter by simp
qed

lemma rule_matches_mono:
  "rule_matches used quota r \<Longrightarrow> used \<le> used' \<Longrightarrow> rule_matches used' quota r"
  by (auto simp: rule_matches_def word_le_nat_alt
      split: traffic_limit_threshold.splits option.splits sum.splits elim: order_trans)

lemma policy_rate_antitone:
  assumes "used \<le> used'" and "policy_rate p used quota = Some r"
  shows "\<exists>r'. policy_rate p used' quota = Some r' \<and> r' \<le> r"
proof -
  let ?h = "\<lambda>u. {r \<in> set (pol_rules p). rule_matches u quota r}"
  from assms(2) have en: "pol_enabled p" "?h used \<noteq> {}" "r = Min (tr_rate_bps ` ?h used)"
    unfolding policy_rate_Min Let_def by (auto split: if_splits)
  have sub: "?h used \<subseteq> ?h used'" using rule_matches_mono [OF _ assms(1)] by auto
  have "Min (tr_rate_bps ` ?h used') \<le> Min (tr_rate_bps ` ?h used)"
    using sub en(2) by (intro Min_antimono image_mono) auto
  with en sub show ?thesis unfolding policy_rate_Min Let_def by auto
qed

text \<open>
  When a threshold is reached, in real numbers: a percentage, given in hundredths of a percent, of
  a quota there is, or the number a decimal text denotes.
\<close>

definition threshold_reached :: "real \<Rightarrow> real option \<Rightarrow> traffic_limit_threshold \<Rightarrow> bool" where
  "threshold_reached used quota t \<longleftrightarrow>
     (case t of
        QuotaPercent bp \<Rightarrow> (\<exists>q. quota = Some q \<and> q * (real (unat bp) / 100) / 100 \<le> used)
      | Absolute b \<Rightarrow> b \<noteq> [] \<and> list_all is_ascii_digit b \<and> real (digits_val b) \<le> used)"

lemma absolute_reached:
  "(case decimal_bytes b of Inl _ \<Rightarrow> False | Inr n \<Rightarrow> n \<le> used) \<longleftrightarrow>
     b \<noteq> [] \<and> list_all is_ascii_digit b \<and> digits_val b \<le> unat used"
proof (cases "b \<noteq> [] \<and> list_all is_ascii_digit b")
  case True
  then have "hd b \<noteq> CHR ''+''" by (cases b) (auto simp: is_ascii_digit_def)
  with True have "parse_u64 b = (if digits_val b < 2 ^ 64 then Some (digits_val b) else None)"
    by (simp add: parse_unsigned_def)
  moreover have "unat used < 2 ^ 64" using unsigned_less [of used] by simp
  moreover have "(of_nat n :: u64) \<le> used \<longleftrightarrow> n \<le> unat used" if "n < 2 ^ 64" for n
    using that by (simp add: word_le_nat_alt unsigned_of_nat take_bit_nat_eq_self)
  ultimately show ?thesis using True by (auto simp: decimal_bytes_def)
next
  case False
  then show ?thesis by (auto simp: decimal_bytes_def)
qed

lemma rule_matches_reached:
  "rule_matches used quota r \<longleftrightarrow>
     threshold_reached (real (unat used)) (map_option (\<lambda>q. real (unat q)) quota) (tr_threshold r)"
proof (cases "tr_threshold r")
  case (QuotaPercent bp)
  have "unat q * unat bp \<le> unat used * 10000 \<longleftrightarrow> real (unat q) * (real (unat bp) / 100) / 100 \<le> real (unat used)" for q :: u64
  proof -
    have "unat q * unat bp \<le> unat used * 10000 \<longleftrightarrow> real (unat q * unat bp) \<le> real (unat used * 10000)"
      by (simp only: of_nat_le_iff)
    then show ?thesis by (simp add: field_simps)
  qed
  with QuotaPercent show ?thesis
    by (cases quota) (simp_all add: rule_matches_def threshold_reached_def)
next
  case (Absolute b)
  moreover have "real (digits_val b) \<le> real (unat used) \<longleftrightarrow> digits_val b \<le> unat used" by (simp only: of_nat_le_iff)
  ultimately show ?thesis using absolute_reached [where b = b and used = used] by (simp add: rule_matches_def threshold_reached_def)
qed

text \<open>C30: the rate in force is the smallest rate among the rules whose threshold the usage has reached (a percentage of the quota, which needs a quota, or a decimal number of bytes, neither rounded), and there is no rate when the policy is off or no rule is reached. More usage never relaxes the limit: once a rate applies, a rate applies at every higher usage and it is no higher.\<close>

theorem policy_rate_strictest:
  "policy_rate p used quota =
     (let hits = {r \<in> set (pol_rules p). threshold_reached (real (unat used)) (map_option (\<lambda>q. real (unat q)) quota) (tr_threshold r)}
      in if pol_enabled p \<and> hits \<noteq> {} then Some (Min (tr_rate_bps ` hits)) else None) \<and>
   (\<forall>used' rate. used \<le> used' \<and> policy_rate p used quota = Some rate \<longrightarrow>
      (\<exists>rate'. policy_rate p used' quota = Some rate' \<and> rate' \<le> rate))"
  using policy_rate_Min [of p used quota] policy_rate_antitone [of used _ p quota] unfolding rule_matches_reached by blast

definition sample_policy :: traffic_limit_policy where
  "sample_policy = \<lparr>pol_layer = Both, pol_enabled = True,
     pol_rules = [\<lparr>tr_threshold = QuotaPercent 5000, tr_rate_bps = 2000\<rparr>,
                  \<lparr>tr_threshold = Absolute ''90'', tr_rate_bps = 1000\<rparr>]\<rparr>"

theorem policy_rate_strictest_witness:
  "policy_rate sample_policy 50 (Some 100) = Some 2000 \<and>
   (\<exists>rate'. policy_rate sample_policy 95 (Some 100) = Some rate' \<and> rate' \<le> 2000)"
proof -
  have now: "policy_rate sample_policy 50 (Some 100) = Some 2000"
    by (simp add: sample_policy_def policy_rate_def rule_matches_def decimal_bytes_def parse_unsigned_def is_ascii_digit_def
        digits_val_def digit_val_def)
  moreover have "(50 :: u64) \<le> 95" by simp
  ultimately show ?thesis using policy_rate_strictest [of sample_policy 50 "Some 100"] by blast
qed

definition boundary_less :: "traffic_day_boundary \<Rightarrow> traffic_day_boundary \<Rightarrow> bool" where
  "boundary_less a b \<longleftrightarrow> tb_day_start_unix_secs a < tb_day_start_unix_secs b \<and>
     tb_rx_bytes a \<le> tb_rx_bytes b \<and> tb_tx_bytes a \<le> tb_tx_bytes b"

definition boundary_ok :: "int option \<Rightarrow> u64 \<Rightarrow> u64 \<Rightarrow> traffic_day_boundary \<Rightarrow> bool" where
  "boundary_ok sampled_at rx tx b \<longleftrightarrow>
     0 < tb_day_start_unix_secs b \<and> 86400 dvd tb_day_start_unix_secs b \<and>
     (\<exists>t. sampled_at = Some t \<and> tb_day_start_unix_secs b \<le> t) \<and>
     tb_rx_bytes b \<le> rx \<and> tb_tx_bytes b \<le> tx"

lemma boundary_less_trans: "boundary_less a b \<Longrightarrow> boundary_less b c \<Longrightarrow> boundary_less a c"
  by (auto simp: boundary_less_def)

lemma check_boundaries_iff:
  "check_boundaries prev sampled rx tx bs = Inr () \<longleftrightarrow>
     (\<forall>b \<in> set bs. boundary_ok sampled rx tx b) \<and>
     sorted_wrt boundary_less ((case prev of None \<Rightarrow> [] | Some p \<Rightarrow> [p]) @ bs)"
proof (induction bs arbitrary: prev)
  case (Cons b bs)
  have ok: "boundary_ok sampled rx tx b \<longleftrightarrow> \<not> (tb_day_start_unix_secs b \<le> 0
         \<or> tb_day_start_unix_secs b smod 86400 \<noteq> 0
         \<or> (case sampled of None \<Rightarrow> True | Some t \<Rightarrow> tb_day_start_unix_secs b > t)
         \<or> tb_rx_bytes b > rx \<or> tb_tx_bytes b > tx)"
    by (auto simp: boundary_ok_def smod_zero_iff split: option.splits)
  have le: "(case prev of None \<Rightarrow> False | Some old \<Rightarrow>
                tb_day_start_unix_secs old \<ge> tb_day_start_unix_secs b
                \<or> tb_rx_bytes old > tb_rx_bytes b \<or> tb_tx_bytes old > tb_tx_bytes b)
      \<longleftrightarrow> \<not> (\<forall>old. prev = Some old \<longrightarrow> boundary_less old b)"
    by (auto simp: boundary_less_def split: option.splits)
  have step: "check_boundaries prev sampled rx tx (b # bs) = Inr () \<longleftrightarrow>
    boundary_ok sampled rx tx b \<and> (\<forall>old. prev = Some old \<longrightarrow> boundary_less old b) \<and>
    check_boundaries (Some b) sampled rx tx bs = Inr ()"
    unfolding check_boundaries.simps(2) ok using le by auto
  show ?case
    unfolding step Cons.IH by (cases prev) (auto intro: boundary_less_trans)
qed (simp split: option.split)

text \<open>Durable day boundaries are accepted exactly when there are at most 400, each is a positive whole day no later than the sample with counters no larger than the totals, and they ascend strictly in time with counters that never go down, every pair and not only neighbours.\<close>

theorem validate_day_boundaries_iff:
  "validate_day_boundaries bs sampled rx tx = Inr () \<longleftrightarrow>
     length bs \<le> 400 \<and> (\<forall>b \<in> set bs. boundary_ok sampled rx tx b) \<and> sorted_wrt boundary_less bs"
  by (auto simp: validate_day_boundaries_def check_boundaries_iff max_traffic_day_boundaries_def)


theorem validate_day_boundaries_iff_witness:
  "validate_day_boundaries [\<lparr>tb_day_start_unix_secs = 86400, tb_rx_bytes = 1, tb_tx_bytes = 2\<rparr>,
      \<lparr>tb_day_start_unix_secs = 172800, tb_rx_bytes = 1, tb_tx_bytes = 5\<rparr>] (Some 200000) 3 9 = Inr ()"
  by (rule iffD2 [OF validate_day_boundaries_iff]) (auto simp: boundary_ok_def boundary_less_def)

theorem policy_validate_iff_witness:
  "policy_validate \<lparr>pol_layer = Both, pol_enabled = True,
     pol_rules = [\<lparr>tr_threshold = QuotaPercent 5000, tr_rate_bps = 2000\<rparr>]\<rparr> (Some 100) = Inr ()"
  by (rule iffD2 [OF policy_validate_iff]) (auto simp: rule_ok_def max_traffic_rate_bps_def)

end
