(* ===== verification/Traffic_Period.thy ===== *)
theory Traffic_Period
  imports Traffic_Limit
begin

text \<open>
  The calendar of \<open>traffic_limit.rs\<close>: \<open>days_from_civil\<close> and \<open>civil_from_days\<close> are inverse to
  each other on the proleptic Gregorian calendar, and \<open>period\<close> cuts the time line into
  consecutive billing periods. A day number is read as a year that begins in March
  (\<open>ycum\<close> days before it) and a month of that year (\<open>mcum\<close> days before it), the way the
  code computes it.
\<close>

section \<open>The March-based year\<close>

definition ycum :: "int \<Rightarrow> int" where
  "ycum y = 365 * y + y div 4 - y div 100 + y div 400"

definition mcum :: "int \<Rightarrow> int" where
  "mcum mp = (153 * mp + 2) div 5"

definition march_year :: "int \<Rightarrow> int \<Rightarrow> int" where
  "march_year y m = y - (if m \<le> 2 then 1 else 0)"

definition march_month :: "int \<Rightarrow> int" where
  "march_month m = m + (if m > 2 then -3 else 9)"

lemma ycum_era:
  assumes "0 \<le> yoe" and "yoe < 400"
  shows "ycum (yoe + 400 * era) = era * 146097 + yoe * 365 + yoe div 4 - yoe div 100"
proof -
  have "(yoe + 400 * era) div 4 = yoe div 4 + 100 * era" by simp
  moreover have "(yoe + 400 * era) div 100 = yoe div 100 + 4 * era" by simp
  moreover have "(yoe + 400 * era) div 400 = era" using assms by simp
  ultimately show ?thesis by (simp add: ycum_def)
qed

lemma days_from_civil_eq:
  assumes "1 \<le> m"
  shows "days_from_civil y m d = ycum (march_year y m) + mcum (march_month m) + d - 1 - 719468"
proof -
  let ?y = "march_year y m" let ?yoe = "?y - ?y div 400 * 400"
  have yoe: "0 \<le> ?yoe" "?yoe < 400" by (simp_all add: minus_div_mult_eq_mod)
  have "ycum ?y = ?y div 400 * 146097 + ?yoe * 365 + ?yoe div 4 - ?yoe div 100"
    using ycum_era [OF yoe, of "?y div 400"] by (simp add: algebra_simps)
  then show ?thesis
    using assms yoe
    by (simp add: days_from_civil_def Let_def march_year_def march_month_def mcum_def sdiv_nonneg)
qed

lemma yoe_decompose:
  fixes doe :: int
  assumes "0 \<le> doe" and "doe < 146097"
  obtains c q s d where "doe = 36524 * c + 1461 * q + 365 * s + d"
    and "0 \<le> c" "c \<le> 3" "0 \<le> q" "q \<le> 24" "0 \<le> s" "s \<le> 3" "0 \<le> d" "d \<le> 365"
    and "d = 365 \<Longrightarrow> s = 3 \<and> (q < 24 \<or> c = 3)"
proof -
  define c where "c = min 3 (doe div 36524)"
  define r where "r = doe - 36524 * c"
  define q where "q = min 24 (r div 1461)"
  define t where "t = r - 1461 * q"
  define s where "s = min 3 (t div 365)"
  define d where "d = t - 365 * s"
  have c: "0 \<le> c" "c \<le> 3" and r: "0 \<le> r" "r \<le> 36524" "c < 3 \<Longrightarrow> r < 36524"
    using assms unfolding c_def r_def by (auto simp: min_def)
  have q: "0 \<le> q" "q \<le> 24" and t: "0 \<le> t" "t \<le> 1460" "q = 24 \<Longrightarrow> c < 3 \<Longrightarrow> t < 1460"
    using r unfolding q_def t_def by (auto simp: min_def)
  have s: "0 \<le> s" "s \<le> 3" using t unfolding s_def by (auto simp: min_def)
  have d: "0 \<le> d" "d \<le> 365" using t unfolding s_def d_def by (auto simp: min_def)
  have "s < 3 \<Longrightarrow> d < 365" using t(1) unfolding s_def d_def by (auto simp: min_def)
  with s d have d3: "d = 365 \<Longrightarrow> s = 3" by fastforce
  have "d = 365 \<Longrightarrow> q < 24 \<or> c = 3"
    using t(3) d3 c(2) q(2) unfolding d_def by (cases "q = 24"; cases "c = 3") auto
  moreover have "doe = 36524 * c + 1461 * q + 365 * s + d"
    by (simp add: d_def t_def r_def)
  ultimately show thesis using that c q s d d3 by blast
qed

lemma yoe_of_doe:
  fixes c q s d :: int
  assumes doe: "doe = 36524 * c + 1461 * q + 365 * s + d"
    and b: "0 \<le> c" "c \<le> 3" "0 \<le> q" "q \<le> 24" "0 \<le> s" "s \<le> 3" "0 \<le> d" "d \<le> 365"
    and leap: "d = 365 \<Longrightarrow> s = 3 \<and> (q < 24 \<or> c = 3)"
  shows "(doe - doe div 1460 + doe div 36524 - doe div 146096) div 365 = 100 * c + 4 * q + s"
proof (cases "q = 24 \<and> s = 3 \<and> d = 365")
  case True
  with leap have "doe = 146096" and "100 * c + 4 * q + s = 399" by (auto simp: doe)
  then show ?thesis by simp
next
  case False
  define e where "e = (24 * c + q + 365 * s + d) div 1460"
  have small: "1461 * q + 365 * s + d < 36524" using False b leap by (cases "d = 365"; cases "q = 24") auto
  have "doe = 1460 * (25 * c + q) + (24 * c + q + 365 * s + d)" by (simp add: doe)
  then have A: "doe div 1460 = 25 * c + q + e" by (simp add: e_def)
  have "doe = 36524 * c + (1461 * q + 365 * s + d)" by (simp add: doe)
  then have B: "doe div 36524 = c" using small b by simp
  have C: "doe div 146096 = 0" using small b by (simp add: doe)
  have e: "0 \<le> e" "e \<le> 1" "d = 0 \<Longrightarrow> e = 0" "d = 365 \<Longrightarrow> e = 1"
    using b leap unfolding e_def by auto
  have "doe - doe div 1460 + doe div 36524 - doe div 146096
    = 365 * (100 * c + 4 * q + s) + (d - e)"
    by (simp add: A B C) (simp add: doe)
  moreover have "0 \<le> d - e" "d - e \<le> 364" using b e by (cases "d = 0"; cases "d = 365"; auto)+
  ultimately show ?thesis by simp
qed

text \<open>Every day number lies in exactly one March-based year.\<close>

lemma civil_year:
  fixes z :: int
  defines "era \<equiv> z div 146097"
  defines "doe \<equiv> z - era * 146097"
  defines "yoe \<equiv> (doe - doe sdiv 1460 + doe sdiv 36524 - doe sdiv 146096) sdiv 365"
  shows "0 \<le> yoe" and "yoe < 400"
    and "ycum (yoe + era * 400) \<le> z" and "z < ycum (yoe + era * 400 + 1)"
    and "doe - (365 * yoe + yoe sdiv 4 - yoe sdiv 100) = z - ycum (yoe + era * 400)"
proof -
  have doe: "0 \<le> doe" "doe < 146097" unfolding doe_def era_def by (simp_all add: minus_div_mult_eq_mod)
  obtain c q s d where dec: "doe = 36524 * c + 1461 * q + 365 * s + d"
    and b: "0 \<le> c" "c \<le> 3" "0 \<le> q" "q \<le> 24" "0 \<le> s" "s \<le> 3" "0 \<le> d" "d \<le> 365"
    and leap: "d = 365 \<Longrightarrow> s = 3 \<and> (q < 24 \<or> c = 3)"
    using yoe_decompose [OF doe] by blast
  have nn: "0 \<le> doe - doe div 1460 + doe div 36524 - doe div 146096"
  proof -
    have "doe div 1460 \<le> doe" "doe div 146096 \<le> doe div 36524" using doe by auto
    then show ?thesis by simp
  qed
  have yoe: "yoe = 100 * c + 4 * q + s"
    using yoe_of_doe [OF dec b leap] nn doe by (simp add: yoe_def sdiv_nonneg)
  show y0: "0 \<le> yoe" and y4: "yoe < 400" using b by (simp_all add: yoe)
  have d4: "yoe div 4 = 25 * c + q" and d100: "yoe div 100 = c" using b by (simp_all add: yoe)
  have start: "ycum (yoe + era * 400) = era * 146097 + 36524 * c + 1461 * q + 365 * s"
    using ycum_era [OF y0 y4, of era] by (simp add: d4 d100 algebra_simps) (simp add: yoe)
  have z: "z = era * 146097 + doe" by (simp add: doe_def)
  show "ycum (yoe + era * 400) \<le> z" using b by (simp add: start z dec)
  show "doe - (365 * yoe + yoe sdiv 4 - yoe sdiv 100) = z - ycum (yoe + era * 400)"
    using y0 by (simp add: sdiv_nonneg d4 d100 start z) (simp add: yoe)
  have q4: "(yoe + 1) div 4 = 25 * c + q + (if s = 3 then 1 else 0)"
    and q100: "(yoe + 1) div 100 = c + (if s = 3 \<and> q = 24 then 1 else 0)"
    and q400: "(yoe + 1) div 400 = (if s = 3 \<and> q = 24 \<and> c = 3 then 1 else 0)"
    using b by (auto simp: yoe)
  have "ycum (yoe + era * 400 + 1) = 365 * (yoe + era * 400 + 1) + ((yoe + 1) div 4 + 100 * era)
      - ((yoe + 1) div 100 + 4 * era) + ((yoe + 1) div 400 + era)"
  proof -
    have "yoe + era * 400 + 1 = (yoe + 1) + (100 * era) * 4"
      "yoe + era * 400 + 1 = (yoe + 1) + (4 * era) * 100"
      "yoe + era * 400 + 1 = (yoe + 1) + era * 400" by simp_all
    then have "(yoe + era * 400 + 1) div 4 = 100 * era + (yoe + 1) div 4"
      "(yoe + era * 400 + 1) div 100 = 4 * era + (yoe + 1) div 100"
      "(yoe + era * 400 + 1) div 400 = era + (yoe + 1) div 400"
      by (metis div_mult_self1 zero_neq_numeral)+
    then show ?thesis by (simp add: ycum_def)
  qed
  also have "\<dots> = era * 146097 + 36524 * c + 1461 * q + 365 * s + 365 +
     (if s = 3 \<and> (q < 24 \<or> c = 3) then 1 else 0)"
    using b unfolding q4 q100 q400 by (auto simp: yoe)
  finally show "z < ycum (yoe + era * 400 + 1)"
    using b leap by (cases "d = 365") (auto simp: z dec)
qed

text \<open>The month arithmetic inside a March-based year.\<close>

lemma month_of_doy:
  fixes doy :: int
  assumes "0 \<le> doy" and "doy \<le> 365"
  defines "mp \<equiv> (5 * doy + 2) div 153"
  shows "0 \<le> mp" and "mp \<le> 11" and "mcum mp \<le> doy" and "doy < mcum (mp + 1)"
  using assms by (auto simp: mcum_def)

lemma mcum_values:
  "mcum 0 = 0" "mcum 1 = 31" "mcum 2 = 61" "mcum 3 = 92" "mcum 4 = 122" "mcum 5 = 153"
  "mcum 6 = 184" "mcum 7 = 214" "mcum 8 = 245" "mcum 9 = 275" "mcum 10 = 306" "mcum 11 = 337"
  by (simp_all add: mcum_def)

definition is_leap :: "int \<Rightarrow> bool" where
  "is_leap y \<longleftrightarrow> 4 dvd y \<and> (\<not> 100 dvd y \<or> 400 dvd y)"

definition month_len :: "int \<Rightarrow> int \<Rightarrow> int" where
  "month_len y m =
     (if m = 2 then (if is_leap y then 29 else 28) else if m \<in> {4, 6, 9, 11} then 30 else 31)"

lemma div_step:
  fixes y k :: int
  assumes "0 < k"
  shows "(y + 1) div k = y div k + (if k dvd y + 1 then 1 else 0)"
proof -
  let ?r = "y mod k"
  have r: "0 \<le> ?r" "?r < k" using assms by simp_all
  have y: "y + 1 = (?r + 1) + (y div k) * k" using mult_div_mod_eq [of k y] by (simp add: mult.commute)
  have "(y + 1) div k = y div k + (?r + 1) div k"
    using assms by (subst y) (simp only: div_mult_self1)
  moreover have "k dvd y + 1 \<longleftrightarrow> k dvd ?r + 1" by (subst y) (rule dvd_add_times_triv_right_iff)
  moreover have "(?r + 1) div k = (if k dvd ?r + 1 then 1 else 0)"
  proof (cases "?r + 1 = k")
    case False
    with r have "?r + 1 < k" by simp
    with r show ?thesis by (auto dest: zdvd_imp_le)
  qed (use assms in simp)
  ultimately show ?thesis by simp
qed

lemma ycum_step: "ycum (y + 1) = ycum y + 365 + (if is_leap (y + 1) then 1 else 0)"
proof -
  have "100 dvd y + 1 \<Longrightarrow> 4 dvd y + 1" and "400 dvd y + 1 \<Longrightarrow> 100 dvd y + 1"
    using dvd_trans [of 4 100 "y + 1"] dvd_trans [of 100 400 "y + 1"] by simp_all
  moreover define a b c where "a \<longleftrightarrow> 4 dvd y + 1" and "b \<longleftrightarrow> 100 dvd y + 1" and "c \<longleftrightarrow> 400 dvd y + 1"
  ultimately have cs: "a \<and> b \<and> c \<or> a \<and> b \<and> \<not> c \<or> a \<and> \<not> b \<and> \<not> c \<or> \<not> a \<and> \<not> b \<and> \<not> c" by blast
  have d: "(y + 1) div 4 = y div 4 + (if a then 1 else 0)"
    "(y + 1) div 100 = y div 100 + (if b then 1 else 0)"
    "(y + 1) div 400 = y div 400 + (if c then 1 else 0)"
    unfolding a_def b_def c_def by (rule div_step; simp)+
  have l: "is_leap (y + 1) \<longleftrightarrow> a \<and> (\<not> b \<or> c)"
    unfolding is_leap_def a_def b_def c_def ..
  from cs show ?thesis
    unfolding ycum_def l d by (elim disjE conjE) simp_all
qed

text \<open>A civil date is valid when its month and day exist in the proleptic Gregorian calendar.\<close>

definition valid_date :: "int \<Rightarrow> int \<Rightarrow> int \<Rightarrow> bool" where
  "valid_date y m d \<longleftrightarrow> 1 \<le> m \<and> m \<le> 12 \<and> 1 \<le> d \<and> d \<le> month_len y m"

definition first_of :: "int \<Rightarrow> int \<Rightarrow> int" where
  "first_of y m = days_from_civil y m 1"

lemma days_from_first: "1 \<le> m \<Longrightarrow> days_from_civil y m d = first_of y m + d - 1"
  by (simp add: first_of_def days_from_civil_eq)

lemma month_cases:
  assumes "1 \<le> m" and "m \<le> (12::int)"
  shows "m = 1 \<or> m = 2 \<or> m = 3 \<or> m = 4 \<or> m = 5 \<or> m = 6 \<or> m = 7 \<or> m = 8 \<or> m = 9 \<or>
    m = 10 \<or> m = 11 \<or> m = 12"
  using assms by arith

text \<open>The first of the next month is one month length later.\<close>

lemma first_of_next:
  assumes "1 \<le> m" and "m \<le> 12"
  shows "first_of (fst (next_month y m Monthly)) (snd (next_month y m Monthly))
       = first_of y m + month_len y m"
  using month_cases [OF assms] ycum_step [of "y - 1"]
  by (elim disjE)
    (simp_all add: first_of_def days_from_civil_eq next_month_def march_year_def march_month_def
      mcum_values month_len_def)

lemma first_of_next_year:
  assumes "1 \<le> m" and "m \<le> 12"
  shows "first_of (y + 1) m = first_of y m + 365 +
    (if is_leap (if m \<le> 2 then y else y + 1) then 1 else 0)"
  using month_cases [OF assms] ycum_step [of y] ycum_step [of "y - 1"]
  by (elim disjE)
    (simp_all add: first_of_def days_from_civil_eq march_year_def march_month_def mcum_values)

lemma month_len_bounds: "28 \<le> month_len y m" "month_len y m \<le> 31"
  by (auto simp: month_len_def)

lemma civil_from_days_valid:
  assumes "civil_from_days n = (y, m, d)"
  shows "valid_date y m d \<and> days_from_civil y m d = n"
proof -
  let ?z = "n + 719468"
  define era where "era = ?z div 146097"
  define doe where "doe = ?z - era * 146097"
  define yoe where "yoe = (doe - doe sdiv 1460 + doe sdiv 36524 - doe sdiv 146096) sdiv 365"
  define doy where "doy = doe - (365 * yoe + yoe sdiv 4 - yoe sdiv 100)"
  define Y where "Y = yoe + era * 400"
  define mp where "mp = (5 * doy + 2) div 153"
  note year = civil_year [of ?z, folded era_def, folded doe_def, folded yoe_def, folded Y_def]
  have doy: "doy = ?z - ycum Y" using year(5) by (simp add: doy_def Y_def)
  have doy0: "0 \<le> doy" and doy1: "doy \<le> 365 + (if is_leap (Y + 1) then 0 else -1)"
    using year(3,4) ycum_step [of Y] by (auto simp: doy)
  have doy365: "doy \<le> 365" using doy1 by (simp split: if_splits)
  note mp = month_of_doy [OF doy0 doy365, folded mp_def]
  have mp_sdiv: "(5 * doy + 2) sdiv 153 = mp" and mcum_sdiv: "(153 * mp + 2) sdiv 5 = mcum mp"
    using doy0 mp(1) by (simp_all add: mp_def mcum_def sdiv_nonneg)
  have "civil_from_days n =
    (let mp = (5 * doy + 2) sdiv 153; day = doy - (153 * mp + 2) sdiv 5 + 1;
         month = mp + (if mp < 10 then 3 else - 9)
     in (Y + (if month \<le> 2 then 1 else 0), month, day))"
    unfolding civil_from_days_def Let_def era_def doe_def yoe_def doy_def Y_def by (rule refl)
  then have eqs: "(let month = mp + (if mp < 10 then 3 else - 9)
     in (Y + (if month \<le> 2 then 1 else 0), month, doy - mcum mp + 1)) = (y, m, d)"
    unfolding Let_def mp_sdiv mcum_sdiv assms by (rule sym)
  then have m: "m = mp + (if mp < 10 then 3 else - 9)" and d: "d = doy - mcum mp + 1"
    unfolding Let_def prod.inject by blast+
  from eqs have "Y + (if mp + (if mp < 10 then 3 else - 9) \<le> 2 then 1 else 0) = y"
    unfolding Let_def prod.inject by blast
  then have y: "y = Y + (if m \<le> 2 then 1 else 0)"
    by (subst m) (rule sym)
  have m12: "1 \<le> m" "m \<le> 12" using mp by (auto simp: m)
  have mm: "march_month m = mp" and my: "march_year y m = Y"
    using mp by (auto simp: march_month_def march_year_def m y)
  have days: "days_from_civil y m d = n"
    using m12 by (simp add: days_from_civil_eq mm my d doy)
  have "mp = 0 \<or> mp = 1 \<or> mp = 2 \<or> mp = 3 \<or> mp = 4 \<or> mp = 5 \<or> mp = 6 \<or> mp = 7 \<or> mp = 8 \<or> mp = 9 \<or> mp = 10 \<or> mp = 11"
    using mp(1,2) by arith
  then have "d \<le> month_len y m"
    using mp(3,4) doy1
    by (elim disjE) (auto simp: month_len_def m d y mcum_values mcum_def split: if_splits)
  with m12 mp(3) days show ?thesis by (simp add: valid_date_def d)
qed


lemma ycum_mono: "y \<le> y' \<Longrightarrow> ycum y \<le> ycum y'"
proof -
  have "ycum y \<le> ycum (y + int n)" for n
  proof (induction n)
    case (Suc n)
    then show ?case using ycum_step [of "y + int n"] by (simp add: ac_simps)
  qed simp
  from this [of "nat (y' - y)"] show "y \<le> y' \<Longrightarrow> ?thesis" by simp
qed

lemma first_of_in_year:
  assumes "1 \<le> m" and "m \<le> 12"
  shows "first_of y 1 \<le> first_of y m" and "first_of y m + month_len y m \<le> first_of (y + 1) 1"
  using month_cases [OF assms] ycum_step [of "y - 1"]
  by (safe; simp add: first_of_def days_from_civil_eq march_year_def march_month_def mcum_values
      month_len_def)+

lemma first_of_year_mono: "y \<le> y' \<Longrightarrow> first_of y 1 \<le> first_of y' 1"
  using ycum_mono [of "y - 1" "y' - 1"]
  by (simp add: first_of_def days_from_civil_eq march_year_def march_month_def)

lemma first_of_less:
  assumes "1 \<le> m" and "m < m'" and "m' \<le> 12"
  shows "first_of y m + month_len y m \<le> first_of y m'"
proof -
  have "first_of y m + month_len y m \<le> first_of y (m + 1 + int n)" if "m + 1 + int n \<le> 12" for n
    using that
  proof (induction n)
    case 0
    then show ?case using first_of_next [of m y] assms(1) by (simp add: next_month_def)
  next
    case (Suc n)
    with first_of_next [of "m + 1 + int n" y] month_len_bounds [of y "m + 1 + int n"] assms(1)
    show ?case by (simp add: next_month_def ac_simps)
  qed
  from this [of "nat (m' - m - 1)"] assms show ?thesis by simp
qed

lemma civil_unique:
  assumes "valid_date y m d" and "valid_date y' m' d'"
    and "days_from_civil y m d = days_from_civil y' m' d'"
  shows "(y, m, d) = (y', m', d')"
proof -
  have less: False if v: "valid_date a b c" "valid_date a' b' c'"
      and e: "days_from_civil a b c = days_from_civil a' b' c'"
      and l: "a < a' \<or> a = a' \<and> b < b'" for a b c a' b' c'
  proof -
    have b: "1 \<le> b" "b \<le> 12" "1 \<le> b'" "b' \<le> 12" "1 \<le> c'" "c \<le> month_len a b"
      using v by (simp_all add: valid_date_def)
    have "first_of a b + month_len a b \<le> first_of a' b'"
      using l
    proof
      assume "a < a'"
      then have "first_of (a + 1) 1 \<le> first_of a' 1" by (simp add: first_of_year_mono)
      with first_of_in_year [of b a] first_of_in_year [of b' a'] b show ?thesis by simp
    qed (use first_of_less b in auto)
    with e b show False by (simp add: days_from_first)
  qed
  from less [OF assms] less [OF assms(2,1) assms(3) [symmetric]]
  have "y = y'" "m = m'" by fastforce+
  with assms show ?thesis by (simp add: valid_date_def days_from_first)
qed

lemma civil_roundtrip:
  assumes "valid_date y m d"
  shows "civil_from_days (days_from_civil y m d) = (y, m, d)"
  by (metis assms civil_from_days_valid civil_unique prod_cases3)

text \<open>The reset instants.\<close>

lemma reset_at_eq:
  assumes "1 \<le> m"
  shows "reset_at y m rd = (first_of y m + min (int rd) (month_len y m) - 1) * 86400"
proof -
  have "(if m = 2 \<and> y smod 4 = 0 \<and> (y smod 100 \<noteq> 0 \<or> y smod 400 = 0) then 29
         else if m = 2 then 28 else if m \<in> {4, 6, 9, 11} then 30 else 31) = month_len y m"
    by (auto simp: month_len_def is_leap_def smod_zero_iff)
  then show ?thesis
    unfolding reset_at_def Let_def using assms by (simp only: days_from_first)
qed

definition valid_anchor :: "traffic_limit_desired \<Rightarrow> bool" where
  "valid_anchor d \<longleftrightarrow> 1 \<le> td_reset_day d \<and> td_reset_day d \<le> 31 \<and>
     (case td_cycle_kind d of
        Monthly \<Rightarrow> td_reset_month d = None
      | Yearly \<Rightarrow> (\<exists>m. td_reset_month d = Some m \<and> 1 \<le> m \<and> m \<le> 12))"

lemma desired_validate_anchor: "desired_validate d = Inr () \<Longrightarrow> valid_anchor d"
  by (auto simp: desired_validate_def valid_anchor_def
      split: sum.splits if_splits node_traffic_cycle_kind.splits option.splits)

text \<open>The year and month whose reset opens the period that holds \<open>now\<close>.\<close>

definition period_start :: "traffic_limit_desired \<Rightarrow> int \<Rightarrow> int \<times> int" where
  "period_start d now =
     (case civil_from_days (now div 86400) of (y, m, _) \<Rightarrow>
        let a = (case td_reset_month d of Some m \<Rightarrow> int m | None \<Rightarrow> m)
        in if now \<ge> reset_at y a (td_reset_day d) then (y, a)
           else previous_month y a (td_cycle_kind d))"

lemma period_eq:
  "period d now =
     (let (y, m) = period_start d now; (y', m') = next_month y m (td_cycle_kind d)
      in (reset_at y m (td_reset_day d), reset_at y' m' (td_reset_day d)))"
  by (simp add: period_def period_start_def Let_def split: prod.splits)

lemma now_in_month:
  assumes "civil_from_days (now div 86400) = (y, m, d)"
  shows "1 \<le> m" and "m \<le> 12" and "first_of y m * 86400 \<le> now"
    and "now < (first_of y m + month_len y m) * 86400"
proof -
  have v: "1 \<le> m" "m \<le> 12" "1 \<le> d" "d \<le> month_len y m" and n: "first_of y m + d - 1 = now div 86400"
    using civil_from_days_valid [OF assms] by (auto simp: valid_date_def days_from_first)
  have now: "now div 86400 * 86400 \<le> now" "now < (now div 86400 + 1) * 86400"
    by presburger+
  show "1 \<le> m" "m \<le> 12" by fact+
  show "first_of y m * 86400 \<le> now" using now(1) v by (simp flip: n)
  show "now < (first_of y m + month_len y m) * 86400" using now(2) v by (simp flip: n)
qed


text \<open>The opening reset is at or before \<open>now\<close>, and its month and year are well formed.\<close>

lemma reset_at_bounds:
  assumes "1 \<le> m" and "m \<le> 12" and "1 \<le> rd"
  shows "first_of y m * 86400 \<le> reset_at y m rd"
    and "reset_at y m rd < (first_of y m + month_len y m) * 86400"
  using assms month_len_bounds [of y m] by (simp_all add: reset_at_eq)

lemma previous_next:
  assumes "1 \<le> m" and "m \<le> 12"
  shows "(case previous_month y m k of (a, b) \<Rightarrow> next_month a b k) = (y, m)"
  using assms by (cases k) (auto simp: next_month_def)

lemma month_range:
  assumes "1 \<le> m" and "m \<le> 12"
  shows "1 \<le> snd (previous_month y m k)" and "snd (previous_month y m k) \<le> 12"
    and "1 \<le> snd (next_month y m k)" and "snd (next_month y m k) \<le> 12"
  using assms by (cases k; auto simp: next_month_def)+

lemma previous_before:
  assumes "1 \<le> m" and "m \<le> 12"
  shows "case previous_month y m k of (a, b) \<Rightarrow>
    first_of a b + month_len a b \<le> (if k = Monthly then first_of y m else first_of y 1)"
  using assms first_of_next [of "snd (previous_month y m k)" "fst (previous_month y m k)"]
    first_of_in_year [of m "y - 1"]
  by (cases k) (auto simp: next_month_def split: if_splits)

lemma next_after:
  assumes "1 \<le> m" and "m \<le> 12"
  shows "case next_month y m k of (a, b) \<Rightarrow>
    first_of a b \<ge> (if k = Monthly then first_of y m + month_len y m else first_of (y + 1) 1)"
  using assms first_of_next [of m y] first_of_in_year [of m "y + 1"]
  by (cases k) (auto simp: next_month_def split: if_splits)

lemma period_start_sound:
  assumes v: "valid_anchor d" and s: "period_start d now = (y, m)"
  shows "1 \<le> m" and "m \<le> 12" and "reset_at y m (td_reset_day d) \<le> now"
    and "now < (case next_month y m (td_cycle_kind d) of (y', m') \<Rightarrow> reset_at y' m' (td_reset_day d))"
proof -
  let ?k = "td_cycle_kind d" let ?rd = "td_reset_day d"
  obtain cy cm cd where c: "civil_from_days (now div 86400) = (cy, cm, cd)" by (cases "civil_from_days (now div 86400)")
  note month = now_in_month [OF c]
  define a where "a = (case td_reset_month d of Some m \<Rightarrow> int m | None \<Rightarrow> cm)"
  have a: "1 \<le> a" "a \<le> 12" and am: "?k = Monthly \<Longrightarrow> a = cm"
    using v month(1,2)
    by (auto simp: a_def valid_anchor_def split: node_traffic_cycle_kind.splits option.splits)
  have rd: "1 \<le> ?rd" using v by (simp add: valid_anchor_def)
  have start: "(y, m) = (if now \<ge> reset_at cy a ?rd then (cy, a) else previous_month cy a ?k)"
    using s c unfolding period_start_def a_def by (simp only: Let_def prod.case)
  have low: "(if ?k = Monthly then first_of cy a else first_of cy 1) * 86400 \<le> now"
    using month(3) first_of_in_year(1) [OF month(1,2), of cy] am by (auto split: if_splits)
  have up: "now < (if ?k = Monthly then first_of cy a + month_len cy a else first_of (cy + 1) 1) * 86400"
    using month(4) first_of_in_year(2) [OF month(1,2), of cy] am by (auto split: if_splits)
  have "1 \<le> m \<and> m \<le> 12 \<and> reset_at y m ?rd \<le> now \<and>
    now < (case next_month y m ?k of (y', m') \<Rightarrow> reset_at y' m' ?rd)"
  proof (cases "now \<ge> reset_at cy a ?rd")
    case True
    then have ym: "y = cy" "m = a" using start by simp_all
    obtain y' m' where n: "next_month cy a ?k = (y', m')" by fastforce
    have "first_of y' m' * 86400 \<le> reset_at y' m' ?rd"
      using reset_at_bounds(1) [of m' ?rd y'] month_range(3,4) [OF a, of cy ?k] n rd by simp
    with next_after [OF a, where y = cy and k = ?k] n up True ym a show ?thesis by (auto split: if_splits)
  next
    case False
    then have ym: "previous_month cy a ?k = (y, m)" using start by simp
    have m: "1 \<le> m" "m \<le> 12" using month_range(1,2) [OF a, of cy ?k] ym by simp_all
    have "reset_at y m ?rd < (first_of y m + month_len y m) * 86400" by (rule reset_at_bounds(2) [OF m rd])
    also have "\<dots> \<le> now" using previous_before [OF a, where y = cy and k = ?k] ym low by (auto split: if_splits)
    finally show ?thesis using previous_next [OF a, where y = cy and k = ?k] ym m False by simp
  qed
  then show "1 \<le> m" and "m \<le> 12" and "reset_at y m ?rd \<le> now"
    and "now < (case next_month y m ?k of (y', m') \<Rightarrow> reset_at y' m' ?rd)" by blast+
qed

text \<open>For validated settings and any instant, the billing period computed around it contains it: it starts at or before it and ends after it.\<close>

theorem period_contains_now:
  assumes "desired_validate d = Inr ()"
  shows "fst (period d now) \<le> now \<and> now < snd (period d now)"
proof -
  obtain y m where s: "period_start d now = (y, m)" by fastforce
  obtain y' m' where "next_month y m (td_cycle_kind d) = (y', m')" by fastforce
  with period_start_sound(3,4) [OF desired_validate_anchor [OF assms] s] show ?thesis
    by (simp add: period_eq s)
qed

lemma reset_at_civil:
  assumes "1 \<le> m" and "m \<le> 12" and "1 \<le> rd"
  shows "civil_from_days (reset_at y m rd div 86400) = (y, m, min (int rd) (month_len y m))"
proof -
  have "reset_at y m rd div 86400 = days_from_civil y m (min (int rd) (month_len y m))"
    using assms by (simp add: reset_at_eq days_from_first)
  moreover have "valid_date y m (min (int rd) (month_len y m))"
    using assms month_len_bounds [of y m] by (simp add: valid_date_def)
  ultimately show ?thesis by (simp add: civil_roundtrip)
qed

text \<open>At a reset instant of its own anchor month the period starts there.\<close>

lemma period_start_at_reset:
  assumes "1 \<le> m" and "m \<le> 12" and "1 \<le> td_reset_day d"
    and "td_reset_month d = None \<or> td_reset_month d = Some (nat m)"
  shows "period_start d (reset_at y m (td_reset_day d)) = (y, m)"
  using assms by (auto simp: period_start_def reset_at_civil)

lemma period_start_month:
  assumes "valid_anchor d" and "period_start d now = (y, m)"
  shows "case next_month y m (td_cycle_kind d) of (y', m') \<Rightarrow>
    td_reset_month d = None \<or> td_reset_month d = Some (nat m')"
proof (cases "td_cycle_kind d")
  case Yearly
  with assms(1) obtain a where "td_reset_month d = Some a" by (auto simp: valid_anchor_def)
  with Yearly assms(2) show ?thesis
    by (auto simp: period_start_def next_month_def Let_def split: prod.splits if_splits)
qed (use assms(1) in \<open>auto simp: valid_anchor_def split: prod.splits\<close>)

text \<open>C12: billing periods tile the time line: the period computed at the end of one starts exactly there, so no traffic is counted twice or dropped across a reset, leap days and short months included.\<close>

theorem periods_tile:
  assumes "desired_validate d = Inr ()"
  shows "fst (period d (snd (period d now))) = snd (period d now)"
proof -
  have v: "valid_anchor d" and rd: "1 \<le> td_reset_day d"
    using desired_validate_anchor [OF assms] by (simp_all add: valid_anchor_def)
  obtain y m where s: "period_start d now = (y, m)" by fastforce
  obtain y' m' where n: "next_month y m (td_cycle_kind d) = (y', m')" by fastforce
  have m: "1 \<le> m'" "m' \<le> 12"
    using month_range(3,4) [OF period_start_sound(1,2) [OF v s], of y "td_cycle_kind d"] n by simp_all
  have "period_start d (reset_at y' m' (td_reset_day d)) = (y', m')"
    using period_start_month [OF v s] n by (intro period_start_at_reset [OF m rd]) simp
  then show ?thesis by (simp add: period_eq s n Let_def split: prod.splits)
qed

lemma period_span:
  assumes "1 \<le> m" and "m \<le> 12" and rd: "1 \<le> rd" "rd \<le> 31"
  shows "case next_month y m k of (y', m') \<Rightarrow>
    let n = reset_at y' m' rd - reset_at y m rd
    in (if k = Monthly then 28 * 86400 \<le> n \<and> n \<le> 31 * 86400 else 365 * 86400 \<le> n \<and> n \<le> 366 * 86400)"
proof (cases k)
  case Monthly
  obtain y' m' where n: "next_month y m Monthly = (y', m')" by fastforce
  have r: "1 \<le> m'" using month_range(3) [OF assms(1,2), of y Monthly] n by simp
  have "first_of y' m' = first_of y m + month_len y m" using first_of_next [OF assms(1,2), of y] n by simp
  then show ?thesis
    using Monthly n r assms month_len_bounds [of y m] month_len_bounds [of y' m']
    by (simp add: reset_at_eq min_def)
next
  case Yearly
  have "\<not> (4 dvd y \<and> 4 dvd y + 1)" by presburger
  then have "is_leap y \<Longrightarrow> \<not> is_leap (y + 1)" by (auto simp: is_leap_def)
  then show ?thesis
    using Yearly assms first_of_next_year [OF assms(1,2), of y]
    by (auto simp: reset_at_eq next_month_def min_def month_len_def)
qed

text \<open>C29: a monthly period lasts 28 to 31 days and a yearly one 365 or 366, whatever the reset day, and now lies in it: at or after its start and before its end. So both ends stay within 31, or 366, days of now.\<close>

theorem period_length:
  assumes "desired_validate d = Inr ()"
  shows "fst (period d now) \<le> now \<and> now < snd (period d now) \<and>
    (let n = snd (period d now) - fst (period d now)
     in (case td_cycle_kind d of
           Monthly \<Rightarrow> 28 * 86400 \<le> n \<and> n \<le> 31 * 86400
         | Yearly \<Rightarrow> 365 * 86400 \<le> n \<and> n \<le> 366 * 86400))"
proof -
  have v: "valid_anchor d" by (rule desired_validate_anchor [OF assms])
  obtain y m where s: "period_start d now = (y, m)" by fastforce
  show ?thesis
    using period_contains_now [OF assms, of now]
      period_span [OF period_start_sound(1,2) [OF v s], of "td_reset_day d" y "td_cycle_kind d"] v
    by (auto simp: period_eq s Let_def valid_anchor_def split: prod.splits node_traffic_cycle_kind.splits)
qed

text \<open>Settings that reset on the last day of every month, looked at on 29 February 2024.\<close>

definition leap_sample :: traffic_limit_desired where
  "leap_sample = \<lparr>td_revision = 1,
     td_policy = \<lparr>pol_layer = Both, pol_enabled = False, pol_rules = []\<rparr>,
     td_quota_bytes = None, td_cycle_kind = Monthly, td_accounting_mode = BidirectionalSum,
     td_reset_month = None, td_reset_day = 31\<rparr>"

lemma leap_sample_valid: "desired_validate leap_sample = Inr ()"
  by (simp add: leap_sample_def desired_validate_def policy_validate_def max_traffic_limit_rules_def)

theorem period_contains_now_witness:
  "fst (period leap_sample 1709164800) \<le> 1709164800 \<and> 1709164800 < snd (period leap_sample 1709164800)"
  by (rule period_contains_now [OF leap_sample_valid])

theorem periods_tile_witness:
  "period leap_sample 1709164800 = (1709164800, 1711843200) \<and>
   fst (period leap_sample (snd (period leap_sample 1709164800))) = snd (period leap_sample 1709164800)"
proof
  show "period leap_sample 1709164800 = (1709164800, 1711843200)" by code_simp
  show "fst (period leap_sample (snd (period leap_sample 1709164800))) = snd (period leap_sample 1709164800)"
    by (rule periods_tile [OF leap_sample_valid])
qed

theorem period_length_witness:
  "fst (period leap_sample 1709164800) \<le> 1709164800 \<and> 1709164800 < snd (period leap_sample 1709164800) \<and>
   (let n = snd (period leap_sample 1709164800) - fst (period leap_sample 1709164800)
    in 28 * 86400 \<le> n \<and> n \<le> 31 * 86400)"
  using period_length [OF leap_sample_valid, of 1709164800] by (simp add: leap_sample_def Let_def)

end
