(* ===== verification/Json.thy ===== *)
theory Json
  imports Rust_Str "HOL-Library.Monad_Syntax"
begin

text \<open>
  The JSON values the sources inspect: the enum \<open>serde_json::Value\<close> and its documented
  accessors. An object is a \<open>serde_json::Map\<close>, which without the \<open>preserve_order\<close>
  feature (no manifest under src/ enables it) is a \<open>BTreeMap\<close>, here an ascending
  association list. A number is only ever compared, so it is an opaque text that stands for
  its value. Reading and printing text are parameters where they occur.

  \<open>run\<close> is the outcome of code that can panic: an index or an \<open>expect\<close> that fails is
  \<open>Panic\<close>, never an unspecified value.
\<close>

datatype 'a run = Panic | Done 'a

fun run_bind :: "'a run \<Rightarrow> ('a \<Rightarrow> 'b run) \<Rightarrow> 'b run" where
  "run_bind Panic f = Panic"
| "run_bind (Done x) f = f x"

fun run_map :: "('a \<Rightarrow> 'b run) \<Rightarrow> 'a list \<Rightarrow> 'b list run" where
  "run_map f [] = Done []"
| "run_map f (x # xs) = run_bind (f x) (\<lambda>y. run_bind (run_map f xs) (\<lambda>ys. Done (y # ys)))"

definition expect :: "'a option \<Rightarrow> 'a run" where
  "expect x = (case x of None \<Rightarrow> Panic | Some y \<Rightarrow> Done y)"

lemma run_bind_Done_iff [simp]: "run_bind r f = Done y \<longleftrightarrow> (\<exists>x. r = Done x \<and> f x = Done y)"
  by (cases r) auto

lemma run_bind_Panic_iff: "run_bind r f = Panic \<longleftrightarrow> r = Panic \<or> (\<exists>x. r = Done x \<and> f x = Panic)"
  by (cases r) auto

lemma expect_Done_iff [simp]: "expect x = Done y \<longleftrightarrow> x = Some y"
  by (auto simp: expect_def split: option.splits)

lemma run_map_Done_iff: "run_map f xs = Done ys \<longleftrightarrow> list_all2 (\<lambda>x y. f x = Done y) xs ys"
  by (induction xs arbitrary: ys) (auto simp: list_all2_Cons1)

lemma run_map_Panic_iff: "run_map f xs = Panic \<longleftrightarrow> (\<exists>x \<in> set xs. f x = Panic)"
proof (induction xs)
  case (Cons x xs)
  then show ?case by (cases "f x"; cases "run_map f xs") auto
qed simp

lemma run_map_total: "(\<And>x. x \<in> set xs \<Longrightarrow> f x = Done (g x)) \<Longrightarrow> run_map f xs = Done (map g xs)"
  by (induction xs) auto

section \<open>Values\<close>

datatype json =
    JNull
  | JBool bool
  | JNumber string
  | JString string
  | JArray "json list"
  | JObject "(string \<times> json) list"

type_synonym jobject = "(string, json) bmap"

text \<open>Every object inside a value is an ordered map; the parser yields no other values.\<close>

fun json_ok :: "json \<Rightarrow> bool" where
  "json_ok (JArray xs) = list_all json_ok xs"
| "json_ok (JObject m) = (bmap_ok m \<and> list_all (\<lambda>e. json_ok (snd e)) m)"
| "json_ok _ = True"

fun as_str :: "json \<Rightarrow> string option" where
  "as_str (JString s) = Some s"
| "as_str _ = None"

fun as_array :: "json \<Rightarrow> json list option" where
  "as_array (JArray xs) = Some xs"
| "as_array _ = None"

fun as_object :: "json \<Rightarrow> jobject option" where
  "as_object (JObject m) = Some m"
| "as_object _ = None"

text \<open>\<open>value.get(key)\<close>, and \<open>value[key]\<close>, which is \<open>Null\<close> where there is nothing.\<close>

fun jget :: "string \<Rightarrow> json \<Rightarrow> json option" where
  "jget k (JObject m) = map_of m k"
| "jget k _ = None"

definition jindex :: "json \<Rightarrow> string \<Rightarrow> json" where
  "jindex v k = (case jget k v of None \<Rightarrow> JNull | Some x \<Rightarrow> x)"

fun jnth :: "json \<Rightarrow> nat \<Rightarrow> json" where
  "jnth (JArray xs) i = (if i < length xs then xs ! i else JNull)"
| "jnth _ i = JNull"

text \<open>
  \<open>value[key] = f(value[key])\<close>: an object gets the key, \<open>Null\<close> becomes an object, and
  every other value panics; an array index must exist.
\<close>

fun jupdate :: "string \<Rightarrow> (json \<Rightarrow> json run) \<Rightarrow> json \<Rightarrow> json run" where
  "jupdate k f (JObject m) =
     run_bind (f (case map_of m k of None \<Rightarrow> JNull | Some x \<Rightarrow> x)) (\<lambda>x. Done (JObject (bput k x m)))"
| "jupdate k f JNull = run_bind (f JNull) (\<lambda>x. Done (JObject [(k, x)]))"
| "jupdate k f _ = Panic"

fun jupdate_nth :: "nat \<Rightarrow> (json \<Rightarrow> json run) \<Rightarrow> json \<Rightarrow> json run" where
  "jupdate_nth i f (JArray xs) =
     (if i < length xs then run_bind (f (xs ! i)) (\<lambda>x. Done (JArray (xs[i := x]))) else Panic)"
| "jupdate_nth i f _ = Panic"

definition jset :: "string \<Rightarrow> json \<Rightarrow> json \<Rightarrow> json run" where
  "jset k x v = jupdate k (\<lambda>_. Done x) v"

text \<open>\<open>value.pointer(..)\<close> with the path already cut at its slashes.\<close>

definition parse_index :: "string \<Rightarrow> nat option" where
  "parse_index s =
     (if starts_with s ''+'' \<or> starts_with s ''0'' \<and> length s \<noteq> 1 then None else parse_u64 s)"

fun jpointer :: "string list \<Rightarrow> json \<Rightarrow> json option" where
  "jpointer [] v = Some v"
| "jpointer (t # ts) (JObject m) = Option.bind (map_of m t) (jpointer ts)"
| "jpointer (t # ts) (JArray xs) =
     Option.bind (parse_index t) (\<lambda>i. if i < length xs then jpointer ts (xs ! i) else None)"
| "jpointer (t # ts) _ = None"

section \<open>Facts\<close>

lemma as_str_Some [simp]: "as_str v = Some s \<longleftrightarrow> v = JString s" by (cases v) auto
lemma as_array_Some [simp]: "as_array v = Some xs \<longleftrightarrow> v = JArray xs" by (cases v) auto
lemma as_object_Some [simp]: "as_object v = Some m \<longleftrightarrow> v = JObject m" by (cases v) auto

lemma jget_Some: "jget k v = Some x \<longleftrightarrow> (\<exists>m. v = JObject m \<and> map_of m k = Some x)"
  by (cases v) auto

lemma jindex_JString [simp]: "jindex v k = JString s \<longleftrightarrow> jget k v = Some (JString s)"
  by (auto simp: jindex_def split: option.splits)

lemma jset_JObject [simp]: "jset k x (JObject m) = Done (JObject (bput k x m))"
  by (simp add: jset_def)

lemma jset_Done: "jset k x v = Done w \<Longrightarrow> jget k w = Some x"
  by (cases v) (auto simp: jset_def)

lemma jset_other: "jset k x v = Done w \<Longrightarrow> k' \<noteq> k \<Longrightarrow> jget k' w = jget k' v"
  by (cases v) (auto simp: jset_def)

lemma jset_Panic: "jset k x v = Panic \<longleftrightarrow> v \<noteq> JNull \<and> (\<forall>m. v \<noteq> JObject m)"
  by (cases v) (auto simp: jset_def)

lemma json_ok_get: "json_ok v \<Longrightarrow> jget k v = Some x \<Longrightarrow> json_ok x"
  by (fastforce simp: jget_Some list_all_iff dest!: map_of_SomeD)

end
