(* ===== verification/Hot_Swap.thy ===== *)
theory Hot_Swap
  imports Json
begin

text \<open>
  \<open>crates/brocade-deployment/src/hotswap.rs\<close>: whether a running xray can be talked from one
  configuration into another, and with which operations in which order. Parsing a
  configuration text is a parameter \<open>parse\<close>; the theorems on texts assume only that it
  yields well-formed values. \<open>?\<close> is \<open>Option.bind\<close>, an \<open>expect\<close> or an indexing
  that fails is \<open>Panic\<close>.
\<close>

section \<open>The plan\<close>

definition ENDPOINT_SWAP_SUFFIX :: string where
  "ENDPOINT_SWAP_SUFFIX = ''~brocade-endpoint-swap''"
definition ENDPOINT_RULE_PREFIX :: string where
  "ENDPOINT_RULE_PREFIX = ''brocade:endpoint-swap:''"
definition LEGACY_HOP_HEALTH_BALANCER_TAG :: string where
  "LEGACY_HOP_HEALTH_BALANCER_TAG = ''hop-health''"
definition NEVER_MATCH_DOMAIN :: string where
  "NEVER_MATCH_DOMAIN = ''full:invalid.brocade.never-match''"

datatype hot_swap_operation =
    AddOutbounds "json list"
  | RemoveOutbounds "string list"
  | ReloadRouting json

record endpoint_swap =
  es_outbounds :: "json list"
  es_bridge_outbounds :: "json list"
  es_bridge_rules :: "json list"

record hot_swap_plan =
  hs_add_outbounds :: "json list"
  hs_remove_outbounds :: "string list"
  hs_reload_routing :: "json option"
  hs_endpoint_swap :: "endpoint_swap option"

definition tags_of :: "json list \<Rightarrow> string \<Rightarrow> string list run" where
  "tags_of entries key = run_map (\<lambda>entry. expect (as_str (jindex entry key))) entries"

definition operations :: "hot_swap_plan \<Rightarrow> hot_swap_operation list run" where
  "operations h =
     (let adds = (if hs_add_outbounds h \<noteq> [] then [AddOutbounds (hs_add_outbounds h)] else []);
          removes = (if hs_remove_outbounds h \<noteq> [] then [RemoveOutbounds (hs_remove_outbounds h)] else [])
      in case hs_endpoint_swap h of
           Some swap \<Rightarrow>
             run_bind (expect (hs_reload_routing h)) (\<lambda>routing.
             run_bind (jset ''rules'' (JArray (es_bridge_rules swap)) routing) (\<lambda>bridge.
             run_bind (tags_of (es_outbounds swap) ''tag'') (\<lambda>tags.
             run_bind (tags_of (es_bridge_outbounds swap) ''tag'') (\<lambda>bridge_tags.
               Done (adds @
                 [AddOutbounds (es_bridge_outbounds swap),
                  ReloadRouting bridge,
                  RemoveOutbounds tags,
                  AddOutbounds (es_outbounds swap),
                  ReloadRouting routing,
                  RemoveOutbounds bridge_tags] @ removes)))))
         | None \<Rightarrow>
             Done (adds @
               (case hs_reload_routing h of Some routing \<Rightarrow> [ReloadRouting routing] | None \<Rightarrow> []) @
               removes))"

section \<open>The decision\<close>

definition untouched :: "jobject \<Rightarrow> string \<Rightarrow> json option" where
  "untouched value key =
     (if key = ''outbounds'' then None
      else if key = ''routing'' then
        do { routing \<leftarrow> map_of value key;
             m \<leftarrow> as_object routing;
             Some (JObject (bdel ''rules'' m)) }
      else Some (case map_of value key of None \<Rightarrow> JNull | Some v \<Rightarrow> v))"

fun tag_entries :: "jobject \<Rightarrow> json list \<Rightarrow> jobject option" where
  "tag_entries tagged [] = Some tagged"
| "tag_entries tagged (entry # es) =
     do { t \<leftarrow> jget ''tag'' entry;
          tag \<leftarrow> as_str t;
          if tag = [] \<or> map_of tagged tag \<noteq> None then None
          else tag_entries (bput tag entry tagged) es }"

definition by_tag :: "jobject \<Rightarrow> string \<Rightarrow> jobject option" where
  "by_tag value key = do { v \<leftarrow> map_of value key; es \<leftarrow> as_array v; tag_entries [] es }"

definition head_tag :: "jobject \<Rightarrow> string option" where
  "head_tag value =
     do { v \<leftarrow> map_of value ''outbounds'';
          es \<leftarrow> as_array v;
          e \<leftarrow> (case es of [] \<Rightarrow> None | x # _ \<Rightarrow> Some x);
          t \<leftarrow> jget ''tag'' e;
          as_str t }"

definition changed_outbounds :: "jobject \<Rightarrow> jobject \<Rightarrow> jobject" where
  "changed_outbounds before_outbounds after_outbounds =
     filter (\<lambda>e. case map_of before_outbounds (fst e) of None \<Rightarrow> False | Some old \<Rightarrow> old \<noteq> snd e)
       after_outbounds"

definition is_wireguard :: "json \<Rightarrow> bool" where
  "is_wireguard outbound = (Option.bind (jget ''protocol'' outbound) as_str = Some ''wireguard'')"

definition routing_rules :: "jobject \<Rightarrow> json list option" where
  "routing_rules value =
     do { routing \<leftarrow> map_of value ''routing''; rules \<leftarrow> jget ''rules'' routing; as_array rules }"

fun valid_tags :: "string list \<Rightarrow> json list \<Rightarrow> bool" where
  "valid_tags tags [] = True"
| "valid_tags tags (rule # rules) =
     (case jget ''ruleTag'' rule of
        Some (JString tag) \<Rightarrow>
          (if tag \<noteq> [] then tag \<notin> set tags \<and> valid_tags (tag # tags) rules else valid_tags tags rules)
      | None \<Rightarrow> valid_tags tags rules
      | Some JNull \<Rightarrow> valid_tags tags rules
      | _ \<Rightarrow> False)"

text \<open>
  \<open>normalized["settings"]["vnext"][0][key] = old[0][key].clone()\<close> for the two keys in turn.
\<close>

definition set_endpoint :: "string \<Rightarrow> json \<Rightarrow> json \<Rightarrow> json run" where
  "set_endpoint key v normalized =
     jupdate ''settings'' (jupdate ''vnext'' (jupdate_nth 0 (jset key v))) normalized"

definition vless_endpoint_only :: "json \<Rightarrow> json \<Rightarrow> bool run" where
  "vless_endpoint_only before after =
     (if jindex before ''protocol'' \<noteq> JString ''vless'' \<or> jindex after ''protocol'' \<noteq> JString ''vless''
      then Done False
      else case Option.bind (jpointer [''settings'', ''vnext''] before) as_array of
        None \<Rightarrow> Done False
      | Some old \<Rightarrow>
          (case Option.bind (jpointer [''settings'', ''vnext''] after) as_array of
             None \<Rightarrow> Done False
           | Some new \<Rightarrow>
               (if length old \<noteq> 1 \<or> length new \<noteq> 1 then Done False
                else case as_array (jindex (old ! 0) ''users'') of
                  None \<Rightarrow> Done False
                | Some users \<Rightarrow>
                    (if list_ex (\<lambda>user. jget ''reverse'' user \<noteq> None) users then Done False
                     else run_bind (set_endpoint ''address'' (jindex (old ! 0) ''address'') after) (\<lambda>n.
                          run_bind (set_endpoint ''port'' (jindex (old ! 0) ''port'') n) (\<lambda>normalized.
                          Done (normalized = before)))))))"

fun has_indirect_reference :: "jobject \<Rightarrow> json \<Rightarrow> bool" where
  "has_indirect_reference changed (JObject object) =
     ((case do { settings \<leftarrow> map_of object ''proxySettings''; t \<leftarrow> jget ''tag'' settings; as_str t } of
         None \<Rightarrow> False | Some tag \<Rightarrow> map_of changed tag \<noteq> None)
      \<or> list_ex (\<lambda>key. case Option.bind (map_of object key) as_str of
           None \<Rightarrow> False | Some tag \<Rightarrow> map_of changed tag \<noteq> None) [''dialerProxy'', ''outboundTag'']
      \<or> list_ex (\<lambda>e. has_indirect_reference changed (snd e)) object)"
| "has_indirect_reference changed (JArray array) = list_ex (has_indirect_reference changed) array"
| "has_indirect_reference changed _ = False"

definition balancer_references :: "jobject \<Rightarrow> json list \<Rightarrow> json \<Rightarrow> bool" where
  "balancer_references changed selectors balancer =
     (list_ex (\<lambda>selector. case as_str selector of
          None \<Rightarrow> False
        | Some prefix \<Rightarrow> list_ex (\<lambda>e. starts_with (fst e) prefix) changed) selectors
      \<or> (case as_str (jindex balancer ''fallbackTag'') of
           None \<Rightarrow> False | Some tag \<Rightarrow> map_of changed tag \<noteq> None))"

text \<open>Whether one balancer leaves the bridge possible; \<open>False\<close> is the code's \<open>return None\<close>.\<close>

definition balancer_bridgeable :: "jobject \<Rightarrow> json list \<Rightarrow> json \<Rightarrow> bool" where
  "balancer_bridgeable changed all_rules balancer =
     (case as_array (jindex balancer ''selector'') of
        None \<Rightarrow> False
      | Some selectors \<Rightarrow>
          \<not> (balancer_references changed selectors balancer
            \<and> (jindex balancer ''tag'' \<noteq> JString LEGACY_HOP_HEALTH_BALANCER_TAG
               \<or> jget ''fallbackTag'' balancer \<noteq> None
               \<or> list_ex (\<lambda>rule. jindex rule ''balancerTag'' = JString LEGACY_HOP_HEALTH_BALANCER_TAG
                    \<and> jindex rule ''domain'' \<noteq> JArray [JString NEVER_MATCH_DOMAIN]) all_rules)))"

definition config_bridgeable :: "jobject \<Rightarrow> json list \<Rightarrow> jobject \<Rightarrow> bool" where
  "config_bridgeable changed all_rules config =
     (list_all (\<lambda>e. fst e \<noteq> ''routing'' \<longrightarrow> \<not> has_indirect_reference changed (snd e)) config
      \<and> (case Option.bind (map_of config ''outbounds'') as_array of
           None \<Rightarrow> False
         | Some outbounds \<Rightarrow>
             list_all (\<lambda>outbound. case as_str (jindex outbound ''tag'') of
                 None \<Rightarrow> False | Some tag \<Rightarrow> \<not> ends_with tag ENDPOINT_SWAP_SUFFIX) outbounds)
      \<and> (case map_of config ''routing'' of
           None \<Rightarrow> False
         | Some routing \<Rightarrow>
             (case Option.bind (jget ''balancers'' routing) as_array of
                None \<Rightarrow> True
              | Some balancers \<Rightarrow> list_all (balancer_bridgeable changed all_rules) balancers)))"

definition bridge_outbound :: "json \<Rightarrow> json run" where
  "bridge_outbound outbound =
     run_bind (expect (as_str (jindex outbound ''tag''))) (\<lambda>tag.
       jset ''tag'' (JString (tag @ ENDPOINT_SWAP_SUFFIX)) outbound)"

definition bridge_rule :: "jobject \<Rightarrow> nat \<times> json \<Rightarrow> json run" where
  "bridge_rule changed = (\<lambda>(index, rule).
     run_bind (jset ''ruleTag'' (JString (ENDPOINT_RULE_PREFIX @ show_nat index)) rule) (\<lambda>bridge.
       case as_str (jindex rule ''outboundTag'') of
         None \<Rightarrow> Done bridge
       | Some tag \<Rightarrow>
           (if map_of changed tag \<noteq> None
            then jset ''outboundTag'' (JString (tag @ ENDPOINT_SWAP_SUFFIX)) bridge
            else Done bridge)))"

definition endpoint_swap_plan ::
  "jobject \<Rightarrow> jobject \<Rightarrow> jobject \<Rightarrow> json list \<Rightarrow> json list \<Rightarrow> endpoint_swap option run" where
  "endpoint_swap_plan before after changed before_rules after_rules =
     (if before_rules = [] \<or> after_rules = [] then Done None
      else if \<not> list_all (config_bridgeable changed (before_rules @ after_rules)) [before, after]
      then Done None
      else if list_ex (\<lambda>rule. case as_str (jindex rule ''ruleTag'') of
             None \<Rightarrow> False | Some tag \<Rightarrow> starts_with tag ENDPOINT_RULE_PREFIX) (before_rules @ after_rules)
      then Done None
      else run_bind (run_map bridge_outbound (map snd changed)) (\<lambda>bridge_outbounds.
           run_bind (run_map (bridge_rule changed) (enumerate 0 after_rules)) (\<lambda>bridge_rules.
             Done (Some \<lparr>es_outbounds = map snd changed,
                         es_bridge_outbounds = bridge_outbounds,
                         es_bridge_rules = bridge_rules\<rparr>))))"

text \<open>The loop over the changed outbounds: \<open>Done False\<close> is its \<open>return None\<close>.\<close>

fun check_changed :: "string \<Rightarrow> jobject \<Rightarrow> jobject \<Rightarrow> bool run" where
  "check_changed head before_outbounds [] = Done True"
| "check_changed head before_outbounds (e # es) =
     (if fst e = head then Done False
      else run_bind (expect (map_of before_outbounds (fst e))) (\<lambda>old.
           run_bind (vless_endpoint_only old (snd e)) (\<lambda>ok.
             if \<not> ok then Done False else check_changed head before_outbounds es)))"

text \<open>\<open>hot_swap\<close> on the two parsed objects; the text-level function follows.\<close>

definition hot_swap_objects :: "jobject \<Rightarrow> jobject \<Rightarrow> hot_swap_plan option run" where
  "hot_swap_objects before after =
     (if \<not> list_all (\<lambda>key. untouched before key = untouched after key) (map fst before @ map fst after)
      then Done None
      else case (by_tag before ''outbounds'', by_tag after ''outbounds'', head_tag before, head_tag after) of
        (Some before_outbounds, Some after_outbounds, Some head, Some after_head) \<Rightarrow>
          (if head \<noteq> after_head then Done None
           else let changed = changed_outbounds before_outbounds after_outbounds
             in run_bind (check_changed head before_outbounds changed) (\<lambda>ok.
                if \<not> ok then Done None
                else if list_ex (\<lambda>e. map_of before_outbounds (fst e) = None \<and> is_wireguard (snd e)) after_outbounds
                  \<or> list_ex (\<lambda>e. map_of after_outbounds (fst e) = None \<and> is_wireguard (snd e)) before_outbounds
                then Done None
                else case (routing_rules before, routing_rules after) of
                  (Some before_rules, Some after_rules) \<Rightarrow>
                    (if \<not> valid_tags [] after_rules then Done None
                     else run_bind
                       (if changed = [] then Done (Some None)
                        else run_bind (endpoint_swap_plan before after changed before_rules after_rules)
                          (\<lambda>plan. Done (map_option Some plan)))
                       (\<lambda>endpoint_swap.
                         case endpoint_swap of
                           None \<Rightarrow> Done None
                         | Some swap \<Rightarrow>
                             (case (if before_rules = after_rules \<and> swap = None then Some None
                                    else map_option Some (map_of after ''routing'')) of
                                None \<Rightarrow> Done None
                              | Some reload \<Rightarrow> Done (Some
                                  \<lparr>hs_add_outbounds =
                                     map snd (filter (\<lambda>e. map_of before_outbounds (fst e) = None) after_outbounds),
                                   hs_remove_outbounds =
                                     map fst (filter (\<lambda>e. map_of after_outbounds (fst e) = None) before_outbounds),
                                   hs_reload_routing = reload,
                                   hs_endpoint_swap = swap\<rparr>))))
                | _ \<Rightarrow> Done None))
      | _ \<Rightarrow> Done None)"

definition hot_swap :: "(string \<Rightarrow> json option) \<Rightarrow> string \<Rightarrow> string \<Rightarrow> hot_swap_plan option run" where
  "hot_swap parse previous desired =
     (case (Option.bind (parse previous) as_object, Option.bind (parse desired) as_object) of
        (Some before, Some after) \<Rightarrow> hot_swap_objects before after
      | _ \<Rightarrow> Done None)"

end
