(* ===== verification/Hot_Swap_Safety.thy ===== *)
theory Hot_Swap_Safety
  imports Hot_Swap
begin

text \<open>
  What a hot swap does to a running xray. \<open>xray\<close>, \<open>exec_op\<close> and \<open>exec_trace\<close> are the
  contract of the runtime verbs as \<open>hotswap.rs\<close> relies on it: an outbound is added only under
  a tag that is free, removed only under a tag that is there, and a routing configuration
  replaces the whole one. Against that contract the operations of every plan run through, end
  in the desired configuration, and in no state between them does a rule name an outbound that
  is not installed.
\<close>

section \<open>What the runtime verbs promise\<close>

record xray =
  xr_outbounds :: "string \<rightharpoonup> json"
  xr_routing :: json

definition outbound_tag :: "json \<Rightarrow> string option" where
  "outbound_tag e = Option.bind (jget ''tag'' e) as_str"

fun add_all :: "json list \<Rightarrow> (string \<rightharpoonup> json) \<Rightarrow> (string \<rightharpoonup> json) option" where
  "add_all [] m = Some m"
| "add_all (e # es) m =
     (case outbound_tag e of
        None \<Rightarrow> None
      | Some t \<Rightarrow> (if m t \<noteq> None then None else add_all es (m(t \<mapsto> e))))"

fun remove_all :: "string list \<Rightarrow> (string \<rightharpoonup> json) \<Rightarrow> (string \<rightharpoonup> json) option" where
  "remove_all [] m = Some m"
| "remove_all (t # ts) m = (if m t = None then None else remove_all ts (m(t := None)))"

fun exec_op :: "hot_swap_operation \<Rightarrow> xray \<Rightarrow> xray option" where
  "exec_op (AddOutbounds es) x =
     map_option (\<lambda>m. x\<lparr>xr_outbounds := m\<rparr>) (add_all es (xr_outbounds x))"
| "exec_op (RemoveOutbounds ts) x =
     map_option (\<lambda>m. x\<lparr>xr_outbounds := m\<rparr>) (remove_all ts (xr_outbounds x))"
| "exec_op (ReloadRouting r) x = Some (x\<lparr>xr_routing := r\<rparr>)"

text \<open>All the states a run goes through, the first one included.\<close>

fun exec_trace :: "hot_swap_operation list \<Rightarrow> xray \<Rightarrow> xray list option" where
  "exec_trace [] x = Some [x]"
| "exec_trace (op # ops) x =
     do { y \<leftarrow> exec_op op x; ys \<leftarrow> exec_trace ops y; Some (x # ys) }"

definition rules_of :: "json \<Rightarrow> json list" where
  "rules_of routing = (case Option.bind (jget ''rules'' routing) as_array of None \<Rightarrow> [] | Some rs \<Rightarrow> rs)"

definition rule_target :: "json \<Rightarrow> string option" where
  "rule_target rule = as_str (jindex rule ''outboundTag'')"

text \<open>Every outbound a rule names is installed.\<close>

definition no_dangling :: "xray \<Rightarrow> bool" where
  "no_dangling x \<longleftrightarrow> (\<forall>rule \<in> set (rules_of (xr_routing x)). \<forall>t.
     rule_target rule = Some t \<longrightarrow> xr_outbounds x t \<noteq> None)"

definition xray_of :: "jobject \<Rightarrow> xray" where
  "xray_of config =
     \<lparr>xr_outbounds = (case by_tag config ''outbounds'' of None \<Rightarrow> Map.empty | Some m \<Rightarrow> map_of m),
      xr_routing = (case map_of config ''routing'' of None \<Rightarrow> JNull | Some r \<Rightarrow> r)\<rparr>"

text \<open>
  An xray in state \<open>s\<close> carries traffic as configuration \<open>c\<close> demands: rule by rule it has the
  conditions of \<open>c\<close>'s rules, and the outbound a rule leads to is the one \<open>c\<close> has for it, under
  whatever tag.
\<close>

definition same_but_tag :: "json \<Rightarrow> json \<Rightarrow> bool" where
  "same_but_tag e e' \<longleftrightarrow> (\<forall>k. k \<noteq> ''tag'' \<longrightarrow> jget k e = jget k e')"

definition carries_rule :: "xray \<Rightarrow> xray \<Rightarrow> json \<Rightarrow> json \<Rightarrow> bool" where
  "carries_rule c s rule wanted \<longleftrightarrow>
     (\<forall>k. k \<noteq> ''ruleTag'' \<and> k \<noteq> ''outboundTag'' \<longrightarrow> jget k rule = jget k wanted) \<and>
     (case rule_target wanted of
        None \<Rightarrow> rule_target rule = None
      | Some t \<Rightarrow> \<exists>u e e'. rule_target rule = Some u \<and> xr_outbounds s u = Some e \<and>
          xr_outbounds c t = Some e' \<and> same_but_tag e e')"

definition carries :: "xray \<Rightarrow> xray \<Rightarrow> bool" where
  "carries c s \<longleftrightarrow> list_all2 (carries_rule c s) (rules_of (xr_routing s)) (rules_of (xr_routing c))"

section \<open>Lookups in tables of outbounds\<close>

definition table_ok :: "jobject \<Rightarrow> bool" where
  "table_ok m \<longleftrightarrow> distinct (map fst m) \<and> (\<forall>e \<in> set m. outbound_tag (snd e) = Some (fst e))"

lemma map_of_filter_entry:
  "distinct (map fst m) \<Longrightarrow>
     map_of (filter P m) k = (case map_of m k of Some v \<Rightarrow> if P (k, v) then Some v else None | None \<Rightarrow> None)"
  by (induction m) (auto split: option.splits dest: map_of_SomeD simp: rev_image_eqI)

lemma distinct_filter_keys: "distinct (map fst m) \<Longrightarrow> distinct (map fst (filter P m))"
  by (induction m) auto

lemma table_ok_filter: "table_ok m \<Longrightarrow> table_ok (filter P m)"
  by (auto simp: table_ok_def distinct_filter_keys)

lemma tag_entries_table:
  assumes "tag_entries m es = Some m'" and "bmap_ok m" and "table_ok m"
  shows "bmap_ok m' \<and> table_ok m' \<and>
    (\<forall>t e. map_of m' t = Some e \<longleftrightarrow> map_of m t = Some e \<or> e \<in> set es \<and> outbound_tag e = Some t)"
  using assms
proof (induction es arbitrary: m)
  case (Cons e es)
  from Cons.prems(1) obtain t where t: "outbound_tag e = Some t" "map_of m t = None"
    and rest: "tag_entries (bput t e m) es = Some m'"
    by (auto simp: outbound_tag_def bind_eq_Some_conv split: if_splits)
  have "table_ok (bput t e m)"
    unfolding table_ok_def
  proof (intro conjI ballI)
    show "distinct (map fst (bput t e m))" using Cons.prems(2) by simp
    fix x assume "x \<in> set (bput t e m)"
    then have "map_of (bput t e m) (fst x) = Some (snd x)"
      using Cons.prems(2) by (intro map_of_is_SomeI) simp_all
    then show "outbound_tag (snd x) = Some (fst x)"
      using t Cons.prems(3) by (auto simp: table_ok_def split: if_splits dest: map_of_SomeD)
  qed
  with Cons.IH [OF rest] Cons.prems(2) t show ?case by auto
qed simp

lemma by_tag_table:
  assumes "by_tag config ''outbounds'' = Some m"
  shows "table_ok m" and "bmap_ok m"
    and "map_of m t = Some e \<Longrightarrow>
      \<exists>es. map_of config ''outbounds'' = Some (JArray es) \<and> e \<in> set es \<and> outbound_tag e = Some t"
    and "map_of config ''outbounds'' = Some (JArray es') \<Longrightarrow> e \<in> set es' \<Longrightarrow> outbound_tag e = Some t \<Longrightarrow>
      map_of m t = Some e"
proof -
  from assms obtain es where es: "map_of config ''outbounds'' = Some (JArray es)"
    and "tag_entries [] es = Some m"
    by (auto simp: by_tag_def bind_eq_Some_conv)
  with tag_entries_table [of "[]" es m] have "bmap_ok m \<and> table_ok m"
    and look: "\<forall>t e. map_of m t = Some e \<longleftrightarrow> e \<in> set es \<and> outbound_tag e = Some t"
    by (simp_all add: table_ok_def)
  then show "table_ok m" and "bmap_ok m" by blast+
  show "map_of m t = Some e \<Longrightarrow>
      \<exists>es. map_of config ''outbounds'' = Some (JArray es) \<and> e \<in> set es \<and> outbound_tag e = Some t"
    using es look by blast
  show "map_of config ''outbounds'' = Some (JArray es') \<Longrightarrow> e \<in> set es' \<Longrightarrow> outbound_tag e = Some t \<Longrightarrow>
      map_of m t = Some e"
    using es look by simp
qed

text \<open>Adding and removing whole tables.\<close>

lemma add_all_table:
  assumes "table_ok al" and "\<And>t. t \<in> fst ` set al \<Longrightarrow> m t = None"
  shows "add_all (map snd al) m = Some (m ++ map_of al)"
  using assms
proof (induction al arbitrary: m)
  case (Cons e al)
  then have "outbound_tag (snd e) = Some (fst e)" "m (fst e) = None" by (auto simp: table_ok_def)
  moreover have "add_all (map snd al) (m(fst e \<mapsto> snd e)) = Some (m(fst e \<mapsto> snd e) ++ map_of al)"
  proof (rule Cons.IH)
    show "table_ok al" using Cons.prems(1) by (simp add: table_ok_def)
    fix t assume "t \<in> fst ` set al"
    moreover have "fst e \<notin> fst ` set al" using Cons.prems(1) by (simp add: table_ok_def)
    ultimately have "t \<noteq> fst e" by blast
    with Cons.prems(2) \<open>t \<in> fst ` set al\<close> show "(m(fst e \<mapsto> snd e)) t = None" by simp
  qed
  moreover have "m(fst e \<mapsto> snd e) ++ map_of al = m ++ map_of (e # al)"
  proof -
    have "map_of al (fst e) = None"
      using Cons.prems(1) by (force simp: table_ok_def map_of_eq_None_iff)
    then show ?thesis by (cases e) (simp add: map_add_upd_left dom_def)
  qed
  ultimately show ?case by (simp del: map_of.simps fun_upd_apply)
qed simp

lemma remove_all_table:
  assumes "distinct ts" and "\<And>t. t \<in> set ts \<Longrightarrow> m t \<noteq> None"
  shows "remove_all ts m = Some (m |` (- set ts))"
  using assms
proof (induction ts arbitrary: m)
  case (Cons t ts)
  then have "remove_all ts (m(t := None)) = Some ((m(t := None)) |` (- set ts))"
    by (intro Cons.IH) auto
  moreover have "(m(t := None)) |` (- set ts) = m |` (- set (t # ts))"
    by (auto simp: restrict_map_def fun_eq_iff)
  ultimately show ?case using Cons.prems by simp
qed (simp add: restrict_map_def)

section \<open>The bridge\<close>

definition bridge_table :: "jobject \<Rightarrow> json list \<Rightarrow> jobject" where
  "bridge_table changed bridges = zip (map (\<lambda>e. fst e @ ENDPOINT_SWAP_SUFFIX) changed) bridges"

lemma bridge_outbound_Done:
  assumes "bridge_outbound e = Done b" and "outbound_tag e = Some t"
  shows "outbound_tag b = Some (t @ ENDPOINT_SWAP_SUFFIX)"
    and "k \<noteq> ''tag'' \<Longrightarrow> jget k b = jget k e"
  using assms
proof -
  from assms have set: "jset ''tag'' (JString (t @ ENDPOINT_SWAP_SUFFIX)) e = Done b"
    by (simp add: bridge_outbound_def outbound_tag_def bind_eq_Some_conv)
  show "outbound_tag b = Some (t @ ENDPOINT_SWAP_SUFFIX)"
    using jset_Done [OF set] by (simp add: outbound_tag_def)
  show "k \<noteq> ''tag'' \<Longrightarrow> jget k b = jget k e"
    by (rule jset_other [OF set])
qed

lemma bridge_table_ok:
  assumes "table_ok changed" and "run_map bridge_outbound (map snd changed) = Done bridges"
  shows "table_ok (bridge_table changed bridges)"
    and "length bridges = length changed"
    and "map snd (bridge_table changed bridges) = bridges"
    and "fst ` set (bridge_table changed bridges) = (\<lambda>t. t @ ENDPOINT_SWAP_SUFFIX) ` fst ` set changed"
proof -
  have all2: "list_all2 (\<lambda>e b. bridge_outbound (snd e) = Done b) changed bridges"
    using assms(2) by (simp add: run_map_Done_iff list_all2_map1)
  show len: "length bridges = length changed" using all2 by (simp add: list_all2_lengthD)
  then show "map snd (bridge_table changed bridges) = bridges" by (simp add: bridge_table_def)
  have keys: "map fst (bridge_table changed bridges) = map (\<lambda>e. fst e @ ENDPOINT_SWAP_SUFFIX) changed"
    using len by (simp add: bridge_table_def)
  then show "fst ` set (bridge_table changed bridges) = (\<lambda>t. t @ ENDPOINT_SWAP_SUFFIX) ` fst ` set changed"
    unfolding set_map [symmetric] keys by (auto simp: image_image)
  show "table_ok (bridge_table changed bridges)"
    unfolding table_ok_def
  proof (intro conjI ballI)
    have "distinct (map (\<lambda>t. t @ ENDPOINT_SWAP_SUFFIX) (map fst changed))"
      using assms(1) by (auto simp: table_ok_def distinct_map inj_on_def)
    then show "distinct (map fst (bridge_table changed bridges))" by (simp add: keys comp_def)
    fix x assume "x \<in> set (bridge_table changed bridges)"
    then obtain i where i: "i < length changed" and x: "x = (fst (changed ! i) @ ENDPOINT_SWAP_SUFFIX, bridges ! i)"
      using len by (auto simp: bridge_table_def in_set_conv_nth)
    have "bridge_outbound (snd (changed ! i)) = Done (bridges ! i)"
      using all2 i by (simp add: list_all2_conv_all_nth)
    moreover have "outbound_tag (snd (changed ! i)) = Some (fst (changed ! i))"
      using assms(1) i by (simp add: table_ok_def)
    ultimately show "outbound_tag (snd x) = Some (fst x)" by (simp add: x bridge_outbound_Done)
  qed
qed

lemma tags_of_map:
  assumes "table_ok al"
  shows "tags_of (map snd al) ''tag'' = Done (map fst al)"
proof -
  have "expect (as_str (jindex (snd e) ''tag'')) = Done (fst e)" if "e \<in> set al" for e
    using assms that by (auto simp: table_ok_def outbound_tag_def bind_eq_Some_conv)
  then show ?thesis
    using run_map_total [of al "\<lambda>e. expect (as_str (jindex (snd e) ''tag''))" fst]
    by (simp add: tags_of_def comp_def run_map_Done_iff list_all2_map1 list_all2_map2)
qed

lemma bridge_rule_target:
  assumes "bridge_rule changed (i, rule) = Done b"
  shows "rule_target b = (case rule_target rule of None \<Rightarrow> None
    | Some t \<Rightarrow> Some (if map_of changed t \<noteq> None then t @ ENDPOINT_SWAP_SUFFIX else t))"
proof -
  from assms obtain m where m: "jset ''ruleTag'' (JString (ENDPOINT_RULE_PREFIX @ show_nat i)) rule = Done m"
    and b: "(case rule_target rule of
         None \<Rightarrow> Done m
       | Some tag \<Rightarrow>
           (if map_of changed tag \<noteq> None
            then jset ''outboundTag'' (JString (tag @ ENDPOINT_SWAP_SUFFIX)) m else Done m)) = Done b"
    by (auto simp: bridge_rule_def rule_target_def)
  have same: "jget ''outboundTag'' m = jget ''outboundTag'' rule" using jset_other [OF m] by simp
  then have "rule_target m = rule_target rule" by (simp add: rule_target_def jindex_def)
  moreover have "rule_target b = Some (t @ ENDPOINT_SWAP_SUFFIX)"
    if "jset ''outboundTag'' (JString (t @ ENDPOINT_SWAP_SUFFIX)) m = Done b" for t
    using jset_Done [OF that] by (simp add: rule_target_def jindex_def)
  ultimately show ?thesis
    using b by (cases "rule_target rule") (simp_all split: if_splits)
qed

section \<open>What a plan means\<close>

lemma check_changed_Done:
  "check_changed h B ch = Done True \<Longrightarrow> h \<notin> fst ` set ch \<and>
     (\<forall>e \<in> set ch. \<exists>old. map_of B (fst e) = Some old \<and> vless_endpoint_only old (snd e) = Done True)"
  by (induction ch) (auto split: if_splits)

definition new_outbounds :: "jobject \<Rightarrow> jobject \<Rightarrow> jobject" where
  "new_outbounds B A = filter (\<lambda>e. map_of B (fst e) = None) A"

lemma hot_swap_cases:
  assumes "hot_swap_objects before after = Done (Some h)"
  obtains B A hd br ar where
    "\<forall>k \<in> fst ` set before \<union> fst ` set after. untouched before k = untouched after k"
    and "by_tag before ''outbounds'' = Some B" and "by_tag after ''outbounds'' = Some A"
    and "head_tag before = Some hd" and "head_tag after = Some hd"
    and "check_changed hd B (changed_outbounds B A) = Done True"
    and "\<forall>e \<in> set A. map_of B (fst e) = None \<longrightarrow> \<not> is_wireguard (snd e)"
    and "\<forall>e \<in> set B. map_of A (fst e) = None \<longrightarrow> \<not> is_wireguard (snd e)"
    and "routing_rules before = Some br" and "routing_rules after = Some ar" and "valid_tags [] ar"
    and "case hs_endpoint_swap h of None \<Rightarrow> changed_outbounds B A = []
         | Some swap \<Rightarrow> changed_outbounds B A \<noteq> [] \<and>
             endpoint_swap_plan before after (changed_outbounds B A) br ar = Done (Some swap)"
    and "hs_reload_routing h =
      (if br = ar \<and> hs_endpoint_swap h = None then None else map_of after ''routing'')"
    and "hs_add_outbounds h = map snd (new_outbounds B A)"
    and "hs_remove_outbounds h = map fst (new_outbounds A B)"
proof -
  from assms have keys: "list_all (\<lambda>k. untouched before k = untouched after k) (map fst before @ map fst after)"
    unfolding hot_swap_objects_def by (metis option.distinct(1) run.inject)
  then have keys': "\<forall>k \<in> fst ` set before \<union> fst ` set after. untouched before k = untouched after k"
    by (auto simp: list_all_iff)
  from assms keys obtain B A hd where t: "by_tag before ''outbounds'' = Some B" "by_tag after ''outbounds'' = Some A"
      "head_tag before = Some hd" "head_tag after = Some hd"
    unfolding hot_swap_objects_def by (auto split: option.splits if_splits)
  define ch where "ch = changed_outbounds B A"
  from assms keys t have c: "check_changed hd B ch = Done True"
    and w: "\<not> list_ex (\<lambda>e. map_of B (fst e) = None \<and> is_wireguard (snd e)) A"
      "\<not> list_ex (\<lambda>e. map_of A (fst e) = None \<and> is_wireguard (snd e)) B"
    unfolding hot_swap_objects_def by (auto simp: Let_def ch_def split: if_splits)
  from assms keys t c w obtain br ar where r: "routing_rules before = Some br" "routing_rules after = Some ar"
      "valid_tags [] ar"
    unfolding hot_swap_objects_def by (auto simp: Let_def ch_def split: option.splits if_splits)
  from assms keys t c w r have "\<exists>x. (if ch = [] then Done (Some None)
        else run_bind (endpoint_swap_plan before after ch br ar) (\<lambda>plan. Done (map_option Some plan))) = Done x \<and>
     (case x of None \<Rightarrow> Done None
      | Some swap \<Rightarrow>
       (case (if br = ar \<and> swap = None then Some None else map_option Some (map_of after ''routing'')) of
         None \<Rightarrow> Done None
       | Some reload \<Rightarrow> Done (Some
            \<lparr>hs_add_outbounds = map snd (filter (\<lambda>e. map_of B (fst e) = None) A),
             hs_remove_outbounds = map fst (filter (\<lambda>e. map_of A (fst e) = None) B),
             hs_reload_routing = reload, hs_endpoint_swap = swap\<rparr>))) = Done (Some h)"
    by (simp add: hot_swap_objects_def Let_def ch_def cong: if_cong)
  then obtain swap where s:
      "(if ch = [] then Done (Some None)
        else run_bind (endpoint_swap_plan before after ch br ar) (\<lambda>plan. Done (map_option Some plan))) =
       Done (Some swap)"
    and h: "(case (if br = ar \<and> swap = None then Some None else map_option Some (map_of after ''routing'')) of
         None \<Rightarrow> Done None
       | Some reload \<Rightarrow> Done (Some
            \<lparr>hs_add_outbounds = map snd (filter (\<lambda>e. map_of B (fst e) = None) A),
             hs_remove_outbounds = map fst (filter (\<lambda>e. map_of A (fst e) = None) B),
             hs_reload_routing = reload, hs_endpoint_swap = swap\<rparr>)) = Done (Some h)"
    by (auto simp del: if_split split: option.splits)
  show thesis
  proof (rule that [OF keys' t c [unfolded ch_def] _ _ r])
    show "\<forall>e \<in> set A. map_of B (fst e) = None \<longrightarrow> \<not> is_wireguard (snd e)"
      "\<forall>e \<in> set B. map_of A (fst e) = None \<longrightarrow> \<not> is_wireguard (snd e)"
      using w by (auto simp: list_ex_iff)
    have sw: "hs_endpoint_swap h = swap" using h by (auto split: option.splits)
    show "case hs_endpoint_swap h of None \<Rightarrow> changed_outbounds B A = []
         | Some swap \<Rightarrow> changed_outbounds B A \<noteq> [] \<and>
             endpoint_swap_plan before after (changed_outbounds B A) br ar = Done (Some swap)"
      using s unfolding sw ch_def [symmetric] by (auto split: if_splits option.splits)
    show "hs_reload_routing h =
      (if br = ar \<and> hs_endpoint_swap h = None then None else map_of after ''routing'')"
      using h unfolding sw by (auto split: if_splits option.splits)
    show "hs_add_outbounds h = map snd (new_outbounds B A)"
      "hs_remove_outbounds h = map fst (new_outbounds A B)"
      using h unfolding new_outbounds_def by (auto split: option.splits)
  qed
qed

section \<open>Running a plan\<close>

definition runs :: "(xray \<Rightarrow> bool) \<Rightarrow> hot_swap_operation list \<Rightarrow> xray \<Rightarrow> xray \<Rightarrow> bool" where
  "runs P ops x y \<longleftrightarrow>
     (\<exists>trace. exec_trace ops x = Some trace \<and> last trace = y \<and> (\<forall>s \<in> set trace. P s))"

lemma exec_trace_ne: "exec_trace ops x = Some trace \<Longrightarrow> trace \<noteq> [] \<and> hd trace = x"
  by (cases ops) (auto simp: bind_eq_Some_conv)

lemma runs_Nil: "P x \<Longrightarrow> runs P [] x x"
  by (simp add: runs_def)

lemma runs_Cons:
  assumes "exec_op op x = Some y" and "P x" and "runs P ops y z"
  shows "runs P (op # ops) x z"
proof -
  obtain trace where "exec_trace ops y = Some trace" "last trace = z" "\<forall>s \<in> set trace. P s"
    using assms(3) by (auto simp: runs_def)
  with assms(1,2) exec_trace_ne [of ops y trace] show ?thesis by (auto simp: runs_def)
qed

lemma runs_append:
  assumes "runs P a x y" and "runs P b y z"
  shows "runs P (a @ b) x z"
proof -
  obtain trace where "exec_trace a x = Some trace" "last trace = y" "\<forall>s \<in> set trace. P s"
    using assms(1) by (auto simp: runs_def)
  then show ?thesis
  proof (induction a arbitrary: x trace)
    case Nil
    then have "x = y" by auto
    with assms(2) show ?case by simp
  next
    case (Cons op ops)
    then obtain x' trace' where "exec_op op x = Some x'" "exec_trace ops x' = Some trace'" "trace = x # trace'"
      by (auto simp: bind_eq_Some_conv)
    moreover from this have "trace' \<noteq> []" using exec_trace_ne by blast
    ultimately show ?case using Cons.IH [of x' trace'] Cons.prems by (auto intro!: runs_Cons)
  qed
qed

definition targets :: "json \<Rightarrow> string set" where
  "targets routing = {t. \<exists>rule \<in> set (rules_of routing). rule_target rule = Some t}"

lemma no_dangling_targets: "no_dangling x \<longleftrightarrow> targets (xr_routing x) \<subseteq> dom (xr_outbounds x)"
  by (auto simp: no_dangling_def targets_def)

lemma carries_no_dangling:
  assumes "carries c s"
  shows "no_dangling s"
  unfolding no_dangling_def
proof (intro ballI allI impI)
  fix rule t
  assume rule: "rule \<in> set (rules_of (xr_routing s))" and t: "rule_target rule = Some t"
  obtain i where "i < length (rules_of (xr_routing s))" "rule = rules_of (xr_routing s) ! i"
    using rule by (auto simp: in_set_conv_nth)
  with assms have "carries_rule c s rule (rules_of (xr_routing c) ! i)"
    by (simp add: carries_def list_all2_conv_all_nth)
  with t show "xr_outbounds s t \<noteq> None" by (auto simp: carries_rule_def split: option.splits)
qed

lemma carries_same:
  assumes "xr_routing s = xr_routing c" and "targets (xr_routing c) \<subseteq> dom (xr_outbounds c)"
    and "\<And>t. xr_outbounds c t \<noteq> None \<Longrightarrow> xr_outbounds s t = xr_outbounds c t"
  shows "carries c s"
  unfolding carries_def assms(1)
proof (rule list.rel_refl_strong)
  fix rule assume rule: "rule \<in> set (rules_of (xr_routing c))"
  show "carries_rule c s rule rule"
  proof (cases "rule_target rule")
    case (Some t)
    with rule assms(2) obtain e where "xr_outbounds c t = Some e" by (auto simp: targets_def)
    with assms(3) [of t] Some show ?thesis by (simp add: carries_rule_def same_but_tag_def)
  qed (simp add: carries_rule_def)
qed

lemma bridge_rule_other:
  assumes "bridge_rule ch (i, rule) = Done b" and "k \<noteq> ''ruleTag''" and "k \<noteq> ''outboundTag''"
  shows "jget k b = jget k rule"
  using assms jset_other [OF _ assms(2)] jset_other [OF _ assms(3)]
  by (auto simp: bridge_rule_def split: option.splits if_splits)

text \<open>Behind the bridge: a rule leads to the alias of a changed outbound, or where it led before.\<close>

lemma carries_bridge:
  assumes "run_map (bridge_rule ch) (enumerate 0 (rules_of (xr_routing c))) = Done (rules_of (xr_routing s))"
    and "\<And>t. t \<in> targets (xr_routing c) \<Longrightarrow> \<exists>e e'. xr_outbounds c t = Some e' \<and> same_but_tag e e' \<and>
        xr_outbounds s (if map_of ch t \<noteq> None then t @ ENDPOINT_SWAP_SUFFIX else t) = Some e"
  shows "carries c s"
  unfolding carries_def list_all2_conv_all_nth
proof (intro conjI allI impI)
  from assms(1) have all: "list_all2 (\<lambda>x y. bridge_rule ch x = Done y) (enumerate 0 (rules_of (xr_routing c)))
      (rules_of (xr_routing s))"
    by (simp add: run_map_Done_iff)
  then show len: "length (rules_of (xr_routing s)) = length (rules_of (xr_routing c))"
    by (auto dest: list_all2_lengthD)
  fix i assume i: "i < length (rules_of (xr_routing s))"
  let ?w = "rules_of (xr_routing c) ! i"
  from all i len have b: "bridge_rule ch (i, ?w) = Done (rules_of (xr_routing s) ! i)"
    by (auto simp: list_all2_conv_all_nth nth_enumerate_eq)
  show "carries_rule c s (rules_of (xr_routing s) ! i) ?w"
  proof (cases "rule_target ?w")
    case (Some t)
    then have "t \<in> targets (xr_routing c)" using i len by (force simp: targets_def)
    from assms(2) [OF this] show ?thesis
      using bridge_rule_target [OF b] bridge_rule_other [OF b] Some by (fastforce simp: carries_rule_def)
  qed (use bridge_rule_target [OF b] bridge_rule_other [OF b] in \<open>simp add: carries_rule_def\<close>)
qed

lemma ends_with_append [simp]: "ends_with (t @ s) s"
  by (simp add: ends_with_iff)

lemma bridgeable_no_suffix:
  assumes "config_bridgeable ch rules config" and "by_tag config ''outbounds'' = Some m"
    and "map_of m t = Some e"
  shows "\<not> ends_with t ENDPOINT_SWAP_SUFFIX"
proof -
  obtain es where es: "map_of config ''outbounds'' = Some (JArray es)" "e \<in> set es" "outbound_tag e = Some t"
    using by_tag_table(3) [OF assms(2,3)] by blast
  from es(3) have "as_str (jindex e ''tag'') = Some t" by (auto simp: outbound_tag_def bind_eq_Some_conv)
  with assms(1) es(1,2) show ?thesis by (auto simp: config_bridgeable_def list_all_iff split: option.splits)
qed

text \<open>The routing of a plan that leaves the rules alone is the desired one.\<close>

lemma routing_unchanged:
  assumes "untouched before ''routing'' = untouched after ''routing''"
    and "routing_rules before = Some rs" and "routing_rules after = Some rs"
    and "json_ok (JObject before)" and "json_ok (JObject after)"
  shows "map_of before ''routing'' = map_of after ''routing''"
proof -
  from assms(2) obtain b where b: "map_of before ''routing'' = Some (JObject b)"
    "map_of b ''rules'' = Some (JArray rs)"
    by (auto simp: routing_rules_def bind_eq_Some_conv jget_Some)
  from assms(3) obtain a where a: "map_of after ''routing'' = Some (JObject a)"
    "map_of a ''rules'' = Some (JArray rs)"
    by (auto simp: routing_rules_def bind_eq_Some_conv jget_Some)
  have del: "bdel ''rules'' b = bdel ''rules'' a"
    using assms(1) a b by (simp add: untouched_def)
  have "json_ok (JObject b)" by (rule json_ok_get [OF assms(4), of "''routing''"]) (simp add: b)
  moreover have "json_ok (JObject a)" by (rule json_ok_get [OF assms(5), of "''routing''"]) (simp add: a)
  ultimately have ok: "bmap_ok b" "bmap_ok a" by simp_all
  have "map_of b k = map_of a k" for k
    using arg_cong [OF del, of "\<lambda>m. map_of m k"] a(2) b(2) by (cases "k = ''rules''") simp_all
  with ok have "b = a" by (intro bmap_eqI) auto
  with a b show ?thesis by simp
qed

text \<open>The steps of a bridged replacement, whatever predicate holds of all its states.\<close>

lemma swap_runs:
  assumes "exec_op op1 x0 = Some x1" and "exec_op op2 x1 = Some x2" and "exec_op op3 x2 = Some x3"
    and "exec_op op4 x3 = Some x4" and "exec_op op5 x4 = Some x5" and "exec_op op6 x5 = Some x6"
    and "P x0" and "P x1" and "P x2" and "P x3" and "P x4" and "P x5" and "P x6"
  shows "runs P [op1, op2, op3, op4, op5, op6] x0 x6"
  by (rule runs_Cons [OF assms(1) _ runs_Cons [OF assms(2) _ runs_Cons [OF assms(3) _
      runs_Cons [OF assms(4) _ runs_Cons [OF assms(5) _ runs_Cons [OF assms(6) _ runs_Nil]]]]]])
    (fact assms)+

lemma new_lookup:
  "table_ok A \<Longrightarrow> map_of (new_outbounds B A) t = (if map_of B t = None then map_of A t else None)"
  by (simp add: new_outbounds_def map_of_filter_entry table_ok_def split: option.split)

lemma changed_lookup:
  "table_ok A \<Longrightarrow> map_of (changed_outbounds B A) t =
     (case map_of A t of
        Some v \<Rightarrow> (case map_of B t of Some w \<Rightarrow> if w \<noteq> v then Some v else None | None \<Rightarrow> None)
      | None \<Rightarrow> None)"
  by (simp add: changed_outbounds_def map_of_filter_entry table_ok_def split: option.split)

lemma new_ok: "table_ok A \<Longrightarrow> table_ok (new_outbounds B A)"
  by (simp add: new_outbounds_def table_ok_filter)

lemma changed_ok: "table_ok A \<Longrightarrow> table_ok (changed_outbounds B A)"
  by (simp add: changed_outbounds_def table_ok_filter)

lemma in_keys: "t \<in> fst ` set (m :: jobject) \<longleftrightarrow> map_of m t \<noteq> None"
  by (simp add: map_of_eq_None_iff)

text \<open>Adding what is new leaves every old outbound in place.\<close>

lemma step_adds:
  assumes "table_ok A"
  shows "exec_op (AddOutbounds (map snd (new_outbounds B A))) \<lparr>xr_outbounds = map_of B, xr_routing = r\<rparr> =
     Some \<lparr>xr_outbounds = map_of B ++ map_of (new_outbounds B A), xr_routing = r\<rparr>"
proof -
  have "map_of B t = None" if "t \<in> fst ` set (new_outbounds B A)" for t
    using that assms unfolding in_keys by (simp add: new_lookup split: if_splits)
  from add_all_table [OF new_ok [OF assms] this] show ?thesis by simp
qed

lemma with_new:
  "table_ok A \<Longrightarrow> (map_of B ++ map_of (new_outbounds B A)) t =
     (case map_of B t of Some v \<Rightarrow> Some v | None \<Rightarrow> map_of A t)"
  by (simp add: map_add_def new_lookup split: option.split)

text \<open>
  Removing what is gone from a table that has the desired entries over the old ones leaves
  the desired table.
\<close>

lemma step_rems:
  assumes "table_ok B"
    and m: "\<And>t. m t = (case map_of A t of Some v \<Rightarrow> Some v | None \<Rightarrow> map_of B t)"
  shows "exec_op (RemoveOutbounds (map fst (new_outbounds A B))) \<lparr>xr_outbounds = m, xr_routing = r\<rparr> =
     Some \<lparr>xr_outbounds = map_of A, xr_routing = r\<rparr>"
proof -
  let ?ts = "map fst (new_outbounds A B)"
  have mem: "t \<in> set ?ts \<longleftrightarrow> map_of A t = None \<and> map_of B t \<noteq> None" for t
    using in_keys [of t "new_outbounds A B"] assms(1) by (simp add: new_lookup)
  have "distinct ?ts" using new_ok [OF assms(1), of A] by (simp add: table_ok_def)
  moreover have "m t \<noteq> None" if "t \<in> set ?ts" for t
    using that unfolding mem m by auto
  ultimately have "remove_all ?ts m = Some (m |` (- set ?ts))"
    by (intro remove_all_table)
  moreover have "(m |` (- set ?ts)) t = map_of A t" for t
    unfolding restrict_map_def Compl_iff mem m by (auto split: option.splits)
  ultimately show ?thesis by (auto simp: fun_eq_iff)
qed

lemma no_rems:
  assumes "table_ok B" and "\<And>t. m t = (case map_of A t of Some v \<Rightarrow> Some v | None \<Rightarrow> map_of B t)"
    and "new_outbounds A B = []"
  shows "m = map_of A"
proof
  fix t
  have "map_of (new_outbounds A B) t = None" by (simp add: assms(3))
  then show "m t = map_of A t"
    using assms(1) by (auto simp: new_lookup assms(2) split: option.splits if_splits)
qed

lemma head_in_table:
  assumes "head_tag config = Some t" and "by_tag config ''outbounds'' = Some m"
  shows "map_of m t \<noteq> None"
proof -
  from assms(1) obtain xs where "map_of config ''outbounds'' = Some (JArray xs)"
    and "Option.bind (case xs of [] \<Rightarrow> None | x # _ \<Rightarrow> Some x) outbound_tag = Some t"
    by (auto simp: head_tag_def outbound_tag_def bind_eq_Some_conv)
  then obtain e es where "map_of config ''outbounds'' = Some (JArray (e # es))"
    and "outbound_tag e = Some t"
    by (cases xs) auto
  with by_tag_table(4) [OF assms(2), of "e # es" e t] show ?thesis by simp
qed

text \<open>The names a plan gives its bridges clash with nothing.\<close>

lemma bridge_keys:
  assumes "table_ok ch" and "run_map bridge_outbound (map snd ch) = Done bridges"
  shows "map_of (bridge_table ch bridges) t \<noteq> None \<longleftrightarrow>
    (\<exists>u. t = u @ ENDPOINT_SWAP_SUFFIX \<and> map_of ch u \<noteq> None)"
proof -
  have "map_of (bridge_table ch bridges) t \<noteq> None \<longleftrightarrow> t \<in> fst ` set (bridge_table ch bridges)"
    by (simp only: in_keys)
  also have "\<dots> \<longleftrightarrow> (\<exists>u \<in> fst ` set ch. t = u @ ENDPOINT_SWAP_SUFFIX)"
    unfolding bridge_table_ok(4) [OF assms] by auto
  finally show ?thesis unfolding Bex_def in_keys by blast
qed

lemma bridge_table_lookup:
  assumes "table_ok ch" and "run_map bridge_outbound (map snd ch) = Done bridges" and "map_of ch t = Some e"
  shows "\<exists>b. map_of (bridge_table ch bridges) (t @ ENDPOINT_SWAP_SUFFIX) = Some b \<and> same_but_tag b e"
proof -
  obtain i where i: "i < length ch" "ch ! i = (t, e)"
    using map_of_SomeD [OF assms(3)] by (auto simp: in_set_conv_nth)
  have all2: "list_all2 (\<lambda>e b. bridge_outbound (snd e) = Done b) ch bridges"
    using assms(2) by (simp add: run_map_Done_iff list_all2_map1)
  then have b: "i < length bridges" "bridge_outbound e = Done (bridges ! i)"
    using i by (auto simp: list_all2_conv_all_nth)
  have "(t @ ENDPOINT_SWAP_SUFFIX, bridges ! i) \<in> set (bridge_table ch bridges)"
    using i b(1) by (force simp: bridge_table_def in_set_conv_nth)
  moreover have "distinct (map fst (bridge_table ch bridges))"
    using bridge_table_ok(1) [OF assms(1,2)] by (simp add: table_ok_def)
  moreover have "outbound_tag e = Some t" using assms(1) i by (metis fst_conv nth_mem snd_conv table_ok_def)
  then have "same_but_tag (bridges ! i) e"
    unfolding same_but_tag_def using bridge_outbound_Done(2) [OF b(2)] by blast
  ultimately show ?thesis by auto
qed

lemma bridged_run:
  fixes B A :: jobject and r0 r1 :: json
  defines "ch \<equiv> changed_outbounds B A"
    and "m1 \<equiv> map_of B ++ map_of (new_outbounds B A)"
  assumes A: "table_ok A"
    and suffix: "\<And>t. map_of B t \<noteq> None \<or> map_of A t \<noteq> None \<Longrightarrow> \<not> ends_with t ENDPOINT_SWAP_SUFFIX"
    and bo: "run_map bridge_outbound (map snd ch) = Done bridges"
    and br: "run_map (bridge_rule ch) (enumerate 0 (rules_of r1)) = Done brules"
    and rb: "jset ''rules'' (JArray brules) r1 = Done rb"
    and hd: "map_of B d0 \<noteq> None" "map_of ch d0 = None"
  defines "P \<equiv> \<lambda>s. xr_outbounds s d0 = map_of B d0 \<and>
      (targets r0 \<subseteq> dom (map_of B) \<and> targets r1 \<subseteq> dom (map_of A) \<longrightarrow>
        carries \<lparr>xr_outbounds = map_of B, xr_routing = r0\<rparr> s \<or> carries \<lparr>xr_outbounds = map_of A, xr_routing = r1\<rparr> s)"
  shows "\<exists>m. runs P [AddOutbounds bridges, ReloadRouting rb, RemoveOutbounds (map fst ch),
          AddOutbounds (map snd ch), ReloadRouting r1,
          RemoveOutbounds (map fst (bridge_table ch bridges))]
        \<lparr>xr_outbounds = m1, xr_routing = r0\<rparr> \<lparr>xr_outbounds = m, xr_routing = r1\<rparr> \<and>
      (\<forall>t. m t = (case map_of A t of Some v \<Rightarrow> Some v | None \<Rightarrow> map_of B t))"
proof -
  let ?bt = "bridge_table ch bridges"
  define m2 where "m2 = m1 ++ map_of ?bt"
  define m3 where "m3 = m2 |` (- set (map fst ch))"
  define m4 where "m4 = m3 ++ map_of ch"
  define m5 where "m5 = m4 |` (- set (map fst ?bt))"
  have ch: "table_ok ch" unfolding ch_def by (rule changed_ok [OF A])
  note bt = bridge_table_ok [OF ch bo]
  note bkeys = bridge_keys [OF ch bo]
  have m1: "m1 t = (case map_of B t of Some v \<Rightarrow> Some v | None \<Rightarrow> map_of A t)" for t
    unfolding m1_def by (rule with_new [OF A])
  have chl: "map_of ch t = (case map_of A t of
      Some v \<Rightarrow> (case map_of B t of Some w \<Rightarrow> if w \<noteq> v then Some v else None | None \<Rightarrow> None)
    | None \<Rightarrow> None)" for t
    unfolding ch_def by (rule changed_lookup [OF A])
  have ch_A: "map_of ch t \<noteq> None \<Longrightarrow> map_of A t \<noteq> None \<and> map_of B t \<noteq> None" for t
    unfolding chl by (auto split: option.splits)
  have bt_new: "map_of ?bt t \<noteq> None \<Longrightarrow> map_of A t = None \<and> map_of B t = None" for t
    using suffix unfolding bkeys by (metis ends_with_append)
  have bt_ch: "map_of ?bt t \<noteq> None \<Longrightarrow> map_of ch t = None" for t
    using bt_new ch_A by blast
  have m2: "m2 t = (case map_of ?bt t of Some v \<Rightarrow> Some v | None \<Rightarrow> m1 t)" for t
    by (simp add: m2_def map_add_def)
  have keys_ch: "t \<in> set (map fst ch) \<longleftrightarrow> map_of ch t \<noteq> None" for t using in_keys [of t ch] by simp
  have keys_bt: "t \<in> set (map fst ?bt) \<longleftrightarrow> map_of ?bt t \<noteq> None" for t using in_keys [of t ?bt] by simp
  have m3: "m3 t = (if map_of ch t \<noteq> None then None else m2 t)" for t
    unfolding m3_def restrict_map_def Compl_iff keys_ch by simp
  have m4: "m4 t = (case map_of ch t of Some v \<Rightarrow> Some v | None \<Rightarrow> m2 t)" for t
    by (simp add: m4_def map_add_def m3 split: option.split)
  have m5: "m5 t = (if map_of ?bt t \<noteq> None then None else m4 t)" for t
    unfolding m5_def restrict_map_def Compl_iff keys_bt by simp
  have final: "m5 t = (case map_of A t of Some v \<Rightarrow> Some v | None \<Rightarrow> map_of B t)" for t
    using bt_new [of t] by (auto simp: m5 m4 m2 m1 chl split: option.splits if_splits)
  have step1: "exec_op (AddOutbounds bridges) \<lparr>xr_outbounds = m1, xr_routing = r0\<rparr> =
      Some \<lparr>xr_outbounds = m2, xr_routing = r0\<rparr>"
  proof -
    have "m1 t = None" if "t \<in> fst ` set ?bt" for t
      using that bt_new [of t] unfolding in_keys m1 by simp
    from add_all_table [OF bt(1) this] show ?thesis by (simp add: bt(3) m2_def)
  qed
  have step3: "exec_op (RemoveOutbounds (map fst ch)) \<lparr>xr_outbounds = m2, xr_routing = rb\<rparr> =
      Some \<lparr>xr_outbounds = m3, xr_routing = rb\<rparr>"
  proof -
    have "m2 t \<noteq> None" if "t \<in> set (map fst ch)" for t
      using that ch_A [of t] unfolding keys_ch by (auto simp: m2 m1 split: option.splits)
    with remove_all_table [of "map fst ch" m2] ch show ?thesis by (simp add: m3_def table_ok_def)
  qed
  have step4: "exec_op (AddOutbounds (map snd ch)) \<lparr>xr_outbounds = m3, xr_routing = rb\<rparr> =
      Some \<lparr>xr_outbounds = m4, xr_routing = rb\<rparr>"
  proof -
    have "m3 t = None" if "t \<in> fst ` set ch" for t using that unfolding in_keys m3 by simp
    from add_all_table [OF ch this] show ?thesis by (simp add: m4_def)
  qed
  have step6: "exec_op (RemoveOutbounds (map fst ?bt)) \<lparr>xr_outbounds = m4, xr_routing = r1\<rparr> =
      Some \<lparr>xr_outbounds = m5, xr_routing = r1\<rparr>"
  proof -
    have "m4 t \<noteq> None" if "t \<in> set (map fst ?bt)" for t
      using that unfolding keys_bt m4 m2 by (auto split: option.splits)
    with remove_all_table [of "map fst ?bt" m4] bt(1) show ?thesis by (simp add: m5_def table_ok_def)
  qed
  have rules_rb: "rules_of rb = brules" using jset_Done [OF rb] by (simp add: rules_of_def)
  have bt_hd: "map_of ?bt d0 = None" using bt_new [of d0] hd(1) by blast
  have hds: "m1 d0 = map_of B d0" "m2 d0 = map_of B d0" "m3 d0 = map_of B d0" "m4 d0 = map_of B d0"
      "m5 d0 = map_of B d0"
    using hd bt_hd by (auto simp: m5 m4 m3 m2 m1 split: option.splits)
  have old: "P \<lparr>xr_outbounds = m, xr_routing = r0\<rparr>"
    if "m d0 = map_of B d0" and "\<And>t. map_of B t \<noteq> None \<Longrightarrow> m t = map_of B t" for m
    using that by (auto simp: P_def intro!: carries_same)
  have new: "P \<lparr>xr_outbounds = m, xr_routing = r1\<rparr>"
    if "m d0 = map_of B d0" and "\<And>t. map_of A t \<noteq> None \<Longrightarrow> m t = map_of A t" for m
    using that by (auto simp: P_def intro!: carries_same)
  have bridged: "P \<lparr>xr_outbounds = m, xr_routing = rb\<rparr>"
    if hd: "m d0 = map_of B d0" and other: "\<And>t. map_of ?bt t \<noteq> None \<Longrightarrow> m t = map_of ?bt t"
      and same: "\<And>t. map_of A t \<noteq> None \<Longrightarrow> map_of ch t = None \<Longrightarrow> m t = map_of A t" for m
  proof -
    have "carries \<lparr>xr_outbounds = map_of A, xr_routing = r1\<rparr> \<lparr>xr_outbounds = m, xr_routing = rb\<rparr>"
      if t: "targets r1 \<subseteq> dom (map_of A)"
    proof (rule carries_bridge [where ch = ch])
      show "run_map (bridge_rule ch) (enumerate 0 (rules_of (xr_routing \<lparr>xr_outbounds = map_of A, xr_routing = r1\<rparr>))) =
          Done (rules_of (xr_routing \<lparr>xr_outbounds = m, xr_routing = rb\<rparr>))"
        using br rules_rb by simp
      fix t assume "t \<in> targets (xr_routing \<lparr>xr_outbounds = map_of A, xr_routing = r1\<rparr>)"
      with t obtain e where e: "map_of A t = Some e" by auto
      show "\<exists>e e'. xr_outbounds \<lparr>xr_outbounds = map_of A, xr_routing = r1\<rparr> t = Some e' \<and> same_but_tag e e' \<and>
          xr_outbounds \<lparr>xr_outbounds = m, xr_routing = rb\<rparr>
            (if map_of ch t \<noteq> None then t @ ENDPOINT_SWAP_SUFFIX else t) = Some e"
      proof (cases "map_of ch t")
        case None
        with e same [of t] show ?thesis by (simp add: same_but_tag_def)
      next
        case (Some v)
        then have "v = e" using e by (auto simp: chl split: option.splits if_splits)
        with Some bridge_table_lookup [OF ch bo] e other [of "t @ ENDPOINT_SWAP_SUFFIX"] show ?thesis by fastforce
      qed
    qed
    with hd show ?thesis by (simp add: P_def)
  qed
  have "runs P [AddOutbounds bridges, ReloadRouting rb, RemoveOutbounds (map fst ch),
          AddOutbounds (map snd ch), ReloadRouting r1, RemoveOutbounds (map fst ?bt)]
        \<lparr>xr_outbounds = m1, xr_routing = r0\<rparr> \<lparr>xr_outbounds = m5, xr_routing = r1\<rparr>"
  proof (rule swap_runs [OF step1 _ step3 step4 _ step6])
    have mB: "m1 t = map_of B t" "m2 t = map_of B t" if "map_of B t \<noteq> None" for t
      using that bt_new [of t] by (cases "map_of ?bt t"; auto simp: m2 m1 split: option.splits)+
    then show "P \<lparr>xr_outbounds = m1, xr_routing = r0\<rparr>" and "P \<lparr>xr_outbounds = m2, xr_routing = r0\<rparr>"
      by (auto intro!: old hds)
    have al: "m2 t = map_of ?bt t" "m3 t = map_of ?bt t" "m4 t = map_of ?bt t" if "map_of ?bt t \<noteq> None" for t
      using that bt_ch [of t] by (auto simp: m4 m3 m2 split: option.splits)
    have sm: "m2 t = map_of A t" "m3 t = map_of A t" "m4 t = map_of A t"
      if "map_of A t \<noteq> None" "map_of ch t = None" for t
      using that bt_new [of t] unfolding chl
      by (cases "map_of ?bt t"; auto simp: m4 m3 m2 m1 chl split: option.splits if_splits)+
    show "P \<lparr>xr_outbounds = m2, xr_routing = rb\<rparr>" and "P \<lparr>xr_outbounds = m3, xr_routing = rb\<rparr>"
      and "P \<lparr>xr_outbounds = m4, xr_routing = rb\<rparr>"
      by (intro bridged hds al sm; assumption)+
    have mA: "m4 t = map_of A t" "m5 t = map_of A t" if "map_of A t \<noteq> None" for t
    proof -
      show "m5 t = map_of A t" using that by (auto simp: final)
      then show "m4 t = map_of A t" using bt_new [of t] that by (auto simp: m5 split: if_splits)
    qed
    show "P \<lparr>xr_outbounds = m4, xr_routing = r1\<rparr>" and "P \<lparr>xr_outbounds = m5, xr_routing = r1\<rparr>"
      by (intro new hds mA; assumption)+
  qed simp_all
  with final show ?thesis by blast
qed

text \<open>
  The invariant of a run: the default outbound stays what it was, and when both configurations
  route into installed outbounds, every state in between carries what one of them demands.
\<close>

definition swap_invariant :: "jobject \<Rightarrow> jobject \<Rightarrow> xray \<Rightarrow> bool" where
  "swap_invariant before after s \<longleftrightarrow>
     (\<forall>t. head_tag before = Some t \<longrightarrow> xr_outbounds s t = xr_outbounds (xray_of before) t \<and> xr_outbounds s t \<noteq> None) \<and>
     (no_dangling (xray_of before) \<and> no_dangling (xray_of after) \<longrightarrow>
        carries (xray_of before) s \<or> carries (xray_of after) s)"

lemma run_if:
  assumes "\<not> b \<Longrightarrow> x = y" and "b \<Longrightarrow> exec_op op x = Some y" and "P x" and "P y"
  shows "runs P (if b then [op] else []) x y"
  using assms by (auto intro: runs_Cons runs_Nil)

lemma hot_swap_runs:
  assumes ok: "json_ok (JObject before)" "json_ok (JObject after)"
    and h: "hot_swap_objects before after = Done (Some h)"
  shows "\<exists>ops. operations h = Done ops \<and>
    runs (swap_invariant before after) ops (xray_of before) (xray_of after)"
proof -
  from h obtain B A d0 br ar where
    keys: "\<forall>k \<in> fst ` set before \<union> fst ` set after. untouched before k = untouched after k"
    and tab: "by_tag before ''outbounds'' = Some B" "by_tag after ''outbounds'' = Some A"
    and hdt: "head_tag before = Some d0" "head_tag after = Some d0"
    and chk: "check_changed d0 B (changed_outbounds B A) = Done True"
    and "\<forall>e \<in> set A. map_of B (fst e) = None \<longrightarrow> \<not> is_wireguard (snd e)"
    and "\<forall>e \<in> set B. map_of A (fst e) = None \<longrightarrow> \<not> is_wireguard (snd e)"
    and rules: "routing_rules before = Some br" "routing_rules after = Some ar"
    and "valid_tags [] ar"
    and swap: "case hs_endpoint_swap h of None \<Rightarrow> changed_outbounds B A = []
         | Some swap \<Rightarrow> changed_outbounds B A \<noteq> [] \<and>
             endpoint_swap_plan before after (changed_outbounds B A) br ar = Done (Some swap)"
    and reload: "hs_reload_routing h =
      (if br = ar \<and> hs_endpoint_swap h = None then None else map_of after ''routing'')"
    and adds: "hs_add_outbounds h = map snd (new_outbounds B A)"
    and rems: "hs_remove_outbounds h = map fst (new_outbounds A B)"
    by (rule hot_swap_cases) (rule that)
  let ?ch = "changed_outbounds B A"
  let ?P = "swap_invariant before after"
  obtain r0 where r0: "map_of before ''routing'' = Some r0" "rules_of r0 = br"
    using rules(1) by (auto simp: routing_rules_def rules_of_def bind_eq_Some_conv)
  obtain r1 where r1: "map_of after ''routing'' = Some r1" "rules_of r1 = ar"
    using rules(2) by (auto simp: routing_rules_def rules_of_def bind_eq_Some_conv)
  have x0: "xray_of before = \<lparr>xr_outbounds = map_of B, xr_routing = r0\<rparr>"
    and x1: "xray_of after = \<lparr>xr_outbounds = map_of A, xr_routing = r1\<rparr>"
    by (simp_all add: xray_of_def tab r0 r1)
  note tB = by_tag_table(1) [OF tab(1)] and tA = by_tag_table(1) [OF tab(2)]
  have P: "?P s \<longleftrightarrow> xr_outbounds s d0 = map_of B d0 \<and>
      (targets r0 \<subseteq> dom (map_of B) \<and> targets r1 \<subseteq> dom (map_of A) \<longrightarrow>
        carries \<lparr>xr_outbounds = map_of B, xr_routing = r0\<rparr> s \<or> carries \<lparr>xr_outbounds = map_of A, xr_routing = r1\<rparr> s)" for s
    using head_in_table [OF hdt(1) tab(1)] by (auto simp: swap_invariant_def hdt x0 x1 no_dangling_targets)
  have d_ch: "map_of ?ch d0 = None"
    using check_changed_Done [OF chk] in_keys [of d0 ?ch] by simp
  have d_B: "map_of B d0 \<noteq> None" by (rule head_in_table [OF hdt(1) tab(1)])
  have d_A: "map_of A d0 = map_of B d0"
    using head_in_table [OF hdt(2) tab(2)] d_B d_ch by (auto simp: changed_lookup [OF tA] split: if_splits)
  define m1 where "m1 = map_of B ++ map_of (new_outbounds B A)"
  have m1: "m1 t = (case map_of B t of Some v \<Rightarrow> Some v | None \<Rightarrow> map_of A t)" for t
    unfolding m1_def by (rule with_new [OF tA])
  let ?x1 = "\<lparr>xr_outbounds = m1, xr_routing = r0\<rparr>"
  have Px: "?P (xray_of before)" "?P ?x1"
    using d_B by (auto simp: P x0 m1 split: option.splits intro!: carries_same)
  have "runs ?P (if hs_add_outbounds h \<noteq> [] then [AddOutbounds (hs_add_outbounds h)] else [])
    (xray_of before) ?x1"
    using Px step_adds [OF tA, of B r0] unfolding adds m1_def x0 by (intro run_if) auto
  moreover have final: "runs ?P (if hs_remove_outbounds h \<noteq> [] then [RemoveOutbounds (hs_remove_outbounds h)] else [])
      \<lparr>xr_outbounds = m, xr_routing = r1\<rparr> (xray_of after)"
    if m: "\<And>t. m t = (case map_of A t of Some v \<Rightarrow> Some v | None \<Rightarrow> map_of B t)" for m
  proof (rule run_if)
    show "\<not> hs_remove_outbounds h \<noteq> [] \<Longrightarrow> \<lparr>xr_outbounds = m, xr_routing = r1\<rparr> = xray_of after"
      using no_rems [OF tB m] by (simp add: rems x1)
    show "exec_op (RemoveOutbounds (hs_remove_outbounds h)) \<lparr>xr_outbounds = m, xr_routing = r1\<rparr> = Some (xray_of after)"
      using step_rems [OF tB m] by (simp add: rems x1)
    show "?P (xray_of after)" using d_A by (auto simp: P x1 intro!: carries_same)
    show "?P \<lparr>xr_outbounds = m, xr_routing = r1\<rparr>"
      using d_A d_B by (auto simp: P m split: option.splits intro!: carries_same)
  qed
  moreover have "\<exists>mid m. operations h = Done
      ((if hs_add_outbounds h \<noteq> [] then [AddOutbounds (hs_add_outbounds h)] else []) @ mid @
       (if hs_remove_outbounds h \<noteq> [] then [RemoveOutbounds (hs_remove_outbounds h)] else [])) \<and>
      runs ?P mid ?x1 \<lparr>xr_outbounds = m, xr_routing = r1\<rparr> \<and>
      (\<forall>t. m t = (case map_of A t of Some v \<Rightarrow> Some v | None \<Rightarrow> map_of B t))"
  proof (cases "hs_endpoint_swap h")
    case None
    with swap have ch0: "?ch = []" by simp
    have same: "m1 t = (case map_of A t of Some v \<Rightarrow> Some v | None \<Rightarrow> map_of B t)" for t
    proof -
      have "map_of ?ch t = None" by (simp add: ch0)
      then show ?thesis unfolding changed_lookup [OF tA] m1 by (auto split: option.splits if_splits)
    qed
    have "runs ?P (case hs_reload_routing h of Some routing \<Rightarrow> [ReloadRouting routing] | None \<Rightarrow> [])
      ?x1 \<lparr>xr_outbounds = m1, xr_routing = r1\<rparr>"
    proof (cases "br = ar")
      case True
      have "untouched before ''routing'' = untouched after ''routing''"
        using r0(1) by (intro bspec [OF keys]) (auto dest!: map_of_SomeD simp: rev_image_eqI)
      from routing_unchanged [OF this _ _ ok, of ar] True rules r0 r1 have "r0 = r1" by simp
      with True None reload Px show ?thesis by (simp add: runs_Nil)
    next
      case False
      have "?P \<lparr>xr_outbounds = m1, xr_routing = r1\<rparr>"
        using d_A d_B same by (auto simp: P split: option.splits intro!: carries_same)
      with False Px show ?thesis by (auto simp: reload r1 intro!: runs_Cons runs_Nil)
    qed
    with None same show ?thesis
      by (intro exI [of _ "case hs_reload_routing h of Some routing \<Rightarrow> [ReloadRouting routing] | None \<Rightarrow> []"]
          exI [of _ m1]) (simp add: operations_def)
  next
    case (Some sw)
    with swap have plan: "endpoint_swap_plan before after ?ch br ar = Done (Some sw)" by simp
    then obtain bo brs where bo: "run_map bridge_outbound (map snd ?ch) = Done bo"
      and brs: "run_map (bridge_rule ?ch) (enumerate 0 ar) = Done brs"
      and sw: "sw = \<lparr>es_outbounds = map snd ?ch, es_bridge_outbounds = bo, es_bridge_rules = brs\<rparr>"
      and bridgeable: "config_bridgeable ?ch (br @ ar) before" "config_bridgeable ?ch (br @ ar) after"
      by (auto simp: endpoint_swap_plan_def split: if_splits)
    have suffix: "\<not> ends_with t ENDPOINT_SWAP_SUFFIX" if "map_of B t \<noteq> None \<or> map_of A t \<noteq> None" for t
      using that bridgeable_no_suffix [OF bridgeable(1) tab(1)] bridgeable_no_suffix [OF bridgeable(2) tab(2)]
      by blast
    obtain ro where ro: "r1 = JObject ro"
      using r1(1) rules(2) by (auto simp: routing_rules_def bind_eq_Some_conv jget_Some)
    define rb where "rb = JObject (bput ''rules'' (JArray brs) ro)"
    have rb: "jset ''rules'' (JArray brs) r1 = Done rb" by (simp add: ro rb_def)
    note ch_ok = changed_ok [OF tA, of B]
    note bt = bridge_table_ok [OF ch_ok bo]
    have tags: "tags_of (map snd ?ch) ''tag'' = Done (map fst ?ch)"
      "tags_of bo ''tag'' = Done (map fst (bridge_table ?ch bo))"
      using tags_of_map [OF ch_ok] tags_of_map [OF bt(1)] bt(3) by simp_all
    have brs': "run_map (bridge_rule ?ch) (enumerate 0 (rules_of r1)) = Done brs" using brs r1(2) by simp
    from bridged_run [OF tA suffix bo brs' rb d_B d_ch, of r0] obtain m where
      run: "runs ?P [AddOutbounds bo, ReloadRouting rb, RemoveOutbounds (map fst ?ch),
          AddOutbounds (map snd ?ch), ReloadRouting r1, RemoveOutbounds (map fst (bridge_table ?ch bo))]
        ?x1 \<lparr>xr_outbounds = m, xr_routing = r1\<rparr>"
      and m: "\<forall>t. m t = (case map_of A t of Some v \<Rightarrow> Some v | None \<Rightarrow> map_of B t)"
      unfolding P [abs_def] m1_def by blast
    have "hs_reload_routing h = Some r1" using reload Some r1(1) by simp
    with Some sw rb tags have "operations h = Done
      ((if hs_add_outbounds h \<noteq> [] then [AddOutbounds (hs_add_outbounds h)] else []) @
       [AddOutbounds bo, ReloadRouting rb, RemoveOutbounds (map fst ?ch), AddOutbounds (map snd ?ch),
        ReloadRouting r1, RemoveOutbounds (map fst (bridge_table ?ch bo))] @
       (if hs_remove_outbounds h \<noteq> [] then [RemoveOutbounds (hs_remove_outbounds h)] else []))"
      by (simp add: operations_def)
    with run m show ?thesis by blast
  qed
  ultimately show ?thesis by (metis runs_append)
qed

lemma hot_swap_parsed:
  assumes "hot_swap parse previous desired = Done (Some h)"
    and "\<And>s v. parse s = Some v \<Longrightarrow> json_ok v"
  obtains before after where "parse previous = Some (JObject before)" and "parse desired = Some (JObject after)"
    and "hot_swap_objects before after = Done (Some h)"
    and "json_ok (JObject before)" and "json_ok (JObject after)"
  using assms that by (fastforce simp: hot_swap_def bind_eq_Some_conv split: option.splits)

text \<open>C3: whatever two configurations hot_swap agrees to swap, its operations are all accepted one after the other by a runtime that refuses to add a taken tag or to remove a missing one, and leave exactly the outbounds and the routing of the desired configuration.\<close>

theorem hot_swap_reaches_desired:
  assumes "\<And>s v. parse s = Some v \<Longrightarrow> json_ok v"
    and "hot_swap parse previous desired = Done (Some h)"
  shows "\<exists>before after ops trace.
    parse previous = Some (JObject before) \<and> parse desired = Some (JObject after) \<and>
    operations h = Done ops \<and> exec_trace ops (xray_of before) = Some trace \<and> last trace = xray_of after"
proof -
  obtain before after where "parse previous = Some (JObject before)" "parse desired = Some (JObject after)"
    and h: "hot_swap_objects before after = Done (Some h)"
    and ok: "json_ok (JObject before)" "json_ok (JObject after)"
    by (rule hot_swap_parsed [OF assms(2,1)])
  with hot_swap_runs [OF ok h] show ?thesis unfolding runs_def by blast
qed

text \<open>C2: when both configurations route only into outbounds they have, no state between the first and the last operation of a swap has a rule that names an outbound that is not installed, and every state carries traffic as the previous or as the desired configuration demands: it has all the rules of that configuration with their conditions, and each leads to the outbound that configuration has for it. So while a changed outbound is removed and added again, what goes to it goes to its bridge, which is the desired outbound under another tag.\<close>

theorem hot_swap_never_dangles:
  assumes "json_ok (JObject before)" and "json_ok (JObject after)"
    and "hot_swap_objects before after = Done (Some h)"
    and "no_dangling (xray_of before)" and "no_dangling (xray_of after)"
    and "operations h = Done ops" and "exec_trace ops (xray_of before) = Some trace"
  shows "\<forall>s \<in> set trace. no_dangling s \<and> (carries (xray_of before) s \<or> carries (xray_of after) s)"
  using hot_swap_runs [OF assms(1-3)] assms(4-7) carries_no_dangling
  by (auto simp: runs_def swap_invariant_def)

text \<open>C25: the first outbound, which takes what no rule matches, is the same in both configurations and is never touched in any state of the swap.\<close>

theorem hot_swap_keeps_default:
  assumes "json_ok (JObject before)" and "json_ok (JObject after)"
    and "hot_swap_objects before after = Done (Some h)"
    and "operations h = Done ops" and "exec_trace ops (xray_of before) = Some trace"
  shows "\<exists>t. head_tag before = Some t \<and> head_tag after = Some t \<and> xr_outbounds (xray_of before) t \<noteq> None \<and>
    (\<forall>s \<in> set trace. xr_outbounds s t = xr_outbounds (xray_of before) t)"
proof -
  obtain t where t: "head_tag before = Some t" "head_tag after = Some t"
    using assms(3) by (rule hot_swap_cases) (rule that)
  have "\<forall>s \<in> set trace. swap_invariant before after s" and x: "xray_of before \<in> set trace"
    using hot_swap_runs [OF assms(1-3)] assms(4,5) exec_trace_ne [OF assms(5)]
    by (auto simp: runs_def dest: hd_in_set)
  then have "xr_outbounds s t = xr_outbounds (xray_of before) t \<and> xr_outbounds s t \<noteq> None"
    if "s \<in> set trace" for s
    using that t(1) unfolding swap_invariant_def by blast
  with t x show ?thesis by blast
qed

text \<open>A swap is agreed to only when the two configurations differ in nothing but outbounds and routing rules: every other key is equal (an absent key being null), and every other entry of the routing block.\<close>

theorem hot_swap_touches_nothing_else:
  assumes "hot_swap_objects before after = Done (Some h)"
  shows "(\<forall>k. k \<noteq> ''outbounds'' \<and> k \<noteq> ''routing'' \<longrightarrow>
      jindex (JObject before) k = jindex (JObject after) k) \<and>
    (\<forall>k. k \<noteq> ''rules'' \<longrightarrow>
      jget k (jindex (JObject before) ''routing'') = jget k (jindex (JObject after) ''routing''))"
proof -
  obtain br ar where keys: "\<forall>k \<in> fst ` set before \<union> fst ` set after. untouched before k = untouched after k"
    and r: "routing_rules before = Some br" "routing_rules after = Some ar"
    using assms by (rule hot_swap_cases) (rule that)
  have same: "untouched before k = untouched after k" for k
  proof (cases "k \<in> fst ` set before \<union> fst ` set after")
    case False
    then have "map_of before k = None" "map_of after k = None"
      by (auto simp: map_of_eq_None_iff)
    then show ?thesis by (cases "k = ''routing''") (simp_all add: untouched_def)
  qed (use keys in blast)
  obtain b a where ba: "map_of before ''routing'' = Some (JObject b)" "map_of after ''routing'' = Some (JObject a)"
    using r by (auto simp: routing_rules_def bind_eq_Some_conv jget_Some)
  have del: "bdel ''rules'' b = bdel ''rules'' a"
    using same [of "''routing''"] ba by (simp add: untouched_def)
  have "map_of b k = map_of a k" if "k \<noteq> ''rules''" for k
    using arg_cong [OF del, of "\<lambda>m. map_of m k"] that by simp
  moreover have "jindex (JObject before) k = jindex (JObject after) k"
    if "k \<noteq> ''outbounds''" and "k \<noteq> ''routing''" for k
    using same [of k] that by (simp add: untouched_def jindex_def)
  ultimately show ?thesis using ba by (simp add: jindex_def)
qed

text \<open>A configuration swapped for itself needs no operation at all.\<close>

theorem hot_swap_identical:
  assumes "hot_swap parse text text = Done (Some h)"
  shows "operations h = Done []"
proof -
  obtain c where "hot_swap_objects c c = Done (Some h)"
    using assms by (auto simp: hot_swap_def split: option.splits)
  then obtain A br where tab: "by_tag c ''outbounds'' = Some A"
    and swap: "case hs_endpoint_swap h of None \<Rightarrow> changed_outbounds A A = []
         | Some swap \<Rightarrow> changed_outbounds A A \<noteq> [] \<and>
             endpoint_swap_plan c c (changed_outbounds A A) br br = Done (Some swap)"
    and reload: "hs_reload_routing h =
      (if br = br \<and> hs_endpoint_swap h = None then None else map_of c ''routing'')"
    and "hs_add_outbounds h = map snd (new_outbounds A A)"
    and "hs_remove_outbounds h = map fst (new_outbounds A A)"
    by (elim hot_swap_cases) (metis option.inject that)
  moreover have "new_outbounds A A = []"
    by (auto simp: new_outbounds_def filter_empty_conv map_of_eq_None_iff rev_image_eqI)
  moreover have "changed_outbounds A A = []"
    using by_tag_table(1) [OF tab] by (auto simp: changed_outbounds_def filter_empty_conv table_ok_def)
  ultimately show ?thesis by (simp add: operations_def split: option.splits)
qed

lemma vless_endpoint_only_vless:
  "vless_endpoint_only old new = Done True \<Longrightarrow> \<not> is_wireguard old \<and> \<not> is_wireguard new"
  by (auto simp: vless_endpoint_only_def is_wireguard_def bind_eq_Some_conv split: if_splits)

text \<open>C27: a hot swap never starts, retires or changes a WireGuard outbound: the same ones are installed under the same tags before and after.\<close>

theorem hot_swap_keeps_wireguard:
  assumes "hot_swap_objects before after = Done (Some h)" and "is_wireguard e"
  shows "xr_outbounds (xray_of before) t = Some e \<longleftrightarrow> xr_outbounds (xray_of after) t = Some e"
proof -
  obtain B A d0 where tab: "by_tag before ''outbounds'' = Some B" "by_tag after ''outbounds'' = Some A"
    and chk: "check_changed d0 B (changed_outbounds B A) = Done True"
    and wg: "\<forall>e \<in> set A. map_of B (fst e) = None \<longrightarrow> \<not> is_wireguard (snd e)"
      "\<forall>e \<in> set B. map_of A (fst e) = None \<longrightarrow> \<not> is_wireguard (snd e)"
    using assms(1) by (rule hot_swap_cases) (rule that)
  have gone: "\<not> is_wireguard w" if "map_of B t = Some w" "map_of A t = None" for w
    using wg(2) that by (fastforce dest: map_of_SomeD)
  have added: "\<not> is_wireguard w" if "map_of A t = Some w" "map_of B t = None" for w
    using wg(1) that by (fastforce dest: map_of_SomeD)
  have changed: "\<not> is_wireguard v \<and> \<not> is_wireguard w"
    if "map_of B t = Some v" "map_of A t = Some w" "v \<noteq> w" for v w
  proof -
    have "map_of (changed_outbounds B A) t = Some w"
      using that by (simp add: changed_lookup [OF by_tag_table(1) [OF tab(2)]])
    then have "(t, w) \<in> set (changed_outbounds B A)" by (rule map_of_SomeD)
    with check_changed_Done [OF chk] that show ?thesis
      using vless_endpoint_only_vless by fastforce
  qed
  show ?thesis
    unfolding xray_of_def tab xray.simps option.case
    using gone added changed assms(2) by (cases "map_of B t"; cases "map_of A t") auto
qed


section \<open>When the decision cannot panic\<close>

text \<open>The shape every compiled configuration has: rules and \<open>vnext\<close> servers are objects.\<close>

definition is_object :: "json \<Rightarrow> bool" where
  "is_object v \<longleftrightarrow> as_object v \<noteq> None"

definition vnext_shaped :: "json \<Rightarrow> bool" where
  "vnext_shaped outbound \<longleftrightarrow>
     (case Option.bind (jpointer [''settings'', ''vnext''] outbound) as_array of
        None \<Rightarrow> True | Some servers \<Rightarrow> list_all is_object servers)"

definition shaped :: "jobject \<Rightarrow> bool" where
  "shaped config \<longleftrightarrow>
     (case routing_rules config of None \<Rightarrow> True | Some rules \<Rightarrow> list_all is_object rules) \<and>
     (case by_tag config ''outbounds'' of None \<Rightarrow> True | Some m \<Rightarrow> list_all (\<lambda>e. vnext_shaped (snd e)) m)"

lemma jpointer_vnext:
  "jpointer [''settings'', ''vnext''] v = Some w \<longleftrightarrow>
     (\<exists>m st. v = JObject m \<and> map_of m ''settings'' = Some (JObject st) \<and> map_of st ''vnext'' = Some w)"
proof -
  have idx: "parse_index ''settings'' = None" "parse_index ''vnext'' = None" by code_simp+
  have "jpointer [''vnext''] u = Some w \<longleftrightarrow> (\<exists>st. u = JObject st \<and> map_of st ''vnext'' = Some w)" for u
    by (cases u) (auto simp: idx bind_eq_Some_conv)
  then show ?thesis by (cases v) (auto simp: idx bind_eq_Some_conv)
qed

definition with_endpoint :: "string \<Rightarrow> json \<Rightarrow> jobject \<Rightarrow> jobject \<Rightarrow> jobject \<Rightarrow> json" where
  "with_endpoint k v m st x =
     JObject (bput ''settings'' (JObject (bput ''vnext'' (JArray [JObject (bput k v x)]) st)) m)"

lemma set_endpoint_Done:
  assumes "map_of m ''settings'' = Some (JObject st)" and "map_of st ''vnext'' = Some (JArray [JObject x])"
  shows "set_endpoint k v (JObject m) = Done (with_endpoint k v m st x)"
  using assms by (simp add: set_endpoint_def with_endpoint_def)

lemma vless_endpoint_only_total:
  assumes "vnext_shaped new"
  shows "vless_endpoint_only old new \<noteq> Panic"
proof
  assume panic: "vless_endpoint_only old new = Panic"
  then obtain ovs where old: "jpointer [''settings'', ''vnext''] old = Some (JArray ovs)"
    by (auto simp: vless_endpoint_only_def bind_eq_Some_conv split: if_splits option.splits)
  with panic obtain nvs where new: "jpointer [''settings'', ''vnext''] new = Some (JArray nvs)"
    by (auto simp: vless_endpoint_only_def bind_eq_Some_conv split: if_splits option.splits)
  have len: "length nvs = 1"
    using panic old new by (auto simp: vless_endpoint_only_def split: if_splits)
  then obtain s where nvs: "nvs = [s]" by (auto simp: length_Suc_conv)
  with assms new obtain x where s: "s = JObject x" by (auto simp: vnext_shaped_def is_object_def)
  obtain m st where shape: "new = JObject m" "map_of m ''settings'' = Some (JObject st)"
    "map_of st ''vnext'' = Some (JArray [JObject x])"
    using new nvs s by (auto simp: jpointer_vnext)
  have "set_endpoint ''address'' a new = Done (with_endpoint ''address'' a m st x)" for a
    unfolding shape(1) by (rule set_endpoint_Done [OF shape(2,3)])
  moreover have "\<exists>w. set_endpoint ''port'' p (with_endpoint ''address'' a m st x) = Done w" for a p
    unfolding with_endpoint_def
    by (intro exI, rule set_endpoint_Done [where x = "bput ''address'' a x"
        and st = "bput ''vnext'' (JArray [JObject (bput ''address'' a x)]) st"]) simp_all
  then have "set_endpoint ''port'' p (with_endpoint ''address'' a m st x) \<noteq> Panic" for a p
    by (metis run.distinct(1))
  ultimately show False
    using panic old new by (auto simp: vless_endpoint_only_def run_bind_Panic_iff split: if_splits option.splits)
qed

lemma check_changed_total:
  assumes "\<forall>e \<in> set ch. map_of B (fst e) \<noteq> None \<and> vnext_shaped (snd e)"
  shows "check_changed h B ch \<noteq> Panic"
  using assms
proof (induction ch)
  case (Cons e ch)
  obtain old where "map_of B (fst e) = Some old" using Cons.prems by auto
  moreover obtain b where "vless_endpoint_only old (snd e) = Done b"
    using vless_endpoint_only_total [of "snd e" old] Cons.prems by (cases "vless_endpoint_only old (snd e)") auto
  ultimately show ?case using Cons by (simp add: expect_def)
qed simp

lemma bridge_rule_total:
  assumes "is_object rule"
  shows "bridge_rule ch (i, rule) \<noteq> Panic"
proof -
  obtain m where "rule = JObject m" using assms by (auto simp: is_object_def)
  then show ?thesis by (auto simp: bridge_rule_def split: option.splits)
qed

lemma bridge_outbound_total: "outbound_tag e = Some t \<Longrightarrow> bridge_outbound e \<noteq> Panic"
  by (auto simp: outbound_tag_def bind_eq_Some_conv jget_Some bridge_outbound_def jindex_def expect_def)

lemma endpoint_swap_plan_total:
  assumes "table_ok ch" and "list_all is_object ar"
  shows "endpoint_swap_plan before after ch br ar \<noteq> Panic"
proof -
  have "run_map bridge_outbound (map snd ch) \<noteq> Panic"
    using assms(1) bridge_outbound_total by (fastforce simp: run_map_Panic_iff table_ok_def)
  moreover have "run_map (bridge_rule ch) (enumerate 0 ar) \<noteq> Panic"
    using assms(2) bridge_rule_total
    by (fastforce simp: run_map_Panic_iff list_all_iff in_set_enumerate_eq)
  ultimately show ?thesis
    by (auto simp: endpoint_swap_plan_def run_bind_Panic_iff)
qed

lemma hot_swap_total:
  assumes "shaped after"
  shows "hot_swap_objects before after \<noteq> Panic"
proof (cases "by_tag before ''outbounds''"; cases "by_tag after ''outbounds''")
  fix B A assume tab: "by_tag before ''outbounds'' = Some B" "by_tag after ''outbounds'' = Some A"
  note A = by_tag_table(1) [OF tab(2)]
  have "\<forall>e \<in> set (changed_outbounds B A). map_of B (fst e) \<noteq> None \<and> vnext_shaped (snd e)"
    using assms tab by (auto simp: shaped_def changed_outbounds_def list_all_iff split: option.splits)
  note c = check_changed_total [OF this]
  have "list_all is_object ar" if "routing_rules after = Some ar" for ar
    using assms that by (simp add: shaped_def)
  note p = endpoint_swap_plan_total [OF changed_ok [OF A, of B] this]
  show ?thesis
    using c p tab
    by (auto simp: hot_swap_objects_def Let_def run_bind_Panic_iff split: option.split)
qed (auto simp: hot_swap_objects_def split: option.splits)

text \<open>C28: the decision returns, never panics, for every desired configuration whose rules and VLESS servers are objects, whatever the previous configuration is.\<close>

theorem hot_swap_never_panics:
  assumes "shaped after"
  shows "hot_swap_objects before after \<noteq> Panic"
  by (rule hot_swap_total [OF assms])

text \<open>An outbound that speaks VLESS to one server.\<close>

definition one_vless_server :: "json \<Rightarrow> json \<Rightarrow> bool" where
  "one_vless_server outbound server \<longleftrightarrow>
     jget ''protocol'' outbound = Some (JString ''vless'') \<and>
     (\<exists>st. jget ''settings'' outbound = Some st \<and> jget ''vnext'' st = Some (JArray [server]))"

lemma vless_endpoint_only_True:
  assumes "vless_endpoint_only old new = Done True"
  shows "\<exists>x y us. one_vless_server old y \<and> one_vless_server new x \<and>
     jget ''users'' y = Some (JArray us) \<and> (\<forall>u \<in> set us. jget ''reverse'' u = None) \<and>
     run_bind (set_endpoint ''address'' (jindex y ''address'') new) (set_endpoint ''port'' (jindex y ''port'')) = Done old"
proof -
  from assms obtain ovs nvs where vnext: "jpointer [''settings'', ''vnext''] old = Some (JArray ovs)"
      "jpointer [''settings'', ''vnext''] new = Some (JArray nvs)" and "length ovs = 1" "length nvs = 1"
    by (auto simp: vless_endpoint_only_def bind_eq_Some_conv split: if_splits option.splits)
  then obtain y x where yx: "ovs = [y]" "nvs = [x]" by (auto simp: length_Suc_conv)
  have "jget ''protocol'' old = Some (JString ''vless'')" "jget ''protocol'' new = Some (JString ''vless'')"
    using assms by (auto simp: vless_endpoint_only_def split: if_splits)
  with vnext yx have "one_vless_server old y" "one_vless_server new x"
    by (auto simp: one_vless_server_def jpointer_vnext jget_Some)
  moreover from assms vnext yx obtain us where "jindex y ''users'' = JArray us"
      "\<forall>u \<in> set us. jget ''reverse'' u = None"
      "run_bind (set_endpoint ''address'' (jindex y ''address'') new) (set_endpoint ''port'' (jindex y ''port'')) = Done old"
    by (auto simp: vless_endpoint_only_def list_ex_iff split: if_splits option.splits)
  moreover from this have "jget ''users'' y = Some (JArray us)" by (simp add: jindex_def split: option.splits)
  ultimately show ?thesis by blast
qed

text \<open>C26: an outbound whose tag stays but whose value changes is an ordinary VLESS outbound with one server in both configurations, none of whose users is a reverse one, and putting the old address and port into the new value gives the old value: nothing but the endpoint moved.\<close>

theorem hot_swap_changes_endpoints_only:
  assumes "hot_swap_objects before after = Done (Some h)"
    and "xr_outbounds (xray_of before) t = Some old" and "xr_outbounds (xray_of after) t = Some new"
  shows "old = new \<or> (\<exists>x y us. one_vless_server old y \<and> one_vless_server new x \<and>
     jget ''users'' y = Some (JArray us) \<and> (\<forall>u \<in> set us. jget ''reverse'' u = None) \<and>
     run_bind (set_endpoint ''address'' (jindex y ''address'') new) (set_endpoint ''port'' (jindex y ''port'')) = Done old)"
proof (cases "old = new")
  case False
  obtain B A d0 where tab: "by_tag before ''outbounds'' = Some B" "by_tag after ''outbounds'' = Some A"
    and chk: "check_changed d0 B (changed_outbounds B A) = Done True"
    using assms(1) by (rule hot_swap_cases) (rule that)
  have "map_of (changed_outbounds B A) t = Some new"
    using assms(2,3) False tab by (simp add: changed_lookup [OF by_tag_table(1) [OF tab(2)]] xray_of_def)
  then have "(t, new) \<in> set (changed_outbounds B A)" by (rule map_of_SomeD)
  with check_changed_Done [OF chk] assms(2) tab have "vless_endpoint_only old new = Done True"
    by (fastforce simp: xray_of_def)
  then show ?thesis using vless_endpoint_only_True by blast
qed simp

definition sample_outbound :: "string \<Rightarrow> string \<Rightarrow> json" where
  "sample_outbound tag address = JObject
     [(''protocol'', JString ''vless''),
      (''settings'', JObject [(''vnext'', JArray [JObject
         [(''address'', JString address), (''port'', JNumber ''443''), (''users'', JArray [])]])]),
      (''tag'', JString tag)]"

definition sample_config :: "string \<Rightarrow> json list \<Rightarrow> jobject" where
  "sample_config address rules =
     [(''outbounds'', JArray [JObject [(''protocol'', JString ''freedom''), (''tag'', JString ''direct'')],
                              sample_outbound ''hop'' address]),
      (''routing'', JObject [(''rules'', JArray rules)])]"

definition sample_rule :: json where
  "sample_rule = JObject [(''outboundTag'', JString ''hop''), (''ruleTag'', JString ''r0'')]"

definition sample_plan :: hot_swap_plan where
  "sample_plan = \<lparr>hs_add_outbounds = [], hs_remove_outbounds = [],
     hs_reload_routing = Some (JObject [(''rules'', JArray [sample_rule])]),
     hs_endpoint_swap = Some \<lparr>es_outbounds = [sample_outbound ''hop'' ''b''],
       es_bridge_outbounds = [sample_outbound ''hop~brocade-endpoint-swap'' ''b''],
       es_bridge_rules = [JObject [(''outboundTag'', JString ''hop~brocade-endpoint-swap''),
                                   (''ruleTag'', JString ''brocade:endpoint-swap:0'')]]\<rparr>\<rparr>"

abbreviation "sample_old \<equiv> sample_config ''a'' [sample_rule]"
abbreviation "sample_new \<equiv> sample_config ''b'' [sample_rule]"

definition sample_parse :: "string \<Rightarrow> json option" where
  "sample_parse s = (if s = ''old'' then Some (JObject sample_old)
     else if s = ''new'' then Some (JObject sample_new) else None)"

lemma sample_swap: "hot_swap_objects sample_old sample_new = Done (Some sample_plan)"
  by code_simp

lemma sample_ok: "json_ok (JObject sample_old)" "json_ok (JObject sample_new)"
  by code_simp+

lemma sample_parse_ok: "sample_parse s = Some v \<Longrightarrow> json_ok v"
  using sample_ok by (auto simp: sample_parse_def simp del: json_ok.simps split: if_splits)

lemma sample_hot_swap: "hot_swap sample_parse ''old'' ''new'' = Done (Some sample_plan)"
  using sample_swap by (simp add: hot_swap_def sample_parse_def)

lemma sample_hot_swap_same: "hot_swap sample_parse ''old'' ''old'' =
    Done (Some \<lparr>hs_add_outbounds = [], hs_remove_outbounds = [], hs_reload_routing = None, hs_endpoint_swap = None\<rparr>)"
proof -
  have "hot_swap_objects sample_old sample_old = Done (Some \<lparr>hs_add_outbounds = [],
      hs_remove_outbounds = [], hs_reload_routing = None, hs_endpoint_swap = None\<rparr>)"
    by code_simp
  then show ?thesis by (simp add: hot_swap_def sample_parse_def)
qed

lemma sample_tables:
  "by_tag sample_old ''outbounds'' = Some
     [(''direct'', JObject [(''protocol'', JString ''freedom''), (''tag'', JString ''direct'')]),
      (''hop'', sample_outbound ''hop'' ''a'')]"
  "by_tag sample_new ''outbounds'' = Some
     [(''direct'', JObject [(''protocol'', JString ''freedom''), (''tag'', JString ''direct'')]),
      (''hop'', sample_outbound ''hop'' ''b'')]"
  by code_simp+

lemma sample_targets: "no_dangling (xray_of sample_old)" "no_dangling (xray_of sample_new)"
  by (simp_all add: no_dangling_def xray_of_def sample_tables)
    (simp_all add: sample_config_def sample_rule_def rules_of_def rule_target_def jindex_def)

definition sample_ops :: "hot_swap_operation list" where
  "sample_ops =
     [AddOutbounds [sample_outbound ''hop~brocade-endpoint-swap'' ''b''],
      ReloadRouting (JObject [(''rules'', JArray (es_bridge_rules (the (hs_endpoint_swap sample_plan))))]),
      RemoveOutbounds [''hop''],
      AddOutbounds [sample_outbound ''hop'' ''b''],
      ReloadRouting (JObject [(''rules'', JArray [sample_rule])]),
      RemoveOutbounds [''hop~brocade-endpoint-swap'']]"

lemma sample_operations: "operations sample_plan = Done sample_ops"
  by code_simp

lemma sample_runs: "\<exists>trace. exec_trace sample_ops (xray_of sample_old) = Some trace"
  using hot_swap_runs [OF sample_ok sample_swap] by (auto simp: sample_operations runs_def)

section \<open>The properties\<close>

theorem hot_swap_reaches_desired_witness:
  "\<exists>before after ops trace.
    sample_parse ''old'' = Some (JObject before) \<and> sample_parse ''new'' = Some (JObject after) \<and>
    operations sample_plan = Done ops \<and> exec_trace ops (xray_of before) = Some trace \<and>
    last trace = xray_of after"
  by (rule hot_swap_reaches_desired [OF sample_parse_ok sample_hot_swap])

theorem hot_swap_never_dangles_witness:
  "\<exists>trace. exec_trace sample_ops (xray_of sample_old) = Some trace \<and>
     list_all (\<lambda>s. no_dangling s \<and> (carries (xray_of sample_old) s \<or> carries (xray_of sample_new) s)) trace"
  using sample_runs hot_swap_never_dangles [OF sample_ok sample_swap sample_targets sample_operations]
  unfolding list_all_iff by blast

theorem hot_swap_keeps_default_witness:
  "\<exists>trace t. exec_trace sample_ops (xray_of sample_old) = Some trace \<and>
    head_tag sample_old = Some t \<and> head_tag sample_new = Some t \<and>
    list_all (\<lambda>s. xr_outbounds s t = xr_outbounds (xray_of sample_old) t) trace"
  using sample_runs hot_swap_keeps_default [OF sample_ok sample_swap sample_operations]
  unfolding list_all_iff by blast

theorem hot_swap_touches_nothing_else_witness:
  "jindex (JObject sample_old) ''inbounds'' = jindex (JObject sample_new) ''inbounds'' \<and>
   jget ''balancers'' (jindex (JObject sample_old) ''routing'') =
     jget ''balancers'' (jindex (JObject sample_new) ''routing'')"
  using conjunct1 [OF hot_swap_touches_nothing_else [OF sample_swap], THEN spec, of "''inbounds''"]
    conjunct2 [OF hot_swap_touches_nothing_else [OF sample_swap], THEN spec, of "''balancers''"]
  by (simp del: jindex_JString)

theorem hot_swap_identical_witness:
  "operations \<lparr>hs_add_outbounds = [], hs_remove_outbounds = [], hs_reload_routing = None,
     hs_endpoint_swap = None\<rparr> = Done []"
  by (rule hot_swap_identical [OF sample_hot_swap_same])

theorem hot_swap_keeps_wireguard_witness:
  "xr_outbounds (xray_of sample_old) ''hop'' = Some (JObject [(''protocol'', JString ''wireguard'')]) \<longleftrightarrow>
   xr_outbounds (xray_of sample_new) ''hop'' = Some (JObject [(''protocol'', JString ''wireguard'')])"
  by (rule hot_swap_keeps_wireguard [OF sample_swap]) (simp add: is_wireguard_def)

theorem hot_swap_changes_endpoints_only_witness:
  "\<exists>x y us. one_vless_server (sample_outbound ''hop'' ''a'') y \<and> one_vless_server (sample_outbound ''hop'' ''b'') x \<and>
     jget ''users'' y = Some (JArray us) \<and> (\<forall>u \<in> set us. jget ''reverse'' u = None) \<and>
     run_bind (set_endpoint ''address'' (jindex y ''address'') (sample_outbound ''hop'' ''b''))
       (set_endpoint ''port'' (jindex y ''port'')) = Done (sample_outbound ''hop'' ''a'')"
proof -
  have "xr_outbounds (xray_of sample_old) ''hop'' = Some (sample_outbound ''hop'' ''a'')"
    and "xr_outbounds (xray_of sample_new) ''hop'' = Some (sample_outbound ''hop'' ''b'')"
    by (simp_all add: xray_of_def sample_tables)
  moreover have "sample_outbound ''hop'' ''a'' \<noteq> sample_outbound ''hop'' ''b''"
    by (simp add: sample_outbound_def)
  ultimately show ?thesis using hot_swap_changes_endpoints_only [OF sample_swap] by blast
qed

theorem hot_swap_never_panics_witness: "hot_swap_objects [] sample_new \<noteq> Panic"
  by (rule hot_swap_never_panics) code_simp

text \<open>
  Without that shape the decision can panic, although its comment promises \<open>None\<close> for every
  case it is unsure about: a rule that is not an object is indexed while the bridge is built.
\<close>

theorem hot_swap_panics_on_scalar_rule:
  "hot_swap_objects sample_old (sample_config ''b'' [JNumber ''5'']) = Panic"
  by code_simp

end
