(* ===== verification/Diagnostics.thy ===== *)
theory Diagnostics
  imports Prelude
begin

text \<open>
  \<open>crates/brocade-core/src/diagnostic.rs\<close> and the publishing gate of \<open>compile.rs\<close>: what a
  compilation found, how it is counted, and the one test every projection of a compiled model
  goes through. The compiled layers themselves are a type parameter here.
\<close>

datatype level = Error | Warn | Info

record diagnostic =
  dg_level :: level
  dg_code :: string
  dg_location :: string
  dg_message :: message

definition diagnostic_error :: "string \<Rightarrow> string \<Rightarrow> message \<Rightarrow> diagnostic" where
  "diagnostic_error code location msg =
     \<lparr>dg_level = Error, dg_code = code, dg_location = location, dg_message = msg\<rparr>"

definition diagnostic_warn :: "string \<Rightarrow> string \<Rightarrow> message \<Rightarrow> diagnostic" where
  "diagnostic_warn code location msg =
     \<lparr>dg_level = Warn, dg_code = code, dg_location = location, dg_message = msg\<rparr>"

definition diagnostic_info :: "string \<Rightarrow> string \<Rightarrow> message \<Rightarrow> diagnostic" where
  "diagnostic_info code location msg =
     \<lparr>dg_level = Info, dg_code = code, dg_location = location, dg_message = msg\<rparr>"

record diagnostic_summary =
  ds_errors :: nat
  ds_warnings :: nat
  ds_infos :: nat
  ds_can_publish :: bool

definition summarize_diagnostics :: "diagnostic list \<Rightarrow> diagnostic_summary" where
  "summarize_diagnostics diagnostics =
     (let errors = length (filter (\<lambda>d. dg_level d = Error) diagnostics);
          warnings = length (filter (\<lambda>d. dg_level d = Warn) diagnostics);
          infos = length (filter (\<lambda>d. dg_level d = Info) diagnostics)
      in \<lparr>ds_errors = errors, ds_warnings = warnings, ds_infos = infos, ds_can_publish = (errors = 0)\<rparr>)"

section \<open>The gate\<close>

record ('sys, 'app) compile_output =
  co_system :: 'sys
  co_apps :: "'app list"
  co_diagnostics :: "diagnostic list"
  co_summary :: diagnostic_summary

record publish_blocked =
  pb_summary :: diagnostic_summary
  pb_diagnostics :: "diagnostic list"

definition can_publish :: "('sys, 'app) compile_output \<Rightarrow> bool" where
  "can_publish output = ds_can_publish (co_summary output)"

definition ensure_publishable :: "('sys, 'app) compile_output \<Rightarrow> publish_blocked + unit" where
  "ensure_publishable output =
     (if can_publish output then Inr ()
      else Inl \<lparr>pb_summary = co_summary output, pb_diagnostics = co_diagnostics output\<rparr>)"

text \<open>
  Every \<open>project_*\<close> method is this: the gate, then the projection \<open>f\<close> of the layers.
\<close>

definition project_gated :: "('sys \<Rightarrow> 'app list \<Rightarrow> 'b) \<Rightarrow> ('sys, 'app) compile_output \<Rightarrow> publish_blocked + 'b" where
  "project_gated f output =
     (case ensure_publishable output of
        Inl e \<Rightarrow> Inl e
      | Inr _ \<Rightarrow> Inr (f (co_system output) (co_apps output)))"

text \<open>\<open>finish_compile\<close>: the stages' diagnostics in their fixed order, and the summary of all.\<close>

definition finish_compile ::
  "('app list \<Rightarrow> diagnostic list) \<Rightarrow> 'sys \<Rightarrow> diagnostic list \<Rightarrow> ('r \<times> diagnostic list) list \<Rightarrow>
     ('app \<times> diagnostic list) list \<Rightarrow> ('sys, 'app) compile_output" where
  "finish_compile validate_app_set sys prelude_diagnostics routing_apps apps =
     (let collected = prelude_diagnostics @ concat (map snd routing_apps) @ concat (map snd apps);
          final_apps = map fst apps;
          diagnostics = collected @ validate_app_set final_apps
      in \<lparr>co_system = sys, co_apps = final_apps, co_diagnostics = diagnostics,
          co_summary = summarize_diagnostics diagnostics\<rparr>)"

lemma summarize_can_publish:
  "ds_can_publish (summarize_diagnostics ds) \<longleftrightarrow> (\<forall>d \<in> set ds. dg_level d \<noteq> Error)"
  by (auto simp: summarize_diagnostics_def Let_def filter_empty_conv)

lemma summarize_total:
  "ds_errors (summarize_diagnostics ds) + ds_warnings (summarize_diagnostics ds)
     + ds_infos (summarize_diagnostics ds) = length ds"
proof (induction ds)
  case (Cons d ds)
  then show ?case by (cases "dg_level d") (simp_all add: summarize_diagnostics_def Let_def)
qed (simp add: summarize_diagnostics_def)

lemma project_gated_Inr:
  "project_gated f output = Inr y \<longleftrightarrow> can_publish output \<and> y = f (co_system output) (co_apps output)"
  by (auto simp: project_gated_def ensure_publishable_def)

text \<open>
  A compiled model can be projected exactly when no stage reported an error; warnings and
  information from any stage never block it, and an error of any one stage always does.
\<close>

theorem publish_gate:
  "(\<exists>y. project_gated f (finish_compile v sys pre routing apps) = Inr y) \<longleftrightarrow>
     (\<forall>d \<in> set pre \<union> (\<Union>r \<in> set routing. set (snd r)) \<union> (\<Union>a \<in> set apps. set (snd a))
        \<union> set (v (map fst apps)). dg_level d \<noteq> Error)"
  by (auto simp: project_gated_Inr can_publish_def finish_compile_def Let_def summarize_can_publish)

theorem publish_gate_witness:
  "\<exists>y. project_gated (\<lambda>sys apps. apps) (finish_compile (\<lambda>_. []) ()
     [diagnostic_warn ''w'' ''here'' (Msg [] [])] [] [(True, [diagnostic_info ''i'' ''there'' (Msg [] [])])]) = Inr y"
  by (rule iffD2 [OF publish_gate]) (auto simp: diagnostic_warn_def diagnostic_info_def)

end
