(* ===== verification/Plan_Types.thy ===== *)
theory Plan_Types
  imports Json Diagnostics
begin

text \<open>
  The data of \<open>crates/brocade-deployment/src/plan.rs\<close>: a deployment plan and its targets, the
  desired and the applied state of a machine, and the grant sets both sides speak of. The
  derived orders of the source (field by field, variants in declaration order) are class
  instances here, so that \<open>sort\<close> means what it means there. SHA-256 is a parameter where it
  occurs.
\<close>

section \<open>Actions\<close>

datatype planned_action =
    ApplyPhantun | ApplyHy2PortHop | ApplyWireGuard | ApplyXray | SyncVpngate | SyncGrants
  | DisablePhantun | DisableHy2PortHop | DisableWireGuard | DisableXray

fun action_rank :: "planned_action \<Rightarrow> nat" where
  "action_rank ApplyPhantun = 0"
| "action_rank ApplyHy2PortHop = 1"
| "action_rank ApplyWireGuard = 2"
| "action_rank ApplyXray = 3"
| "action_rank SyncVpngate = 4"
| "action_rank SyncGrants = 5"
| "action_rank DisablePhantun = 6"
| "action_rank DisableHy2PortHop = 7"
| "action_rank DisableWireGuard = 8"
| "action_rank DisableXray = 9"

lemma action_rank_inj [simp]: "action_rank a = action_rank b \<longleftrightarrow> a = b"
  by (cases a; cases b) simp_all

instantiation planned_action :: linorder
begin

definition less_eq_planned_action :: "planned_action \<Rightarrow> planned_action \<Rightarrow> bool" where
  "less_eq_planned_action a b \<longleftrightarrow> action_rank a \<le> action_rank b"

definition less_planned_action :: "planned_action \<Rightarrow> planned_action \<Rightarrow> bool" where
  "less_planned_action a b \<longleftrightarrow> action_rank a < action_rank b"

instance
proof
  fix a b :: planned_action
  assume "a \<le> b" and "b \<le> a"
  then have "action_rank a = action_rank b" by (simp add: less_eq_planned_action_def)
  then show "a = b" by simp
qed (auto simp: less_eq_planned_action_def less_planned_action_def)

end

datatype config_artifact = Phantun | Hy2PortHop | WireGuard | Xray

definition ALL_ARTIFACTS :: "config_artifact list" where
  "ALL_ARTIFACTS = [Phantun, Hy2PortHop, WireGuard, Xray]"

fun artifact_field :: "config_artifact \<Rightarrow> string" where
  "artifact_field Phantun = ''phantun''"
| "artifact_field Hy2PortHop = ''hy2_port_hop''"
| "artifact_field WireGuard = ''wireguard''"
| "artifact_field Xray = ''xray''"

fun action_artifact :: "planned_action \<Rightarrow> config_artifact option" where
  "action_artifact ApplyPhantun = Some Phantun"
| "action_artifact DisablePhantun = Some Phantun"
| "action_artifact ApplyHy2PortHop = Some Hy2PortHop"
| "action_artifact DisableHy2PortHop = Some Hy2PortHop"
| "action_artifact ApplyWireGuard = Some WireGuard"
| "action_artifact DisableWireGuard = Some WireGuard"
| "action_artifact ApplyXray = Some Xray"
| "action_artifact DisableXray = Some Xray"
| "action_artifact SyncVpngate = None"
| "action_artifact SyncGrants = None"

section \<open>Grants\<close>

datatype grant_client =
  GrantClient (gc_email: string) (gc_uuid: string) (gc_flow: "string option") (gc_level: u8)

definition grant_client_key :: "grant_client \<Rightarrow> string \<times> string \<times> string option \<times> nat" where
  "grant_client_key c = (gc_email c, gc_uuid c, gc_flow c, unat (gc_level c))"

lemma grant_client_key_inj [simp]: "grant_client_key a = grant_client_key b \<longleftrightarrow> a = b"
  by (cases a; cases b) (auto simp: grant_client_key_def dest: unsigned_word_eqI)

instantiation grant_client :: linorder
begin

definition less_eq_grant_client :: "grant_client \<Rightarrow> grant_client \<Rightarrow> bool" where
  "less_eq_grant_client a b \<longleftrightarrow> grant_client_key a \<le> grant_client_key b"

definition less_grant_client :: "grant_client \<Rightarrow> grant_client \<Rightarrow> bool" where
  "less_grant_client a b \<longleftrightarrow> grant_client_key a < grant_client_key b"

instance
proof
  fix a b c :: grant_client
  show "a < b \<longleftrightarrow> a \<le> b \<and> \<not> b \<le> a"
    by (simp only: less_eq_grant_client_def less_grant_client_def less_le_not_le)
  show "a \<le> a" by (simp add: less_eq_grant_client_def)
  show "a \<le> b \<Longrightarrow> b \<le> c \<Longrightarrow> a \<le> c"
    unfolding less_eq_grant_client_def by (rule order_trans)
  show "a \<le> b \<Longrightarrow> b \<le> a \<Longrightarrow> a = b"
    unfolding less_eq_grant_client_def by (drule (1) antisym) simp
  show "a \<le> b \<or> b \<le> a" unfolding less_eq_grant_client_def by (rule linear)
qed

end

datatype grant_inbound = GrantInbound (gi_tag: string) (gi_clients: "grant_client list")

definition grant_inbound_key :: "grant_inbound \<Rightarrow> string \<times> grant_client list" where
  "grant_inbound_key i = (gi_tag i, gi_clients i)"

lemma grant_inbound_key_inj [simp]: "grant_inbound_key a = grant_inbound_key b \<longleftrightarrow> a = b"
  by (cases a; cases b) (auto simp: grant_inbound_key_def)

instantiation grant_inbound :: linorder
begin

definition less_eq_grant_inbound :: "grant_inbound \<Rightarrow> grant_inbound \<Rightarrow> bool" where
  "less_eq_grant_inbound a b \<longleftrightarrow> grant_inbound_key a \<le> grant_inbound_key b"

definition less_grant_inbound :: "grant_inbound \<Rightarrow> grant_inbound \<Rightarrow> bool" where
  "less_grant_inbound a b \<longleftrightarrow> grant_inbound_key a < grant_inbound_key b"

instance
proof
  fix a b c :: grant_inbound
  show "a < b \<longleftrightarrow> a \<le> b \<and> \<not> b \<le> a"
    by (simp only: less_eq_grant_inbound_def less_grant_inbound_def less_le_not_le)
  show "a \<le> a" by (simp add: less_eq_grant_inbound_def)
  show "a \<le> b \<Longrightarrow> b \<le> c \<Longrightarrow> a \<le> c"
    unfolding less_eq_grant_inbound_def by (rule order_trans)
  show "a \<le> b \<Longrightarrow> b \<le> a \<Longrightarrow> a = b"
    unfolding less_eq_grant_inbound_def by (drule (1) antisym) simp
  show "a \<le> b \<or> b \<le> a" unfolding less_eq_grant_inbound_def by (rule linear)
qed

end

datatype observed_client =
  ObservedClient (oc_email: string) (oc_uuid: string) (oc_flow: "string option")

datatype observed_inbound =
  ObservedInbound (oi_tag: string) (oi_clients: "observed_client list")

section \<open>Desired and applied state\<close>

text \<open>Reasons are operator-facing text and stay abstract.\<close>

datatype desired_artifact =
    Present (da_content: string) (da_sha256: string)
  | Disabled (da_reason: message)
  | Unmanaged (da_reason: message)

datatype desired_grants =
    GrantsPresent (dgr_inbounds: "grant_inbound list")
  | GrantsDisabled message
  | GrantsUnmanaged message

record node_desired_state =
  nd_phantun :: desired_artifact
  nd_wireguard :: desired_artifact
  nd_xray :: desired_artifact
  nd_hy2_port_hop :: desired_artifact
  nd_grants :: desired_grants

fun desired_of :: "node_desired_state \<Rightarrow> config_artifact \<Rightarrow> desired_artifact" where
  "desired_of d Phantun = nd_phantun d"
| "desired_of d Hy2PortHop = nd_hy2_port_hop d"
| "desired_of d WireGuard = nd_wireguard d"
| "desired_of d Xray = nd_xray d"

definition artifacts :: "node_desired_state \<Rightarrow> (config_artifact \<times> desired_artifact) list" where
  "artifacts d = map (\<lambda>a. (a, desired_of d a)) ALL_ARTIFACTS"

datatype applied_artifact_state =
    AppliedPresent string
  | AppliedDisabled
  | AppliedUnmanaged
  | AppliedUnknown
  | AppliedDirty message

datatype applied_grants_state =
    AppliedGrantsPresent "observed_inbound list"
  | AppliedGrantsDisabled
  | AppliedGrantsUnmanaged
  | AppliedGrantsUnknown
  | AppliedGrantsDirty message

record node_applied_state =
  ap_node_id :: string
  ap_phantun :: applied_artifact_state
  ap_hy2_port_hop :: applied_artifact_state
  ap_wireguard :: applied_artifact_state
  ap_xray :: applied_artifact_state
  ap_grants :: applied_grants_state
  ap_running_xray :: "string option"

definition applied_unknown :: "string \<Rightarrow> node_applied_state" where
  "applied_unknown node_id =
     \<lparr>ap_node_id = node_id, ap_phantun = AppliedUnknown, ap_hy2_port_hop = AppliedUnknown,
      ap_wireguard = AppliedUnknown, ap_xray = AppliedUnknown, ap_grants = AppliedGrantsUnknown,
      ap_running_xray = None\<rparr>"

fun applied_of :: "node_applied_state \<Rightarrow> config_artifact \<Rightarrow> applied_artifact_state" where
  "applied_of s Phantun = ap_phantun s"
| "applied_of s Hy2PortHop = ap_hy2_port_hop s"
| "applied_of s WireGuard = ap_wireguard s"
| "applied_of s Xray = ap_xray s"

section \<open>Plans\<close>

datatype planned_target_status = Pending | Deferred | Skipped

record planned_target =
  pt_node_id :: string
  pt_status :: planned_target_status
  pt_wave :: nat
  pt_disruptive :: bool
  pt_prerequisites :: "string list"
  pt_actions :: "planned_action list"
  pt_desired :: node_desired_state

record plan_diagnostic =
  pd_code :: string
  pd_location :: string
  pd_message :: message

record plan_summary =
  ps_total_targets :: nat
  ps_changed_targets :: nat
  ps_skipped_targets :: nat
  ps_deferred_targets :: nat
  ps_disruptive_targets :: nat
  ps_max_wave :: nat

record deployment_plan =
  dp_revision :: u64
  dp_targets :: "planned_target list"
  dp_summary :: plan_summary
  dp_warnings :: "plan_diagnostic list"
  dp_base_revision_id :: "int option"

datatype deployment_kind = ConfigKind | GrantsKind

fun kind_as_str :: "deployment_kind \<Rightarrow> string" where
  "kind_as_str ConfigKind = ''config''"
| "kind_as_str GrantsKind = ''grants''"

definition kind_parse :: "string \<Rightarrow> deployment_kind option" where
  "kind_parse v =
     (if v = ''config'' then Some ConfigKind else if v = ''grants'' then Some GrantsKind else None)"

lemma kind_roundtrip: "kind_parse v = Some k \<longleftrightarrow> v = kind_as_str k"
  by (cases k) (auto simp: kind_parse_def)

definition summarize_targets :: "planned_target list \<Rightarrow> plan_summary" where
  "summarize_targets targets =
     (let total = length targets;
          skipped = length (filter (\<lambda>t. pt_status t = Skipped) targets);
          deferred = length (filter (\<lambda>t. pt_status t = Deferred) targets)
      in \<lparr>ps_total_targets = total,
          ps_changed_targets = total - skipped,
          ps_skipped_targets = skipped,
          ps_deferred_targets = deferred,
          ps_disruptive_targets = length (filter pt_disruptive targets),
          ps_max_wave = foldr max (map pt_wave targets) 0\<rparr>)"

section \<open>Comparing grants\<close>

definition desired_grant_keys ::
  "grant_inbound list \<Rightarrow> (string, (string \<times> string \<times> string option) list) bmap" where
  "desired_grant_keys inbounds =
     bcollect (map (\<lambda>i. (gi_tag i, bset (map (\<lambda>c. (gc_email c, gc_uuid c, gc_flow c)) (gi_clients i)))) inbounds)"

definition observed_grant_keys ::
  "observed_inbound list \<Rightarrow> (string, (string \<times> string \<times> string option) list) bmap" where
  "observed_grant_keys inbounds =
     bcollect (map (\<lambda>i. (oi_tag i, bset (map (\<lambda>c. (oc_email c, oc_uuid c, oc_flow c)) (oi_clients i)))) inbounds)"

fun grants_match :: "desired_grants \<Rightarrow> applied_grants_state \<Rightarrow> bool" where
  "grants_match (GrantsPresent inbounds) (AppliedGrantsPresent observed) =
     (desired_grant_keys inbounds = observed_grant_keys observed)"
| "grants_match (GrantsPresent _) _ = False"
| "grants_match (GrantsDisabled _) observed = (observed = AppliedGrantsDisabled)"
| "grants_match (GrantsUnmanaged _) observed = (observed = AppliedGrantsUnmanaged)"

definition grants_flow_changed :: "desired_grants \<Rightarrow> applied_grants_state option \<Rightarrow> bool" where
  "grants_flow_changed desired applied =
     (case (desired, applied) of
        (GrantsPresent desired_inbounds, Some (AppliedGrantsPresent applied_inbounds)) \<Rightarrow>
          (let accounts = bcollect (concat (map (\<lambda>i.
                 map (\<lambda>c. ((oi_tag i, oc_email c, oc_uuid c), oc_flow c)) (oi_clients i)) applied_inbounds))
           in list_ex (\<lambda>i. list_ex (\<lambda>c.
                case map_of accounts (gi_tag i, gc_email c, gc_uuid c) of
                  None \<Rightarrow> False
                | Some flow \<Rightarrow> flow \<noteq> gc_flow c) (gi_clients i)) desired_inbounds)
      | _ \<Rightarrow> False)"

end
