(* ===== verification/Waves.thy ===== *)
theory Waves
  imports Plan_Types
begin

text \<open>
  \<open>assign_waves\<close> and \<open>source_dependency_component\<close> of \<open>plan.rs\<close>: the order in which
  a deployment reaches its machines. A target is an index into the target list; a
  \<open>BTreeSet<usize>\<close> is an ascending list without repetitions, a \<open>BTreeMap\<close> an
  ascending association list. Waves count from one and grow by one per round, so they stay below
  the number of targets and the \<open>u32\<close> of the source does not overflow.
\<close>

section \<open>The dependency graph\<close>

definition incoming_of :: "(nat, nat list) bmap \<Rightarrow> nat \<Rightarrow> nat list" where
  "incoming_of incoming i = (case map_of incoming i of None \<Rightarrow> [] | Some ps \<Rightarrow> ps)"

text \<open>The entry of \<open>outgoing\<close>: who waits for \<open>p\<close> among the remaining targets.\<close>

definition outgoing_of :: "nat list \<Rightarrow> (nat, nat list) bmap \<Rightarrow> nat \<Rightarrow> nat list" where
  "outgoing_of remaining incoming p =
     (if p \<in> set remaining
      then map fst (filter (\<lambda>e. fst e \<in> set remaining \<and> p \<in> set (snd e)) incoming)
      else [])"

text \<open>
  \<open>reaches\<close>: a depth-first search whose stack has its top at the head of the list, so that
  pushing a set pushes it reversed.
\<close>

function reaches_loop ::
  "nat list \<Rightarrow> (nat, nat list) bmap \<Rightarrow> nat \<Rightarrow> nat list \<Rightarrow> nat list \<Rightarrow> bool" where
  "reaches_loop remaining incoming wanted seen [] = False"
| "reaches_loop remaining incoming wanted seen (v # stack) =
     (if v = wanted then True
      else if v \<in> set seen then reaches_loop remaining incoming wanted seen stack
      else reaches_loop remaining incoming wanted (v # seen)
             (rev (outgoing_of remaining incoming v) @ stack))"
  by pat_completeness auto

termination
proof (relation "measures [\<lambda>(remaining, _, _, seen, _). card (set remaining - set seen),
    \<lambda>(_, _, _, _, stack). length stack]")
  fix remaining :: "nat list" and incoming wanted seen and v :: nat and stack
  assume "v \<notin> set seen"
  then show "((remaining, incoming, wanted, v # seen, rev (outgoing_of remaining incoming v) @ stack),
      (remaining, incoming, wanted, seen, v # stack)) \<in> measures [\<lambda>(remaining, _, _, seen, _).
      card (set remaining - set seen), \<lambda>(_, _, _, _, stack). length stack]"
  proof (cases "v \<in> set remaining")
    case True
    with \<open>v \<notin> set seen\<close> have "set remaining - set (v # seen) \<subset> set remaining - set seen" by auto
    then have "card (set remaining - set (v # seen)) < card (set remaining - set seen)"
      by (intro psubset_card_mono) simp_all
    then show ?thesis by simp
  next
    case False
    then have "set remaining - set (v # seen) = set remaining - set seen" by auto
    with False show ?thesis by (simp add: outgoing_of_def)
  qed
qed simp_all

definition reaches :: "nat list \<Rightarrow> (nat, nat list) bmap \<Rightarrow> nat \<Rightarrow> nat \<Rightarrow> bool" where
  "reaches remaining incoming start wanted = reaches_loop remaining incoming wanted [] [start]"

definition component :: "nat list \<Rightarrow> (nat, nat list) bmap \<Rightarrow> nat \<Rightarrow> nat list" where
  "component remaining incoming candidate =
     filter (\<lambda>other. reaches remaining incoming candidate other \<and> reaches remaining incoming other candidate)
       remaining"

definition has_external_prerequisite :: "nat list \<Rightarrow> (nat, nat list) bmap \<Rightarrow> nat list \<Rightarrow> bool" where
  "has_external_prerequisite remaining incoming members =
     list_ex (\<lambda>node. list_ex (\<lambda>p. p \<in> set remaining \<and> p \<notin> set members) (incoming_of incoming node)) members"

fun first_source :: "nat list \<Rightarrow> (nat, nat list) bmap \<Rightarrow> nat list \<Rightarrow> nat list option" where
  "first_source remaining incoming [] = None"
| "first_source remaining incoming (candidate # cs) =
     (let members = component remaining incoming candidate
      in if \<not> has_external_prerequisite remaining incoming members then Some members
         else first_source remaining incoming cs)"

definition source_dependency_component :: "nat list \<Rightarrow> (nat, nat list) bmap \<Rightarrow> nat list" where
  "source_dependency_component remaining incoming =
     (case first_source remaining incoming remaining of
        Some members \<Rightarrow> members
      | None \<Rightarrow> take 1 remaining)"

section \<open>The rounds\<close>

definition xray_apply_targets :: "planned_target list \<Rightarrow> nat list" where
  "xray_apply_targets targets =
     filter (\<lambda>i. ApplyXray \<in> set (pt_actions (targets ! i)) \<and> DisableXray \<notin> set (pt_actions (targets ! i)))
       [0..<length targets]"

definition high_risk_targets :: "planned_target list \<Rightarrow> nat list" where
  "high_risk_targets targets =
     filter (\<lambda>i. pt_disruptive (targets ! i) \<and>
         (DisableWireGuard \<in> set (pt_actions (targets ! i)) \<or> DisableXray \<in> set (pt_actions (targets ! i))))
       [0..<length targets]"

definition ordered_targets :: "planned_target list \<Rightarrow> nat list" where
  "ordered_targets targets = bset (xray_apply_targets targets @ high_risk_targets targets)"

definition node_index :: "planned_target list \<Rightarrow> (string, nat) bmap" where
  "node_index targets = bcollect (map (\<lambda>(i, t). (pt_node_id t, i)) (enumerate 0 targets))"

definition incoming_map :: "planned_target list \<Rightarrow> (nat, nat list) bmap" where
  "incoming_map targets =
     (let ordered = ordered_targets targets; by_node = node_index targets
      in map (\<lambda>i. (i, bset (filter (\<lambda>p. p \<in> set ordered)
           (List.map_filter (map_of by_node) (pt_prerequisites (targets ! i)))))) ordered)"

definition select_wave ::
  "nat list \<Rightarrow> (nat, nat list) bmap \<Rightarrow> bool \<Rightarrow> nat list \<Rightarrow> nat list" where
  "select_wave high_risk incoming canary remaining =
     (let ready = filter (\<lambda>i. list_all (\<lambda>p. p \<notin> set remaining) (incoming_of incoming i)) remaining
      in if ready \<noteq> [] then
           (let regular = filter (\<lambda>i. i \<notin> set high_risk) ready
            in if regular \<noteq> [] then (if canary then [hd regular] else regular)
               else [hd ready])
         else source_dependency_component remaining incoming)"

definition set_wave :: "nat \<Rightarrow> nat \<Rightarrow> planned_target list \<Rightarrow> planned_target list" where
  "set_wave wave i targets = targets[i := (targets ! i)\<lparr>pt_wave := wave\<rparr>]"

lemma component_self: "reaches remaining incoming c c"
  by (simp add: reaches_def)

lemma first_source_props:
  assumes "first_source remaining incoming cs = Some members"
  shows "\<exists>c \<in> set cs. members = component remaining incoming c \<and> \<not> has_external_prerequisite remaining incoming members"
  using assms by (induction cs) (auto simp: Let_def split: if_splits)

lemma source_component_selects:
  assumes "remaining \<noteq> []"
  shows "source_dependency_component remaining incoming \<noteq> []"
    and "set (source_dependency_component remaining incoming) \<subseteq> set remaining"
proof -
  have "component remaining incoming c \<noteq> []" if "c \<in> set remaining" for c
    using that component_self [of remaining incoming c] by (auto simp: component_def filter_empty_conv)
  moreover have "set (component remaining incoming c) \<subseteq> set remaining" for c
    by (auto simp: component_def)
  moreover have "set (take 1 remaining) \<subseteq> set remaining" by (rule set_take_subset)
  ultimately show "source_dependency_component remaining incoming \<noteq> []"
    and "set (source_dependency_component remaining incoming) \<subseteq> set remaining"
    using assms
    by (auto simp: source_dependency_component_def dest!: first_source_props split: option.splits)
qed

lemma hd_filter_in: "filter P xs \<noteq> [] \<Longrightarrow> hd (filter P xs) \<in> set xs \<and> P (hd (filter P xs))"
  using hd_in_set [of "filter P xs"] by simp

text \<open>The four ways a round is chosen.\<close>

lemma select_wave_cases:
  fixes high_risk incoming canary and remaining :: "nat list"
  defines "free \<equiv> \<lambda>i. \<forall>p \<in> set (incoming_of incoming i). p \<notin> set remaining"
    and "sel \<equiv> select_wave high_risk incoming canary remaining"
  assumes "remaining \<noteq> []"
  obtains (single) i where "sel = [i]" "i \<in> set remaining" "free i"
    | (regular) "sel = filter (\<lambda>i. i \<notin> set high_risk) (filter free remaining)" "sel \<noteq> []" "\<not> canary"
    | (cycle) "sel = source_dependency_component remaining incoming" "\<forall>i \<in> set remaining. \<not> free i"
proof -
  define ready where "ready = filter free remaining"
  have "filter (\<lambda>i. list_all (\<lambda>p. p \<notin> set remaining) (incoming_of incoming i)) remaining = ready"
    by (simp add: ready_def free_def list_all_iff)
  then have sel: "sel = (if ready \<noteq> [] then
           (let regular = filter (\<lambda>i. i \<notin> set high_risk) ready
            in if regular \<noteq> [] then (if canary then [hd regular] else regular) else [hd ready])
         else source_dependency_component remaining incoming)"
    by (simp add: sel_def select_wave_def)
  have in_ready: "i \<in> set ready \<Longrightarrow> i \<in> set remaining \<and> free i" for i by (simp add: ready_def)
  show thesis
  proof (cases "ready = []")
    case True
    then show thesis using cycle sel by (auto simp: ready_def filter_empty_conv)
  next
    case False
    show thesis
    proof (cases "filter (\<lambda>i. i \<notin> set high_risk) ready = []")
      case True
      with False sel in_ready [of "hd ready"] show thesis by (intro single [of "hd ready"]) simp_all
    next
      case regs: False
      show thesis
      proof (cases canary)
        case True
        with False regs sel in_ready hd_filter_in [OF regs]
        show thesis by (intro single [of "hd (filter (\<lambda>i. i \<notin> set high_risk) ready)"]) simp_all
      next
        case no: False
        with False regs sel show thesis by (intro regular) (simp_all add: ready_def)
      qed
    qed
  qed
qed

lemma select_wave_selects:
  assumes "remaining \<noteq> []"
  shows "select_wave high_risk incoming canary remaining \<noteq> []"
    and "set (select_wave high_risk incoming canary remaining) \<subseteq> set remaining"
  using source_component_selects [OF assms, of incoming]
  by (cases rule: select_wave_cases [OF assms, of high_risk incoming canary]; auto)+

function wave_loop ::
  "nat list \<Rightarrow> nat list \<Rightarrow> (nat, nat list) bmap \<Rightarrow> nat list \<Rightarrow> nat \<Rightarrow> bool \<Rightarrow>
     planned_target list \<Rightarrow> planned_target list" where
  "wave_loop xray_apply high_risk incoming remaining wave canary targets =
     (if remaining = [] then targets
      else
        (let selected = select_wave high_risk incoming canary remaining;
             canary' = (canary \<and> \<not> list_ex (\<lambda>i. i \<in> set xray_apply) selected)
         in wave_loop xray_apply high_risk incoming
              (filter (\<lambda>i. i \<notin> set selected) remaining) (Suc wave) canary'
              (foldl (\<lambda>ts i. set_wave wave i ts) targets selected)))"
  by pat_completeness auto

termination
proof (relation "measure (\<lambda>(_, _, _, remaining, _). length remaining)")
  fix xray_apply high_risk :: "nat list" and incoming remaining wave and canary :: bool
    and targets :: "planned_target list" and selected canary'
  assume ne: "remaining \<noteq> []" and sel: "selected = select_wave high_risk incoming canary remaining"
  obtain i where "i \<in> set remaining" "i \<in> set selected"
    using select_wave_selects [OF ne, of high_risk incoming canary] unfolding sel
    by (meson hd_in_set subsetD)
  then have "length (filter (\<lambda>i. i \<notin> set selected) remaining) < length remaining"
    by (intro length_filter_less) auto
  then show "((xray_apply, high_risk, incoming, filter (\<lambda>i. i \<notin> set selected) remaining, Suc wave,
      canary', foldl (\<lambda>ts i. set_wave wave i ts) targets selected),
      (xray_apply, high_risk, incoming, remaining, wave, canary, targets))
      \<in> measure (\<lambda>(_, _, _, remaining, _). length remaining)" by simp
qed simp

declare wave_loop.simps [simp del]

definition assign_waves :: "planned_target list \<Rightarrow> planned_target list" where
  "assign_waves targets0 =
     (let targets = map (\<lambda>t. t\<lparr>pt_wave := 0\<rparr>) targets0
      in wave_loop (xray_apply_targets targets) (high_risk_targets targets) (incoming_map targets)
           (ordered_targets targets) 1 True targets)"

section \<open>Reachability\<close>

lemma outgoing_iff:
  assumes "distinct (map fst incoming)"
  shows "n \<in> set (outgoing_of R incoming p) \<longleftrightarrow>
     p \<in> set R \<and> n \<in> set R \<and> p \<in> set (incoming_of incoming n)"
proof -
  have "n \<in> set (map fst (filter (\<lambda>e. fst e \<in> set R \<and> p \<in> set (snd e)) incoming)) \<longleftrightarrow>
      n \<in> set R \<and> (\<exists>ps. (n, ps) \<in> set incoming \<and> p \<in> set ps)"
    by force
  also have "(\<exists>ps. (n, ps) \<in> set incoming \<and> p \<in> set ps) \<longleftrightarrow> p \<in> set (incoming_of incoming n)"
  proof -
    have "(n, ps) \<in> set incoming \<longleftrightarrow> map_of incoming n = Some ps" for ps
      using map_of_eq_Some_iff [OF assms] by simp
    then show ?thesis by (cases "map_of incoming n") (simp_all add: incoming_of_def)
  qed
  finally show ?thesis by (auto simp: outgoing_of_def)
qed

lemma reaches_loop_correct:
  assumes "walk_ok (outgoing_of R incoming) {start} (set seen) (set stack)" and "wanted \<notin> set seen"
  shows "reaches_loop R incoming wanted seen stack \<longleftrightarrow> wanted \<in> reach_set (outgoing_of R incoming) {start}"
  using assms
proof (induction R incoming wanted seen stack rule: reaches_loop.induct)
  case (1 R incoming wanted seen)
  then show ?case using walk_done [of "outgoing_of R incoming" "{start}" "set seen"] by simp
next
  case (2 R incoming wanted seen v stack)
  have w: "walk_ok (outgoing_of R incoming) {start} (set seen) (insert v (set stack))"
    using 2(3) by simp
  consider "v = wanted" | "v \<noteq> wanted" "v \<in> set seen" | "v \<noteq> wanted" "v \<notin> set seen" by blast
  then show ?case
  proof cases
    case 1
    with w show ?thesis by (auto simp: walk_ok_def)
  next
    case 2
    with "2.IH"(1) walk_skip [OF w] \<open>wanted \<notin> set seen\<close> show ?thesis by simp
  next
    case 3
    with "2.IH"(2) walk_visit [OF w] \<open>wanted \<notin> set seen\<close> show ?thesis by simp
  qed
qed

lemma reaches_correct: "reaches R incoming a b \<longleftrightarrow> b \<in> reach_set (outgoing_of R incoming) {a}"
  unfolding reaches_def using walk_start [of "outgoing_of R incoming" "{a}"]
  by (intro reaches_loop_correct) simp_all

definition mutual :: "nat list \<Rightarrow> (nat, nat list) bmap \<Rightarrow> nat \<Rightarrow> nat \<Rightarrow> bool" where
  "mutual R incoming i j \<longleftrightarrow>
     j \<in> reach_set (outgoing_of R incoming) {i} \<and> i \<in> reach_set (outgoing_of R incoming) {j}"

lemma component_mutual: "set (component R incoming c) = {x \<in> set R. mutual R incoming c x}"
  by (auto simp: component_def reaches_correct mutual_def)

lemma mutual_sym: "mutual R incoming i j \<Longrightarrow> mutual R incoming j i"
  by (simp add: mutual_def)

lemma mutual_trans: "mutual R incoming i j \<Longrightarrow> mutual R incoming j k \<Longrightarrow> mutual R incoming i k"
  unfolding mutual_def by (meson reach_set_trans)

lemma reach_mono:
  assumes "distinct (map fst incoming)" and "set R' \<subseteq> set R"
  shows "reach_set (outgoing_of R' incoming) S \<subseteq> reach_set (outgoing_of R incoming) S"
proof (rule reach_set_least)
  have "set (outgoing_of R' incoming x) \<subseteq> set (outgoing_of R incoming x)" for x
    using assms(2) by (auto simp: outgoing_iff [OF assms(1)])
  then show "set (outgoing_of R' incoming x) \<subseteq> reach_set (outgoing_of R incoming) S"
    if "x \<in> reach_set (outgoing_of R incoming) S" for x
    using that reach_set_step by fast
qed auto

lemma mutual_mono:
  assumes "distinct (map fst incoming)" and "set R' \<subseteq> set R"
  shows "mutual R' incoming i j \<Longrightarrow> mutual R incoming i j"
  using reach_mono [OF assms] by (auto simp: mutual_def)

text \<open>A finite graph has a source component, so the fallback of the source is never taken.\<close>

lemma source_component_exists:
  assumes d: "distinct (map fst incoming)" and "R \<noteq> []"
  obtains c where "c \<in> set R" and "\<not> has_external_prerequisite R incoming (component R incoming c)"
proof -
  let ?succ = "outgoing_of R incoming"
  define anc where "anc c = {x \<in> set R. c \<in> reach_set ?succ {x}}" for c
  obtain c where c: "c \<in> set R" and least: "\<And>x. x \<in> set R \<Longrightarrow> card (anc c) \<le> card (anc x)"
    using assms(2) ex_has_least_nat [of "\<lambda>c. c \<in> set R" "hd R" "\<lambda>x. card (anc x)"] by auto
  have "\<not> has_external_prerequisite R incoming (component R incoming c)"
  proof
    assume "has_external_prerequisite R incoming (component R incoming c)"
    then obtain n p where n: "n \<in> set (component R incoming c)" and p: "p \<in> set R"
      and ext: "p \<notin> set (component R incoming c)" and dep: "p \<in> set (incoming_of incoming n)"
      by (auto simp: has_external_prerequisite_def list_ex_iff)
    have np: "n \<in> reach_set ?succ {p}"
    proof (rule reach_set_step [of p])
      show "n \<in> set (?succ p)" using n p dep by (simp add: outgoing_iff [OF d] component_mutual)
    qed simp
    have "c \<in> reach_set ?succ {n}" using n by (simp add: component_mutual mutual_def)
    then have pc: "c \<in> reach_set ?succ {p}" by (rule reach_set_trans [OF _ np])
    then have "anc p \<subseteq> anc c" by (auto simp: anc_def intro: reach_set_trans [OF pc])
    moreover have "c \<in> anc c" using c by (simp add: anc_def)
    moreover have "c \<notin> anc p" using pc p ext by (auto simp: anc_def component_mutual mutual_def)
    ultimately have "anc p \<subset> anc c" by blast
    then have "card (anc p) < card (anc c)" by (intro psubset_card_mono) (simp_all add: anc_def)
    with least [OF p] show False by simp
  qed
  with c that show thesis by blast
qed

lemma first_source_None:
  "first_source R incoming cs = None \<Longrightarrow> c \<in> set cs \<Longrightarrow>
     has_external_prerequisite R incoming (component R incoming c)"
  by (induction cs) (auto simp: Let_def split: if_splits)

lemma source_component_spec:
  assumes "distinct (map fst incoming)" and "R \<noteq> []"
  shows "\<exists>c \<in> set R. source_dependency_component R incoming = component R incoming c \<and>
     \<not> has_external_prerequisite R incoming (component R incoming c)"
proof (cases "first_source R incoming R")
  case None
  with source_component_exists [OF assms] first_source_None show ?thesis by metis
next
  case (Some members)
  with first_source_props [OF Some] show ?thesis by (auto simp: source_dependency_component_def)
qed

text \<open>What one round guarantees.\<close>

lemma select_wave_spec:
  fixes high_risk incoming canary and R :: "nat list"
  assumes d: "distinct (map fst incoming)" and "R \<noteq> []"
  defines "sel \<equiv> set (select_wave high_risk incoming canary R)"
  shows "sel \<subseteq> set R" and "sel \<noteq> {}"
    and "\<And>i p. i \<in> sel \<Longrightarrow> p \<in> set (incoming_of incoming i) \<Longrightarrow> p \<in> set R \<Longrightarrow> p \<in> sel \<and> mutual R incoming i p"
    and "\<And>i j. i \<in> sel \<Longrightarrow> j \<in> sel \<Longrightarrow> i \<noteq> j \<Longrightarrow> i \<in> set high_risk \<or> canary \<Longrightarrow> mutual R incoming i j"
proof -
  show "sel \<subseteq> set R" and "sel \<noteq> {}"
    unfolding sel_def using select_wave_selects [OF assms(2)] by simp_all
  have "(\<forall>i p. i \<in> sel \<and> p \<in> set (incoming_of incoming i) \<and> p \<in> set R \<longrightarrow> p \<in> sel \<and> mutual R incoming i p) \<and>
    (\<forall>i j. i \<in> sel \<and> j \<in> sel \<and> i \<noteq> j \<and> (i \<in> set high_risk \<or> canary) \<longrightarrow> mutual R incoming i j)"
  proof (rule select_wave_cases [OF assms(2), of high_risk incoming canary])
    fix i assume "select_wave high_risk incoming canary R = [i]"
      and "\<forall>p \<in> set (incoming_of incoming i). p \<notin> set R"
    then show ?thesis by (auto simp: sel_def)
  next
    assume "select_wave high_risk incoming canary R =
        filter (\<lambda>i. i \<notin> set high_risk) (filter (\<lambda>i. \<forall>p \<in> set (incoming_of incoming i). p \<notin> set R) R)"
      and "\<not> canary"
    then show ?thesis by (auto simp: sel_def)
  next
    assume cycle: "select_wave high_risk incoming canary R = source_dependency_component R incoming"
    obtain c where c: "c \<in> set R" "source_dependency_component R incoming = component R incoming c"
      and src: "\<not> has_external_prerequisite R incoming (component R incoming c)"
      using source_component_spec [OF d assms(2)] by blast
    have sel: "sel = {x \<in> set R. mutual R incoming c x}"
      using cycle c by (simp add: sel_def component_mutual)
    have "mutual R incoming i j" if "i \<in> sel" "j \<in> sel" for i j
      using that mutual_sym mutual_trans unfolding sel by blast
    moreover have "p \<in> sel" if "i \<in> sel" "p \<in> set (incoming_of incoming i)" "p \<in> set R" for i p
      using src that unfolding has_external_prerequisite_def component_mutual
      by (auto simp: list_ex_iff component_mutual sel)
    ultimately show ?thesis by blast
  qed
  then show "\<And>i p. i \<in> sel \<Longrightarrow> p \<in> set (incoming_of incoming i) \<Longrightarrow> p \<in> set R \<Longrightarrow> p \<in> sel \<and> mutual R incoming i p"
    and "\<And>i j. i \<in> sel \<Longrightarrow> j \<in> sel \<Longrightarrow> i \<noteq> j \<Longrightarrow> i \<in> set high_risk \<or> canary \<Longrightarrow> mutual R incoming i j"
    by blast+
qed

section \<open>The whole assignment\<close>

lemma set_waves_nth:
  "j < length ts \<Longrightarrow> foldl (\<lambda>ts i. set_wave w i ts) ts sel ! j =
     (if j \<in> set sel then (ts ! j)\<lparr>pt_wave := w\<rparr> else ts ! j)"
proof (induction sel arbitrary: ts)
  case (Cons i sel)
  then have "j < length (set_wave w i ts)" by (simp add: set_wave_def)
  from Cons.IH [OF this] Cons.prems show ?case
    by (cases "i = j") (auto simp: set_wave_def nth_list_update)
qed simp

lemma set_waves_length [simp]: "length (foldl (\<lambda>ts i. set_wave w i ts) ts sel) = length ts"
  by (induction sel arbitrary: ts) (simp_all add: set_wave_def)

definition same_but_wave :: "planned_target list \<Rightarrow> planned_target list \<Rightarrow> bool" where
  "same_but_wave ts ts' \<longleftrightarrow> length ts' = length ts \<and>
     (\<forall>j < length ts. (ts' ! j)\<lparr>pt_wave := 0\<rparr> = (ts ! j)\<lparr>pt_wave := 0\<rparr>)"

lemma wave_loop_frame:
  fixes xa hr incoming w canary and R :: "nat list"
  assumes "set R \<subseteq> {..<length ts}"
  defines "ts' \<equiv> wave_loop xa hr incoming R w canary ts"
  shows "same_but_wave ts ts' \<and> (\<forall>j < length ts. j \<notin> set R \<longrightarrow> ts' ! j = ts ! j) \<and>
    (\<forall>j \<in> set R. w \<le> pt_wave (ts' ! j) \<and> pt_wave (ts' ! j) < w + length R)"
  using assms(1) unfolding ts'_def
proof (induction xa hr incoming R w canary ts rule: wave_loop.induct)
  case (1 xa hr incoming R w canary ts)
  show ?case
  proof (cases "R = []")
    case True
    then show ?thesis by (simp add: wave_loop.simps same_but_wave_def)
  next
    case False
    note False0 = False
    define sel where "sel = select_wave hr incoming canary R"
    define R' where "R' = filter (\<lambda>i. i \<notin> set sel) R"
    define ts1 where "ts1 = foldl (\<lambda>ts i. set_wave w i ts) ts sel"
    define ts2 where "ts2 = wave_loop xa hr incoming R' (Suc w)
      (canary \<and> \<not> list_ex (\<lambda>i. i \<in> set xa) sel) ts1"
    have eq: "wave_loop xa hr incoming R w canary ts = ts2"
      using False by (subst wave_loop.simps) (simp add: Let_def sel_def R'_def ts1_def ts2_def)
    have sub: "set R' \<subseteq> {..<length ts1}" using "1.prems" by (auto simp: R'_def ts1_def)
    have IH: "same_but_wave ts1 ts2 \<and> (\<forall>j < length ts1. j \<notin> set R' \<longrightarrow> ts2 ! j = ts1 ! j) \<and>
        (\<forall>j \<in> set R'. Suc w \<le> pt_wave (ts2 ! j) \<and> pt_wave (ts2 ! j) < Suc w + length R')"
      unfolding ts2_def
      by (rule "1.IH" [OF False sel_def refl, folded R'_def ts1_def, OF sub])
    have sel: "sel \<noteq> []" "set sel \<subseteq> set R"
      unfolding sel_def using select_wave_selects [OF False] by simp_all
    then have short: "length R' < length R"
      unfolding R'_def by (intro length_filter_less [of "hd sel"]) (auto dest: subsetD hd_in_set)
    have ts1: "j < length ts \<Longrightarrow> ts1 ! j = (if j \<in> set sel then (ts ! j)\<lparr>pt_wave := w\<rparr> else ts ! j)" for j
      by (simp add: ts1_def set_waves_nth)
    have len: "length ts1 = length ts" by (simp add: ts1_def)
    have frame: "same_but_wave ts ts2"
      using IH ts1 len by (auto simp: same_but_wave_def)
    moreover have "ts2 ! j = ts ! j" if "j < length ts" "j \<notin> set R" for j
      using that IH len ts1 [of j] sel(2) by (auto simp: R'_def)
    moreover have "w \<le> pt_wave (ts2 ! j) \<and> pt_wave (ts2 ! j) < w + length R" if "j \<in> set R" for j
    proof (cases "j \<in> set sel")
      case True
      with that "1.prems" IH len ts1 [of j] have "ts2 ! j = (ts ! j)\<lparr>pt_wave := w\<rparr>" by (auto simp: R'_def)
      with False0 show ?thesis by simp
    next
      case False
      with that have "j \<in> set R'" by (simp add: R'_def)
      with IH short show ?thesis by fastforce
    qed
    ultimately show ?thesis unfolding eq by blast
  qed
qed

text \<open>
  One unfolding of the loop: the selected targets get this wave, the others a later one, and
  their waves are those of the rest of the run.
\<close>

lemma wave_loop_step:
  fixes xa hr incoming w canary and R :: "nat list"
  assumes "R \<noteq> []" and "set R \<subseteq> {..<length ts}"
  defines "sel \<equiv> select_wave hr incoming canary R"
  defines "R' \<equiv> filter (\<lambda>i. i \<notin> set sel) R"
    and "ts1 \<equiv> foldl (\<lambda>ts i. set_wave w i ts) ts sel"
    and "canary' \<equiv> canary \<and> \<not> list_ex (\<lambda>i. i \<in> set xa) sel"
    and "ts' \<equiv> wave_loop xa hr incoming R w canary ts"
  shows "ts' = wave_loop xa hr incoming R' (Suc w) canary' ts1 \<and> set R' \<subseteq> {..<length ts1} \<and>
    (\<forall>j \<in> set sel. pt_wave (ts' ! j) = w) \<and> (\<forall>j \<in> set R. j \<notin> set sel \<longrightarrow> w < pt_wave (ts' ! j))"
proof -
  have eq: "ts' = wave_loop xa hr incoming R' (Suc w) canary' ts1"
    unfolding ts'_def using assms(1)
    by (subst wave_loop.simps) (simp add: Let_def sel_def R'_def ts1_def canary'_def)
  have sub: "set R' \<subseteq> {..<length ts1}" using assms(2) by (auto simp: R'_def ts1_def)
  note frame = wave_loop_frame [OF sub, of xa hr incoming "Suc w" canary', folded eq]
  have sel: "set sel \<subseteq> set R" unfolding sel_def using select_wave_selects [OF assms(1)] by simp
  have "pt_wave (ts' ! j) = w" if "j \<in> set sel" for j
  proof -
    have j: "j < length ts" "j \<notin> set R'" using that sel assms(2) by (auto simp: R'_def)
    with frame have "ts' ! j = ts1 ! j" by (simp add: ts1_def)
    with j that show ?thesis by (simp add: ts1_def set_waves_nth)
  qed
  moreover have "w < pt_wave (ts' ! j)" if "j \<in> set R" "j \<notin> set sel" for j
    using that frame by (auto simp: R'_def dest: bspec)
  ultimately show ?thesis using eq sub by blast
qed

definition waves_ordered :: "nat list \<Rightarrow> (nat, nat list) bmap \<Rightarrow> nat list \<Rightarrow> (nat \<Rightarrow> nat) \<Rightarrow> bool" where
  "waves_ordered hr incoming R wv \<longleftrightarrow>
     (\<forall>i \<in> set R. \<forall>p \<in> set (incoming_of incoming i) \<inter> set R.
        wv p < wv i \<or> wv p = wv i \<and> mutual R incoming i p) \<and>
     (\<forall>i \<in> set R. \<forall>j \<in> set R. i \<noteq> j \<and> wv i = wv j \<and> i \<in> set hr \<longrightarrow> mutual R incoming i j)"

definition first_alone :: "nat list \<Rightarrow> (nat, nat list) bmap \<Rightarrow> nat list \<Rightarrow> (nat \<Rightarrow> nat) \<Rightarrow> bool" where
  "first_alone xa incoming R wv \<longleftrightarrow>
     (\<forall>i \<in> set R \<inter> set xa. (\<forall>k \<in> set R \<inter> set xa. wv i \<le> wv k) \<longrightarrow>
        (\<forall>j \<in> set R. j \<noteq> i \<and> wv j = wv i \<longrightarrow> mutual R incoming i j))"

lemma wave_loop_ordered:
  fixes xa hr incoming w canary and R :: "nat list"
  assumes d: "distinct (map fst incoming)" and "set R \<subseteq> {..<length ts}"
  shows "waves_ordered hr incoming R (\<lambda>j. pt_wave (wave_loop xa hr incoming R w canary ts ! j)) \<and>
    (canary \<longrightarrow> first_alone xa incoming R (\<lambda>j. pt_wave (wave_loop xa hr incoming R w canary ts ! j)))"
  using assms(2)
proof (induction "length R" arbitrary: R w canary ts rule: less_induct)
  case less
  show ?case
  proof (cases "R = []")
    case True
    then show ?thesis by (simp add: waves_ordered_def first_alone_def)
  next
    case False
    let ?sel = "select_wave hr incoming canary R"
    let ?R = "filter (\<lambda>i. i \<notin> set ?sel) R"
    let ?c = "canary \<and> \<not> list_ex (\<lambda>i. i \<in> set xa) ?sel"
    let ?wv = "\<lambda>j. pt_wave (wave_loop xa hr incoming R w canary ts ! j)"
    let ?ts = "foldl (\<lambda>ts i. set_wave w i ts) ts ?sel"
    have step: "wave_loop xa hr incoming R w canary ts = wave_loop xa hr incoming ?R (Suc w) ?c ?ts"
      "set ?R \<subseteq> {..<length ?ts}"
      "\<And>j. j \<in> set ?sel \<Longrightarrow> ?wv j = w" "\<And>j. j \<in> set R \<Longrightarrow> j \<notin> set ?sel \<Longrightarrow> w < ?wv j"
      using wave_loop_step [OF False less.prems, where hr = hr and incoming = incoming and canary = canary
        and w = w and xa = xa] by blast+
    note spec = select_wave_spec [OF d False, where high_risk = hr and canary = canary]
    obtain k where "k \<in> set R" "k \<in> set ?sel" using spec(1,2) by (metis all_not_in_conv subsetD)
    then have short: "length ?R < length R" by (intro length_filter_less) auto
    have IH: "waves_ordered hr incoming ?R ?wv" "?c \<Longrightarrow> first_alone xa incoming ?R ?wv"
      using less.hyps [OF short step(2), of "Suc w" ?c] unfolding step(1) by blast+
    have up: "mutual ?R incoming i j \<Longrightarrow> mutual R incoming i j" for i j
      by (rule mutual_mono [OF d]) auto
    have "waves_ordered hr incoming R ?wv"
      unfolding waves_ordered_def
    proof (intro conjI ballI impI)
      fix i p assume i: "i \<in> set R" and p: "p \<in> set (incoming_of incoming i) \<inter> set R"
      show "?wv p < ?wv i \<or> ?wv p = ?wv i \<and> mutual R incoming i p"
      proof (cases "i \<in> set ?sel"; cases "p \<in> set ?sel")
        assume "i \<in> set ?sel" "p \<in> set ?sel"
        with spec(3) p show ?thesis by (auto simp: step(3))
      next
        assume "i \<in> set ?sel" "p \<notin> set ?sel"
        with spec(3) p show ?thesis by auto
      next
        assume "i \<notin> set ?sel" "p \<in> set ?sel"
        with step(3) [of p] step(4) [OF i] show ?thesis by simp
      next
        assume "i \<notin> set ?sel" "p \<notin> set ?sel"
        with IH(1) i p up show ?thesis unfolding waves_ordered_def by fastforce
      qed
    next
      fix i j assume ij: "i \<in> set R" "j \<in> set R" "i \<noteq> j \<and> ?wv i = ?wv j \<and> i \<in> set hr"
      show "mutual R incoming i j"
      proof (cases "i \<in> set ?sel")
        case True
        with ij step(3,4) have "j \<in> set ?sel" by fastforce
        with spec(4) True ij show ?thesis by blast
      next
        case False
        with ij step(3,4) have "j \<notin> set ?sel" by fastforce
        with False IH(1) ij up show ?thesis unfolding waves_ordered_def by fastforce
      qed
    qed
    moreover have "first_alone xa incoming R ?wv" if canary
      unfolding first_alone_def
    proof (intro ballI impI)
      fix i j assume i: "i \<in> set R \<inter> set xa" and least: "\<forall>k \<in> set R \<inter> set xa. ?wv i \<le> ?wv k"
        and j: "j \<in> set R" "j \<noteq> i \<and> ?wv j = ?wv i"
      show "mutual R incoming i j"
      proof (cases "list_ex (\<lambda>i. i \<in> set xa) ?sel")
        case True
        then obtain k where k: "k \<in> set ?sel" "k \<in> set xa" by (auto simp: list_ex_iff)
        with least spec(1) have "?wv i \<le> ?wv k" by blast
        then have "?wv i \<le> w" unfolding step(3) [OF k(1)] .
        with i step(4) [of i] have isel: "i \<in> set ?sel" by fastforce
        with j step(3,4) have "j \<in> set ?sel" by fastforce
        with isel j \<open>canary\<close> spec(4) show ?thesis by blast
      next
        case none: False
        with i have isel: "i \<notin> set ?sel" by (auto simp: list_ex_iff)
        with i j step(3,4) have jsel: "j \<notin> set ?sel" by fastforce
        have "first_alone xa incoming ?R ?wv" using IH(2) none \<open>canary\<close> by blast
        with i j isel jsel least have "mutual ?R incoming i j" by (auto simp: first_alone_def)
        then show ?thesis by (rule up)
      qed
    qed
    ultimately show ?thesis by blast
  qed
qed

section \<open>What \<open>assign_waves\<close> promises\<close>

text \<open>
  \<open>(i, j) \<in> depends\<close>: target \<open>i\<close> lists the machine of target \<open>j\<close> as a
  prerequisite and both are ordered.
\<close>

definition depends :: "planned_target list \<Rightarrow> (nat \<times> nat) set" where
  "depends targets = {(i, j). i \<in> set (ordered_targets targets) \<and> j \<in> set (ordered_targets targets) \<and>
     pt_node_id (targets ! j) \<in> set (pt_prerequisites (targets ! i))}"

definition mutually_dependent :: "planned_target list \<Rightarrow> nat \<Rightarrow> nat \<Rightarrow> bool" where
  "mutually_dependent targets i j \<longleftrightarrow> (i, j) \<in> (depends targets)\<^sup>* \<and> (j, i) \<in> (depends targets)\<^sup>*"

lemma wave_independent:
  defines "z \<equiv> map (\<lambda>t :: planned_target. t\<lparr>pt_wave := 0\<rparr>)"
  shows "xray_apply_targets (z ts) = xray_apply_targets ts" and "high_risk_targets (z ts) = high_risk_targets ts"
    and "ordered_targets (z ts) = ordered_targets ts" and "incoming_map (z ts) = incoming_map ts"
proof -
  show a: "xray_apply_targets (z ts) = xray_apply_targets ts"
    unfolding xray_apply_targets_def z_def by (auto intro: filter_cong)
  show b: "high_risk_targets (z ts) = high_risk_targets ts"
    unfolding high_risk_targets_def z_def by (auto intro: filter_cong)
  show c: "ordered_targets (z ts) = ordered_targets ts" by (simp add: ordered_targets_def a b)
  have d: "node_index (z ts) = node_index ts"
    unfolding node_index_def z_def
    by (rule arg_cong [of _ _ bcollect], rule nth_equalityI) (simp_all add: nth_enumerate_eq)
  have "i < length ts" if "i \<in> set (ordered_targets ts)" for i
    using that by (auto simp: ordered_targets_def xray_apply_targets_def high_risk_targets_def)
  then show "incoming_map (z ts) = incoming_map ts"
    unfolding incoming_map_def Let_def c d by (auto simp: z_def)
qed

lemma ordered_less: "i \<in> set (ordered_targets ts) \<Longrightarrow> i < length ts"
  by (auto simp: ordered_targets_def xray_apply_targets_def high_risk_targets_def)

lemma incoming_map_distinct: "distinct (map fst (incoming_map ts))"
  by (simp add: incoming_map_def Let_def comp_def ordered_targets_def)

lemma node_index_lookup:
  assumes "distinct (map pt_node_id ts)"
  shows "map_of (node_index ts) n = Some p \<longleftrightarrow> p < length ts \<and> pt_node_id (ts ! p) = n"
proof -
  let ?es = "map (\<lambda>(i, t). (pt_node_id t, i)) (enumerate 0 ts)"
  have keys: "map fst ?es = map pt_node_id ts"
    by (rule nth_equalityI) (simp_all add: nth_enumerate_eq)
  have "map_of (node_index ts) n = Some p \<longleftrightarrow> map_of (rev ?es) n = Some p"
    by (simp add: node_index_def)
  also have "\<dots> \<longleftrightarrow> (n, p) \<in> set (rev ?es)"
    using assms unfolding keys [symmetric] by (intro map_of_eq_Some_iff) (simp only: rev_map [symmetric] distinct_rev)
  also have "\<dots> \<longleftrightarrow> (n, p) \<in> set ?es" by simp
  also have "\<dots> \<longleftrightarrow> p < length ts \<and> pt_node_id (ts ! p) = n"
    unfolding in_set_conv_nth by (auto simp: nth_enumerate_eq)
  finally show ?thesis .
qed

lemma incoming_depends:
  assumes "distinct (map pt_node_id ts)"
  shows "i \<in> set (ordered_targets ts) \<and> p \<in> set (ordered_targets ts) \<and> p \<in> set (incoming_of (incoming_map ts) i)
    \<longleftrightarrow> (i, p) \<in> depends ts"
proof (cases "i \<in> set (ordered_targets ts)")
  case True
  then have "incoming_of (incoming_map ts) i = bset (filter (\<lambda>p. p \<in> set (ordered_targets ts))
      (List.map_filter (map_of (node_index ts)) (pt_prerequisites (ts ! i))))"
    using map_of_map_restrict [of "\<lambda>i. bset (filter (\<lambda>p. p \<in> set (ordered_targets ts))
      (List.map_filter (map_of (node_index ts)) (pt_prerequisites (ts ! i))))" "ordered_targets ts"]
    by (simp add: incoming_of_def incoming_map_def Let_def restrict_map_def)
  moreover have "p \<in> set (List.map_filter f xs) \<longleftrightarrow> (\<exists>n \<in> set xs. f n = Some p)" for f :: "string \<Rightarrow> nat option" and xs
    by (force simp: List.map_filter_def)
  ultimately have "p \<in> set (incoming_of (incoming_map ts) i) \<longleftrightarrow> p \<in> set (ordered_targets ts) \<and>
      (\<exists>n \<in> set (pt_prerequisites (ts ! i)). p < length ts \<and> pt_node_id (ts ! p) = n)"
    by (auto simp: node_index_lookup [OF assms])
  with True ordered_less [of p ts] show ?thesis by (auto simp: depends_def)
qed (simp add: depends_def)

lemma mutual_depends:
  assumes "distinct (map pt_node_id ts)"
  shows "mutual (ordered_targets ts) (incoming_map ts) i j \<longleftrightarrow> mutually_dependent ts i j"
proof -
  have "{(x, y). y \<in> set (outgoing_of (ordered_targets ts) (incoming_map ts) x)} = (depends ts)\<inverse>"
    using incoming_depends [OF assms] by (auto simp: outgoing_iff [OF incoming_map_distinct])
  then show ?thesis
    by (auto simp: mutual_def mutually_dependent_def reach_set_def rtrancl_converse)
qed

lemma assign_waves_eq:
  fixes ts :: "planned_target list"
  defines "z \<equiv> map (\<lambda>t :: planned_target. t\<lparr>pt_wave := 0\<rparr>) ts"
  shows "assign_waves ts =
    wave_loop (xray_apply_targets ts) (high_risk_targets ts) (incoming_map ts) (ordered_targets ts) 1 True z"
    and "set (ordered_targets ts) \<subseteq> {..<length z}"
  using ordered_less by (auto simp: assign_waves_def Let_def wave_independent z_def)

lemma assign_waves_numbers:
  "same_but_wave ts (assign_waves ts) \<and>
     (\<forall>i < length ts. let w = pt_wave (assign_waves ts ! i) in
        (w > 0 \<longleftrightarrow> i \<in> set (ordered_targets ts)) \<and> w \<le> length (ordered_targets ts))"
proof -
  let ?z = "map (\<lambda>t :: planned_target. t\<lparr>pt_wave := 0\<rparr>) ts"
  have f: "same_but_wave ?z (assign_waves ts)"
    "\<forall>j < length ts. j \<notin> set (ordered_targets ts) \<longrightarrow> assign_waves ts ! j = ?z ! j"
    "\<forall>j \<in> set (ordered_targets ts). 1 \<le> pt_wave (assign_waves ts ! j) \<and>
       pt_wave (assign_waves ts ! j) < 1 + length (ordered_targets ts)"
    using wave_loop_frame [OF assign_waves_eq(2) [of ts], where xa = "xray_apply_targets ts" and hr = "high_risk_targets ts"
      and incoming = "incoming_map ts" and w = 1 and canary = True]
    unfolding assign_waves_eq(1) [of ts, symmetric] by simp_all
  have "same_but_wave ts (assign_waves ts)" using f(1) by (simp add: same_but_wave_def)
  moreover have "(pt_wave (assign_waves ts ! i) > 0 \<longleftrightarrow> i \<in> set (ordered_targets ts)) \<and>
      pt_wave (assign_waves ts ! i) \<le> length (ordered_targets ts)" if "i < length ts" for i
    using that f(2,3) by (cases "i \<in> set (ordered_targets ts)") (fastforce, simp)
  ultimately show ?thesis by (simp add: Let_def)
qed

text \<open>C23: assigning waves terminates and changes nothing but the wave numbers; a target gets a wave of its own (one or later) exactly when it applies an Xray change or is a disruptive disable, every other target stays in wave zero, and no wave number exceeds the number of ordered targets.\<close>

theorem assign_waves_frame:
  "same_but_wave ts (assign_waves ts) \<and>
     (\<forall>i < length ts. let w = pt_wave (assign_waves ts ! i) in
        (w > 0 \<longleftrightarrow> i \<in> set (ordered_targets ts)) \<and> w \<le> length (ordered_targets ts))"
  by (rule assign_waves_numbers)

lemma assign_waves_ordered:
  "waves_ordered (high_risk_targets ts) (incoming_map ts) (ordered_targets ts) (\<lambda>j. pt_wave (assign_waves ts ! j))"
  "first_alone (xray_apply_targets ts) (incoming_map ts) (ordered_targets ts) (\<lambda>j. pt_wave (assign_waves ts ! j))"
  using wave_loop_ordered [OF incoming_map_distinct assign_waves_eq(2)] unfolding assign_waves_eq(1) by simp_all

lemma waves_prerequisites:
  assumes "distinct (map pt_node_id ts)" and "(i, j) \<in> depends ts"
  shows "pt_wave (assign_waves ts ! j) < pt_wave (assign_waves ts ! i) \<or>
    pt_wave (assign_waves ts ! j) = pt_wave (assign_waves ts ! i) \<and> mutually_dependent ts i j"
  using assign_waves_ordered(1) [of ts] incoming_depends [OF assms(1), of i j] assms(2)
  unfolding waves_ordered_def mutual_depends [OF assms(1)] by blast

lemma waves_of_prerequisites:
  assumes "distinct (map pt_node_id ts)" and "i \<in> set (ordered_targets ts)" and "j < length ts"
    and "pt_node_id (ts ! j) \<in> set (pt_prerequisites (ts ! i))"
  shows "pt_wave (assign_waves ts ! j) < pt_wave (assign_waves ts ! i) \<or>
    pt_wave (assign_waves ts ! j) = pt_wave (assign_waves ts ! i) \<and> mutually_dependent ts i j"
proof (cases "j \<in> set (ordered_targets ts)")
  case True
  with assms have "(i, j) \<in> depends ts" by (simp add: depends_def)
  then show ?thesis by (rule waves_prerequisites [OF assms(1)])
next
  case False
  have "pt_wave (assign_waves ts ! j) = 0" "0 < pt_wave (assign_waves ts ! i)"
    using assign_waves_numbers [of ts] ordered_less [OF assms(2)] assms(2,3) False
    unfolding Let_def by (metis neq0_conv)+
  then show ?thesis by simp
qed

text \<open>C6: a target with a wave of its own, that is one that applies an Xray change or is a disruptive disable, never ships before a machine it lists as a prerequisite: the prerequisite has an earlier wave (wave zero when it has none of its own), or the same wave only when the two machines wait for each other through a cycle of prerequisites. The other targets stay in wave zero and wait for nothing.\<close>

theorem waves_respect_prerequisites:
  assumes "distinct (map pt_node_id ts)" and "i \<in> set (ordered_targets ts)" and "j < length ts"
    and "pt_node_id (ts ! j) \<in> set (pt_prerequisites (ts ! i))"
  shows "pt_wave (assign_waves ts ! j) < pt_wave (assign_waves ts ! i) \<or>
    pt_wave (assign_waves ts ! j) = pt_wave (assign_waves ts ! i) \<and> mutually_dependent ts i j"
  using assms by (rule waves_of_prerequisites)

text \<open>C21: a disruptive disable ships alone: no other target shares its wave, except one it is in a cycle of prerequisites with.\<close>

theorem waves_isolate_disables:
  assumes "distinct (map pt_node_id ts)" and "i < length ts" and "j < length ts" and "i \<noteq> j"
    and "i \<in> set (high_risk_targets ts)" and "pt_wave (assign_waves ts ! i) = pt_wave (assign_waves ts ! j)"
  shows "mutually_dependent ts i j"
proof -
  have i: "i \<in> set (ordered_targets ts)" using assms(5) by (simp add: ordered_targets_def)
  moreover have "j \<in> set (ordered_targets ts)"
    using assign_waves_numbers [of ts] i assms(2,3,6) unfolding Let_def by metis
  ultimately show ?thesis
    using assign_waves_ordered(1) [of ts] assms(4-6) unfolding waves_ordered_def mutual_depends [OF assms(1)] by blast
qed

text \<open>C22: the first wave that applies an Xray change holds one target only, the canary, or one cycle of mutually dependent machines.\<close>

theorem waves_start_with_a_canary:
  assumes "distinct (map pt_node_id ts)" and "i \<in> set (xray_apply_targets ts)"
    and "\<forall>k \<in> set (xray_apply_targets ts). pt_wave (assign_waves ts ! i) \<le> pt_wave (assign_waves ts ! k)"
    and "j < length ts" and "j \<noteq> i" and "pt_wave (assign_waves ts ! j) = pt_wave (assign_waves ts ! i)"
  shows "mutually_dependent ts i j"
proof -
  have i: "i \<in> set (ordered_targets ts)" using assms(2) by (simp add: ordered_targets_def)
  moreover have "j \<in> set (ordered_targets ts)"
    using assign_waves_numbers [of ts] i ordered_less [OF i] assms(4,6) unfolding Let_def by metis
  ultimately show ?thesis
    using assign_waves_ordered(2) [of ts] assms(2,3,5,6)
    unfolding first_alone_def mutual_depends [OF assms(1)] by blast
qed

text \<open>A two-machine cycle: the caller is disabled while the owner is changed.\<close>

definition sample_target :: "string \<Rightarrow> string list \<Rightarrow> planned_action list \<Rightarrow> bool \<Rightarrow> planned_target" where
  "sample_target node prerequisites actions disruptive =
     \<lparr>pt_node_id = node, pt_status = Pending, pt_wave = 0, pt_disruptive = disruptive,
      pt_prerequisites = prerequisites, pt_actions = actions,
      pt_desired = \<lparr>nd_phantun = Unmanaged (Msg [] []), nd_wireguard = Unmanaged (Msg [] []),
        nd_xray = Unmanaged (Msg [] []), nd_hy2_port_hop = Unmanaged (Msg [] []),
        nd_grants = GrantsUnmanaged (Msg [] [])\<rparr>\<rparr>"

definition sample_cycle :: "planned_target list" where
  "sample_cycle = [sample_target ''a'' [''b''] [DisableXray] True, sample_target ''b'' [''a''] [ApplyXray] False]"

definition sample_line :: "planned_target list" where
  "sample_line = [sample_target ''a'' [''b''] [ApplyXray] False, sample_target ''b'' [] [ApplyXray] False,
     sample_target ''c'' [] [DisableXray] True, sample_target ''d'' [] [ApplyWireGuard] False]"

lemma sample_line_waves: "map pt_wave (assign_waves sample_line) = [2, 1, 3, 0]"
  by code_simp

lemma sample_cycle_waves: "map pt_wave (assign_waves sample_cycle) = [1, 1]"
  by code_simp

lemma sample_cycle_facts:
  "distinct (map pt_node_id sample_cycle)" "length sample_cycle = 2"
  "ordered_targets sample_cycle = [0, 1]" "high_risk_targets sample_cycle = [0]"
  "xray_apply_targets sample_cycle = [1]"
  "pt_wave (assign_waves sample_cycle ! 0) = 1" "pt_wave (assign_waves sample_cycle ! 1) = 1"
  by code_simp+

theorem assign_waves_frame_witness:
  "let w = pt_wave (assign_waves sample_line ! 0) in
     (w > 0 \<longleftrightarrow> 0 \<in> set (ordered_targets sample_line)) \<and> w \<le> length (ordered_targets sample_line)"
proof -
  have "0 < length sample_line" by code_simp
  with assign_waves_frame [of sample_line] show ?thesis by blast
qed

theorem waves_respect_prerequisites_witness:
  "pt_wave (assign_waves sample_line ! 1) < pt_wave (assign_waves sample_line ! 0) \<or>
    pt_wave (assign_waves sample_line ! 1) = pt_wave (assign_waves sample_line ! 0) \<and>
      mutually_dependent sample_line 0 1"
proof (rule waves_respect_prerequisites)
  show "distinct (map pt_node_id sample_line)" by code_simp
  show "0 \<in> set (ordered_targets sample_line)" "1 < length sample_line"
    "pt_node_id (sample_line ! 1) \<in> set (pt_prerequisites (sample_line ! 0))"
    by code_simp+
qed

theorem waves_isolate_disables_witness: "mutually_dependent sample_cycle 0 1"
  by (rule waves_isolate_disables) (simp_all add: sample_cycle_facts sample_cycle_facts(7) [simplified])

theorem waves_start_with_a_canary_witness: "mutually_dependent sample_cycle 1 0"
  by (rule waves_start_with_a_canary) (simp_all add: sample_cycle_facts sample_cycle_facts(7) [simplified])

end
