(* ===== verification/Plan.thy ===== *)
theory Plan
  imports Waves Hot_Swap
begin

text \<open>
  The planner of \<open>crates/brocade-deployment/src/plan.rs\<close>: from the desired state of every
  machine and what is known of it, the actions it owes, whether they disturb traffic, the
  machines that have to go first, and the plan narrowed to one kind of deployment. Parameters:
  \<open>parse\<close> and \<open>print\<close> (\<open>serde_json\<close>), \<open>sha\<close> (\<open>sha256_hex\<close>), and
  \<open>project\<close>, which renders the artifacts of one machine from the compiled layers.
\<close>

section \<open>Desired state\<close>

text \<open>
  What the planner reads of one projected machine: each artifact as its rendered text, or
  \<open>None\<close> where its builder returns \<open>Disabled\<close>, and the grant work list of an xray workload.
\<close>

record grant_client_plan =
  gcp_uuid :: string
  gcp_label :: string
  gcp_flow :: "string option"

record grant_update_plan =
  gup_inbound_tag :: string
  gup_clients :: "grant_client_plan list"

record node_artifacts =
  na_node_id :: string
  na_phantun :: "string option"
  na_wireguard :: "string option"
  na_xray :: "string option"
  na_hy2_port_hop :: "string option"
  na_grants :: "grant_update_plan list option"

text \<open>\<open>build_sync\<close> and \<open>client\<close> of \<open>artifacts/grants.rs\<close>: label, uuid, flow, level zero.\<close>

definition build_sync :: "grant_update_plan list \<Rightarrow> (string \<times> (string \<times> string \<times> string option \<times> u8) list) list" where
  "build_sync updates =
     map (\<lambda>u. (gup_inbound_tag u,
       map (\<lambda>c. (gcp_uuid c, gcp_label c, gcp_flow c, 0)) (gup_clients u))) updates"

definition grant_inbounds ::
  "(string \<times> (string \<times> string \<times> string option \<times> u8) list) list \<Rightarrow> grant_inbound list" where
  "grant_inbounds inbounds =
     sort (map (\<lambda>(tag, clients). GrantInbound tag
       (sort (map (\<lambda>(uuid, label, flow, level). GrantClient label uuid flow level) clients))) inbounds)"

definition desired_grants :: "grant_update_plan list option \<Rightarrow> desired_grants" where
  "desired_grants plan =
     (case plan of
        None \<Rightarrow> GrantsDisabled (Msg ''xray is disabled on this node'' [])
      | Some updates \<Rightarrow> GrantsPresent (grant_inbounds (build_sync updates)))"

definition desired_present :: "(string \<Rightarrow> string) \<Rightarrow> string \<Rightarrow> desired_artifact" where
  "desired_present sha content = Present content (sha content)"

definition desired_or_disabled ::
  "(string \<Rightarrow> string) \<Rightarrow> string \<Rightarrow> string \<Rightarrow> string option \<Rightarrow> desired_artifact" where
  "desired_or_disabled sha reason node_id content =
     (case content of Some c \<Rightarrow> desired_present sha c | None \<Rightarrow> Disabled (Msg reason [node_id]))"

definition desired_state :: "(string \<Rightarrow> string) \<Rightarrow> node_artifacts \<Rightarrow> node_desired_state" where
  "desired_state sha n =
     \<lparr>nd_phantun = desired_or_disabled sha ''no phantun'' (na_node_id n) (na_phantun n),
      nd_wireguard = desired_or_disabled sha ''no overlay'' (na_node_id n) (na_wireguard n),
      nd_xray = desired_or_disabled sha ''no xray'' (na_node_id n) (na_xray n),
      nd_hy2_port_hop = desired_or_disabled sha ''no port hop'' (na_node_id n) (na_hy2_port_hop n),
      nd_grants = desired_grants (na_grants n)\<rparr>"

section \<open>Actions\<close>

fun artifact_needs_action :: "desired_artifact \<Rightarrow> applied_artifact_state option \<Rightarrow> bool" where
  "artifact_needs_action (Unmanaged _) applied = False"
| "artifact_needs_action (Present _ sha256) applied =
     (case applied of
        Some (AppliedPresent applied_sha) \<Rightarrow> applied_sha \<noteq> sha256
      | Some AppliedUnmanaged \<Rightarrow> False
      | Some AppliedDisabled \<Rightarrow> True
      | Some AppliedUnknown \<Rightarrow> True
      | None \<Rightarrow> True
      | Some (AppliedDirty _) \<Rightarrow> True)"
| "artifact_needs_action (Disabled _) applied =
     (\<not> (applied = Some AppliedDisabled \<or> applied = Some AppliedUnmanaged))"

fun grants_need_action :: "desired_grants \<Rightarrow> applied_grants_state option \<Rightarrow> bool" where
  "grants_need_action (GrantsUnmanaged _) applied = False"
| "grants_need_action (GrantsDisabled _) applied = False"
| "grants_need_action (GrantsPresent inbounds) applied =
     (case applied of
        Some (AppliedGrantsPresent observed) \<Rightarrow>
          \<not> grants_match (GrantsPresent inbounds) (AppliedGrantsPresent observed)
      | Some AppliedGrantsUnmanaged \<Rightarrow> True
      | Some AppliedGrantsDisabled \<Rightarrow> True
      | Some AppliedGrantsUnknown \<Rightarrow> True
      | None \<Rightarrow> True
      | Some (AppliedGrantsDirty _) \<Rightarrow> True)"

definition planned_step ::
  "bool \<Rightarrow> desired_artifact \<Rightarrow> planned_action \<Rightarrow> planned_action \<Rightarrow> planned_action list run" where
  "planned_step needed desired apply_action disable_action =
     (if \<not> needed then Done []
      else case desired of
        Present _ _ \<Rightarrow> Done [apply_action]
      | Disabled _ \<Rightarrow> Done [disable_action]
      | Unmanaged _ \<Rightarrow> Panic)"

definition planned_actions :: "node_desired_state \<Rightarrow> node_applied_state option \<Rightarrow> planned_action list run" where
  "planned_actions desired applied =
     (let flow_changed = grants_flow_changed (nd_grants desired) (map_option ap_grants applied);
          needs = (\<lambda>a. artifact_needs_action (desired_of desired a) (map_option (\<lambda>s. applied_of s a) applied))
      in run_bind (planned_step (needs Phantun) (nd_phantun desired) ApplyPhantun DisablePhantun) (\<lambda>ph.
         run_bind (planned_step (needs WireGuard) (nd_wireguard desired) ApplyWireGuard DisableWireGuard) (\<lambda>wg.
         run_bind (planned_step (needs Xray \<or> flow_changed) (nd_xray desired) ApplyXray DisableXray) (\<lambda>xr.
         run_bind (planned_step (needs Hy2PortHop) (nd_hy2_port_hop desired) ApplyHy2PortHop DisableHy2PortHop) (\<lambda>hy.
           Done (sort (ph @ wg @ xr @ hy @
             (if grants_need_action (nd_grants desired) (map_option ap_grants applied)
              then [SyncGrants] else []))))))))"

fun forced_step :: "desired_artifact \<Rightarrow> planned_action \<Rightarrow> planned_action \<Rightarrow> planned_action list" where
  "forced_step (Present _ _) apply_action disable_action = [apply_action]"
| "forced_step (Disabled _) apply_action disable_action = [disable_action]"
| "forced_step (Unmanaged _) apply_action disable_action = []"

definition forced_actions :: "node_desired_state \<Rightarrow> planned_action list" where
  "forced_actions desired =
     sort (forced_step (nd_phantun desired) ApplyPhantun DisablePhantun
       @ forced_step (nd_wireguard desired) ApplyWireGuard DisableWireGuard
       @ forced_step (nd_xray desired) ApplyXray DisableXray
       @ forced_step (nd_hy2_port_hop desired) ApplyHy2PortHop DisableHy2PortHop
       @ (case nd_grants desired of GrantsPresent _ \<Rightarrow> [SyncGrants] | _ \<Rightarrow> []))"

definition retirement_artifacts_disabled :: "node_applied_state \<Rightarrow> bool" where
  "retirement_artifacts_disabled applied =
     list_all (\<lambda>state. state = AppliedDisabled)
       [ap_phantun applied, ap_hy2_port_hop applied, ap_wireguard applied, ap_xray applied]"

definition retirement_actions :: "node_desired_state \<Rightarrow> node_applied_state option \<Rightarrow> planned_action list" where
  "retirement_actions desired applied =
     (if (case applied of None \<Rightarrow> False | Some s \<Rightarrow> retirement_artifacts_disabled s) then []
      else forced_actions desired)"

section \<open>Disruption\<close>

definition was_ours_and_running :: "applied_artifact_state option \<Rightarrow> bool" where
  "was_ours_and_running applied =
     (case applied of Some (AppliedPresent _) \<Rightarrow> True | Some (AppliedDirty _) \<Rightarrow> True | _ \<Rightarrow> False)"

definition can_apply_without_restart ::
  "(string \<Rightarrow> json option) \<Rightarrow> (string \<Rightarrow> string) \<Rightarrow> node_applied_state option \<Rightarrow> node_desired_state \<Rightarrow> bool run"
where
  "can_apply_without_restart parse sha applied desired =
     (case applied of
        None \<Rightarrow> Done False
      | Some state \<Rightarrow>
          (case (ap_running_xray state, ap_xray state, nd_xray desired) of
             (Some running, AppliedPresent sha256, Present content _) \<Rightarrow>
               (if sha running \<noteq> sha256 then Done False
                else run_bind (hot_swap parse running content) (\<lambda>h. Done (h \<noteq> None)))
           | _ \<Rightarrow> Done False))"

fun is_disruptive ::
  "(string \<Rightarrow> json option) \<Rightarrow> (string \<Rightarrow> string) \<Rightarrow> planned_action \<Rightarrow> node_applied_state option \<Rightarrow>
     node_desired_state \<Rightarrow> bool run" where
  "is_disruptive parse sha ApplyXray applied desired =
     (if grants_flow_changed (nd_grants desired) (map_option ap_grants applied) then Done True
      else run_bind (can_apply_without_restart parse sha applied desired) (\<lambda>ok. Done (\<not> ok)))"
| "is_disruptive parse sha DisableXray applied desired =
     Done (was_ours_and_running (map_option ap_xray applied))"
| "is_disruptive parse sha DisableWireGuard applied desired =
     Done (was_ours_and_running (map_option ap_wireguard applied))"
| "is_disruptive parse sha ApplyPhantun applied desired =
     Done (was_ours_and_running (map_option ap_phantun applied))"
| "is_disruptive parse sha ApplyHy2PortHop applied desired =
     Done (was_ours_and_running (map_option ap_hy2_port_hop applied))"
| "is_disruptive parse sha DisableHy2PortHop applied desired =
     Done (was_ours_and_running (map_option ap_hy2_port_hop applied))"
| "is_disruptive parse sha DisablePhantun applied desired =
     Done (was_ours_and_running (map_option ap_phantun applied))"
| "is_disruptive parse sha ApplyWireGuard applied desired = Done False"
| "is_disruptive parse sha SyncVpngate applied desired = Done False"
| "is_disruptive parse sha SyncGrants applied desired = Done False"

fun run_any :: "('a \<Rightarrow> bool run) \<Rightarrow> 'a list \<Rightarrow> bool run" where
  "run_any f [] = Done False"
| "run_any f (x # xs) = run_bind (f x) (\<lambda>b. if b then Done True else run_any f xs)"

section \<open>Listener references\<close>

type_synonym listener_identity = "string \<times> string \<times> string \<times> string"

text \<open>
  One outbound \<open>out:route~listener>peer\<close> as the identity (route, source machine, listener,
  peer machine) and its printed value.
\<close>

definition listener_reference ::
  "(json \<Rightarrow> string) \<Rightarrow> string \<Rightarrow> json \<Rightarrow> (listener_identity \<times> string) option" where
  "listener_reference print source_node outbound =
     do { t \<leftarrow> jget ''tag'' outbound;
          tag \<leftarrow> as_str t;
          rest \<leftarrow> strip_prefix ''out:'' tag;
          (route_part, peer) \<leftarrow> split_once ''>'' rest;
          (source_route, listener) \<leftarrow> split_once ''~'' route_part;
          if \<not> ends_with listener ''@local'' \<and> peer \<noteq> []
          then Some ((source_route, source_node, listener, peer), print outbound)
          else None }"

definition listener_reference_pairs ::
  "(string \<Rightarrow> json option) \<Rightarrow> (json \<Rightarrow> string) \<Rightarrow> string \<Rightarrow> string \<Rightarrow> (listener_identity \<times> string) list" where
  "listener_reference_pairs parse print xray source_node =
     (case parse xray of
        None \<Rightarrow> []
      | Some v \<Rightarrow>
          (case Option.bind (jget ''outbounds'' v) as_array of
             None \<Rightarrow> []
           | Some outbounds \<Rightarrow> List.map_filter (listener_reference print source_node) outbounds))"

definition running_listener_reference_pairs ::
  "(string \<Rightarrow> json option) \<Rightarrow> (json \<Rightarrow> string) \<Rightarrow> node_applied_state \<Rightarrow> (listener_identity \<times> string) list" where
  "running_listener_reference_pairs parse print state =
     (case ap_running_xray state of
        None \<Rightarrow> []
      | Some running \<Rightarrow> listener_reference_pairs parse print running (ap_node_id state))"

definition desired_listener_reference_pairs ::
  "(string \<Rightarrow> json option) \<Rightarrow> (json \<Rightarrow> string) \<Rightarrow> planned_target \<Rightarrow> (listener_identity \<times> string) list" where
  "desired_listener_reference_pairs parse print target =
     (case nd_xray (pt_desired target) of
        Present content _ \<Rightarrow> listener_reference_pairs parse print content (pt_node_id target)
      | _ \<Rightarrow> [])"

definition touches_xray :: "planned_target \<Rightarrow> bool" where
  "touches_xray target =
     list_ex (\<lambda>a. a = ApplyXray \<or> a = DisableXray) (pt_actions target)"

definition changing_xray :: "planned_target list \<Rightarrow> string list" where
  "changing_xray targets =
     bset (map pt_node_id (filter (\<lambda>t. pt_status t = Pending \<and> touches_xray t) targets))"

text \<open>The set \<open>requires\<close> of (dependent, prerequisite) pairs, in its iteration order.\<close>

definition required_pairs ::
  "string list \<Rightarrow> (listener_identity, string) bmap \<Rightarrow> (listener_identity, string) bmap \<Rightarrow> (string \<times> string) list"
where
  "required_pairs changing current running =
     (let both = (\<lambda>(_, source, _, target). source \<in> set changing \<and> target \<in> set changing);
          added = filter (\<lambda>k. map_of running k = None) (map fst current);
          removed = filter (\<lambda>k. map_of current k = None) (map fst running);
          moved = filter (\<lambda>e. case map_of running (fst e) of None \<Rightarrow> False | Some old \<Rightarrow> snd e \<noteq> old) current
      in bset
          (map (\<lambda>(_, source, _, target). (source, target)) (filter both added)
           @ map (\<lambda>(_, source, _, target). (target, source)) (filter both removed)
           @ concat (map (\<lambda>((_, source, _, target), _). [(source, target), (target, source)])
               (filter (\<lambda>e. both (fst e)) moved))))"

definition add_prerequisite ::
  "(string, nat) bmap \<Rightarrow> string \<times> string \<Rightarrow> planned_target list \<Rightarrow> planned_target list" where
  "add_prerequisite index = (\<lambda>(dependent, prerequisite) targets.
     (case map_of index dependent of
        None \<Rightarrow> targets
      | Some i \<Rightarrow>
          targets[i := (targets ! i)\<lparr>pt_prerequisites := pt_prerequisites (targets ! i) @ [prerequisite]\<rparr>]))"

definition assign_listener_reference_prerequisites ::
  "(string \<Rightarrow> json option) \<Rightarrow> (json \<Rightarrow> string) \<Rightarrow> planned_target list \<Rightarrow> node_applied_state list \<Rightarrow>
     planned_target list" where
  "assign_listener_reference_prerequisites parse print targets0 applied =
     (let targets = map (\<lambda>t. t\<lparr>pt_prerequisites := []\<rparr>) targets0;
          changing = changing_xray targets;
          current = bcollect (concat (map (desired_listener_reference_pairs parse print) targets));
          running = bcollect (concat (map (running_listener_reference_pairs parse print) applied));
          filled = fold (add_prerequisite (node_index targets)) (required_pairs changing current running) targets
      in map (\<lambda>t. t\<lparr>pt_prerequisites := bset (pt_prerequisites t)\<rparr>) filled)"

section \<open>Plans\<close>

definition applied_by_node :: "node_applied_state list \<Rightarrow> (string, node_applied_state) bmap" where
  "applied_by_node applied = bcollect (map (\<lambda>s. (ap_node_id s, s)) applied)"

definition status_of :: "planned_action list \<Rightarrow> planned_target_status" where
  "status_of actions = (if actions = [] then Skipped else Pending)"

definition plan_target ::
  "(string \<Rightarrow> json option) \<Rightarrow> (string \<Rightarrow> string) \<Rightarrow> (string, node_applied_state) bmap \<Rightarrow>
     string \<times> node_desired_state \<Rightarrow> planned_target run" where
  "plan_target parse sha by_node = (\<lambda>(node_id, desired).
     (let applied = map_of by_node node_id
      in run_bind (planned_actions desired applied) (\<lambda>actions.
         run_bind (run_any (\<lambda>a. is_disruptive parse sha a applied desired) actions) (\<lambda>disruptive.
           Done \<lparr>pt_node_id = node_id, pt_status = status_of actions, pt_wave = 0,
                 pt_disruptive = disruptive, pt_prerequisites = [], pt_actions = actions,
                 pt_desired = desired\<rparr>))))"

definition plan_desired_deployment ::
  "(string \<Rightarrow> json option) \<Rightarrow> (string \<Rightarrow> string) \<Rightarrow> u64 \<Rightarrow> (string \<times> node_desired_state) list \<Rightarrow>
     node_applied_state list \<Rightarrow> plan_diagnostic list \<Rightarrow> deployment_plan run" where
  "plan_desired_deployment parse sha revision desired applied warnings =
     run_bind (run_map (plan_target parse sha (applied_by_node applied)) desired) (\<lambda>planned.
       let targets = assign_waves (sort_key pt_node_id planned)
       in Done \<lparr>dp_revision = revision, dp_targets = targets, dp_summary = summarize_targets targets,
                dp_warnings = warnings, dp_base_revision_id = None\<rparr>)"

text \<open>The part of a \<open>ModelSnapshot\<close> the planner reads: its revision, and each node's id and retirement.\<close>

record plan_snapshot =
  sp_revision :: u64
  sp_nodes :: "(string \<times> bool) list"

definition plan_warnings :: "diagnostic list \<Rightarrow> plan_diagnostic list" where
  "plan_warnings ds =
     map (\<lambda>d. \<lparr>pd_code = dg_code d, pd_location = dg_location d, pd_message = dg_message d\<rparr>)
       (filter (\<lambda>d. dg_level d = Warn) ds)"

fun collect_results :: "('e + 'a) list \<Rightarrow> 'e + 'a list" where
  "collect_results [] = Inr []"
| "collect_results (Inl e # rs) = Inl e"
| "collect_results (Inr x # rs) = (case collect_results rs of Inl e \<Rightarrow> Inl e | Inr xs \<Rightarrow> Inr (x # xs))"

definition retire_target ::
  "(string \<Rightarrow> json option) \<Rightarrow> (string \<Rightarrow> string) \<Rightarrow> string list \<Rightarrow> (string, node_applied_state) bmap \<Rightarrow>
     planned_target \<Rightarrow> planned_target run" where
  "retire_target parse sha retired by_node target =
     (if pt_node_id target \<notin> set retired then Done target
      else let applied = map_of by_node (pt_node_id target);
               actions = retirement_actions (pt_desired target) applied
           in run_bind (run_any (\<lambda>a. is_disruptive parse sha a applied (pt_desired target)) actions) (\<lambda>disruptive.
                Done (target\<lparr>pt_actions := actions, pt_disruptive := disruptive, pt_status := status_of actions\<rparr>)))"

definition plan_deployment ::
  "(string \<Rightarrow> json option) \<Rightarrow> (json \<Rightarrow> string) \<Rightarrow> (string \<Rightarrow> string) \<Rightarrow>
     (string \<Rightarrow> 'sys \<Rightarrow> 'app list \<Rightarrow> node_artifacts) \<Rightarrow> ('sys, 'app) compile_output \<Rightarrow>
     plan_snapshot \<Rightarrow> node_applied_state list \<Rightarrow> (publish_blocked + deployment_plan) run" where
  "plan_deployment parse print sha project output snapshot applied =
     (case ensure_publishable output of
        Inl e \<Rightarrow> Done (Inl e)
      | Inr _ \<Rightarrow>
          (let warnings = plan_warnings (co_diagnostics output);
               retired = bset (map fst (filter snd (sp_nodes snapshot)));
               node_ids = bset (map fst (sp_nodes snapshot))
           in case collect_results (map (\<lambda>id. case project_gated (project id) output of
                  Inl e \<Rightarrow> Inl e | Inr n \<Rightarrow> Inr (id, desired_state sha n)) node_ids) of
                Inl e \<Rightarrow> Done (Inl e)
              | Inr desired \<Rightarrow>
                  run_bind (plan_desired_deployment parse sha (sp_revision snapshot) desired applied warnings) (\<lambda>plan.
                  run_bind (run_map (retire_target parse sha retired (applied_by_node applied)) (dp_targets plan)) (\<lambda>updated.
                    let kept = filter (\<lambda>t. pt_node_id t \<notin> set retired \<or> pt_status t = Pending) updated;
                        targets = assign_waves (assign_listener_reference_prerequisites parse print kept applied)
                    in Done (Inr (plan\<lparr>dp_targets := targets, dp_summary := summarize_targets targets\<rparr>))))))"

definition force_target ::
  "(string \<Rightarrow> json option) \<Rightarrow> (string \<Rightarrow> string) \<Rightarrow> (string, node_applied_state) bmap \<Rightarrow>
     string \<times> node_desired_state \<Rightarrow> planned_target run" where
  "force_target parse sha by_node = (\<lambda>(node_id, desired).
     (let applied = map_of by_node node_id; actions = forced_actions desired
      in run_bind (run_any (\<lambda>a. is_disruptive parse sha a applied desired) actions) (\<lambda>disruptive.
           Done \<lparr>pt_node_id = node_id, pt_status = status_of actions, pt_wave = 0,
                 pt_disruptive = disruptive, pt_prerequisites = [], pt_actions = actions,
                 pt_desired = desired\<rparr>)))"

definition plan_forced_deployment ::
  "(string \<Rightarrow> json option) \<Rightarrow> (json \<Rightarrow> string) \<Rightarrow> (string \<Rightarrow> string) \<Rightarrow>
     (string \<Rightarrow> 'sys \<Rightarrow> 'app list \<Rightarrow> node_artifacts) \<Rightarrow> ('sys, 'app) compile_output \<Rightarrow>
     plan_snapshot \<Rightarrow> node_applied_state list \<Rightarrow> (publish_blocked + deployment_plan) run" where
  "plan_forced_deployment parse print sha project output snapshot applied =
     (case ensure_publishable output of
        Inl e \<Rightarrow> Done (Inl e)
      | Inr _ \<Rightarrow>
          (let warnings = plan_warnings (co_diagnostics output);
               by_node = applied_by_node applied;
               node_ids = bset (map fst (filter (\<lambda>(id, retired). \<not> retired \<or>
                 \<not> (case map_of by_node id of None \<Rightarrow> False | Some s \<Rightarrow> retirement_artifacts_disabled s))
                 (sp_nodes snapshot)))
           in case collect_results (map (\<lambda>id. case project_gated (project id) output of
                  Inl e \<Rightarrow> Inl e | Inr n \<Rightarrow> Inr (id, desired_state sha n)) node_ids) of
                Inl e \<Rightarrow> Done (Inl e)
              | Inr desired \<Rightarrow>
                  run_bind (run_map (force_target parse sha by_node) desired) (\<lambda>planned.
                    let targets = assign_waves (assign_listener_reference_prerequisites parse print
                          (sort_key pt_node_id planned) applied)
                    in Done (Inr \<lparr>dp_revision = sp_revision snapshot, dp_targets = targets,
                         dp_summary = summarize_targets targets, dp_warnings = warnings,
                         dp_base_revision_id = None\<rparr>))))"

section \<open>Narrowing\<close>

definition can_sync_grants_now :: "planned_target \<Rightarrow> bool" where
  "can_sync_grants_now target =
     (pt_status target = Pending \<and> SyncGrants \<in> set (pt_actions target) \<and> \<not> touches_xray target)"

definition untouched_artifact :: "string \<Rightarrow> string list \<Rightarrow> desired_artifact" where
  "untouched_artifact reason values = Unmanaged (Msg reason values)"

definition narrow_artifact :: "config_artifact list \<Rightarrow> config_artifact \<Rightarrow> desired_artifact \<Rightarrow> desired_artifact" where
  "narrow_artifact moved artifact desired =
     (if artifact \<in> set moved then desired else untouched_artifact ''not moved by this deployment'' [artifact_field artifact])"

definition narrow_config_desired :: "planned_target \<Rightarrow> planned_target" where
  "narrow_config_desired target =
     (let manages_xray = touches_xray target;
          moved = List.map_filter action_artifact (pt_actions target);
          d = pt_desired target;
          desired = d\<lparr>nd_phantun := narrow_artifact moved Phantun (nd_phantun d),
                      nd_hy2_port_hop := narrow_artifact moved Hy2PortHop (nd_hy2_port_hop d),
                      nd_wireguard := narrow_artifact moved WireGuard (nd_wireguard d),
                      nd_xray := narrow_artifact moved Xray (nd_xray d)\<rparr>;
          narrowed = (if manages_xray then target\<lparr>pt_desired := desired\<rparr>
            else target\<lparr>pt_actions := filter (\<lambda>a. a \<noteq> SyncGrants) (pt_actions target),
                        pt_desired := desired\<lparr>nd_grants := GrantsUnmanaged (Msg ''xray is not restarted'' [])\<rparr>\<rparr>)
      in if pt_actions narrowed = [] then narrowed\<lparr>pt_status := Skipped, pt_disruptive := False\<rparr>
         else narrowed)"

definition narrow_grants_target :: "planned_target \<Rightarrow> planned_target" where
  "narrow_grants_target target =
     (let d = pt_desired target
      in target\<lparr>pt_prerequisites := [], pt_wave := 0,
           pt_desired := d\<lparr>nd_phantun := untouched_artifact ''grants leave phantun alone'' [],
                          nd_hy2_port_hop := untouched_artifact ''grants leave port hopping alone'' [],
                          nd_wireguard := untouched_artifact ''grants leave wireguard alone'' [],
                          nd_xray := untouched_artifact ''grants do not restart xray'' []\<rparr>\<rparr>)"

fun narrow_to_kind :: "deployment_plan \<Rightarrow> deployment_kind \<Rightarrow> deployment_plan" where
  "narrow_to_kind plan ConfigKind =
     (let targets = assign_waves (map narrow_config_desired (dp_targets plan))
      in plan\<lparr>dp_targets := targets, dp_summary := summarize_targets targets\<rparr>)"
| "narrow_to_kind plan GrantsKind =
     (let targets = map narrow_grants_target (filter can_sync_grants_now (dp_targets plan))
      in plan\<lparr>dp_targets := targets, dp_summary := summarize_targets targets\<rparr>)"

section \<open>Which actions are planned\<close>

lemma planned_step_Done:
  "planned_step needed desired a b = Done as \<longleftrightarrow>
     (if \<not> needed then as = []
      else (\<exists>c s. desired = Present c s \<and> as = [a]) \<or> (\<exists>r. desired = Disabled r \<and> as = [b]))"
  by (cases desired) (auto simp: planned_step_def)

lemma planned_step_Panic: "planned_step needed desired a b = Panic \<longleftrightarrow> needed \<and> (\<exists>r. desired = Unmanaged r)"
  by (cases desired) (auto simp: planned_step_def)

lemma planned_step_members:
  assumes "planned_step needed desired a b = Done as" and "a \<noteq> b"
  shows "a \<in> set as \<longleftrightarrow> needed \<and> (\<exists>c s. desired = Present c s)"
    and "b \<in> set as \<longleftrightarrow> needed \<and> (\<exists>r. desired = Disabled r)"
    and "set as \<subseteq> {a, b}" and "distinct as"
  using assms unfolding planned_step_Done by (auto split: if_splits)

lemma needs_action_managed: "artifact_needs_action desired applied \<Longrightarrow> desired \<noteq> Unmanaged r"
  by auto

text \<open>The planner panics on exactly one input: the flow of an account moved, xray is unmanaged.\<close>

lemma planned_actions_Panic_iff:
  "planned_actions desired applied = Panic \<longleftrightarrow>
     (\<exists>r. nd_xray desired = Unmanaged r) \<and>
     grants_flow_changed (nd_grants desired) (map_option ap_grants applied)"
proof -
  let ?needs = "\<lambda>a. artifact_needs_action (desired_of desired a) (map_option (\<lambda>s. applied_of s a) applied)"
  let ?flow = "grants_flow_changed (nd_grants desired) (map_option ap_grants applied)"
  have managed: "\<exists>as. planned_step (?needs a) (desired_of desired a) x y = Done as" for a x y
    by (cases "desired_of desired a") (auto simp: planned_step_def)
  obtain ph wg hy where
    "planned_step (?needs Phantun) (nd_phantun desired) ApplyPhantun DisablePhantun = Done ph"
    "planned_step (?needs WireGuard) (nd_wireguard desired) ApplyWireGuard DisableWireGuard = Done wg"
    "planned_step (?needs Hy2PortHop) (nd_hy2_port_hop desired) ApplyHy2PortHop DisableHy2PortHop = Done hy"
    using managed [of Phantun] managed [of WireGuard] managed [of Hy2PortHop] unfolding desired_of.simps by blast
  then have "planned_actions desired applied = Panic \<longleftrightarrow>
    planned_step (?needs Xray \<or> ?flow) (nd_xray desired) ApplyXray DisableXray = Panic"
    unfolding planned_actions_def Let_def desired_of.simps by (simp only: run_bind.simps)
      (cases "planned_step (?needs Xray \<or> ?flow) (nd_xray desired) ApplyXray DisableXray"; simp)
  then show ?thesis by (cases "nd_xray desired") (auto simp: planned_step_Panic)
qed

text \<open>C11: planning one machine hits its unreachable! on exactly one kind of input: xray is unmanaged in the desired state while the flow of an account that exists on both sides differs; on every other input it returns.\<close>

theorem planned_actions_panics_iff:
  "planned_actions desired applied = Panic \<longleftrightarrow>
     (\<exists>r. nd_xray desired = Unmanaged r) \<and>
     grants_flow_changed (nd_grants desired) (map_option ap_grants applied)"
  by (rule planned_actions_Panic_iff)

definition settled_artifact :: "desired_artifact \<Rightarrow> applied_artifact_state \<Rightarrow> bool" where
  "settled_artifact desired applied \<longleftrightarrow>
     (case desired of
        Present _ sha \<Rightarrow> applied = AppliedPresent sha \<or> applied = AppliedUnmanaged
      | Disabled _ \<Rightarrow> applied = AppliedDisabled \<or> applied = AppliedUnmanaged
      | Unmanaged _ \<Rightarrow> True)"

lemma needs_action_settled: "artifact_needs_action desired (Some applied) \<longleftrightarrow> \<not> settled_artifact desired applied"
  by (cases desired; cases applied) (auto simp: settled_artifact_def)

definition settled_grants :: "desired_grants \<Rightarrow> applied_grants_state \<Rightarrow> bool" where
  "settled_grants desired applied \<longleftrightarrow>
     (case desired of GrantsPresent _ \<Rightarrow> grants_match desired applied | _ \<Rightarrow> True)"

lemma grants_need_settled: "grants_need_action desired (Some applied) \<longleftrightarrow> \<not> settled_grants desired applied"
  by (cases desired; cases applied) (auto simp: settled_grants_def)

text \<open>No action is planned for a machine exactly when every artifact it reports is the desired one or unmanaged, its grants match, and no account changed its flow: a converged fleet owes nothing, and nothing owed is silently dropped.\<close>

theorem nothing_planned_iff_settled:
  "planned_actions desired (Some applied) = Done [] \<longleftrightarrow>
     (\<forall>a. settled_artifact (desired_of desired a) (applied_of applied a)) \<and>
     settled_grants (nd_grants desired) (ap_grants applied) \<and>
     \<not> grants_flow_changed (nd_grants desired) (Some (ap_grants applied))"
proof -
  have all: "(\<forall>a. P a) \<longleftrightarrow> P Phantun \<and> P Hy2PortHop \<and> P WireGuard \<and> P Xray" for P
    by (metis config_artifact.exhaust)
  have nil: "sort xs = [] \<longleftrightarrow> xs = []" for xs :: "planned_action list"
    by (metis length_0_conv length_sort)
  show ?thesis
    unfolding all
    by (auto simp: planned_actions_def Let_def nil planned_step_Done needs_action_settled grants_need_settled
        split: if_splits)
qed

definition apply_action :: "config_artifact \<Rightarrow> planned_action" where
  "apply_action a = (case a of Phantun \<Rightarrow> ApplyPhantun | Hy2PortHop \<Rightarrow> ApplyHy2PortHop
     | WireGuard \<Rightarrow> ApplyWireGuard | Xray \<Rightarrow> ApplyXray)"

definition disable_action :: "config_artifact \<Rightarrow> planned_action" where
  "disable_action a = (case a of Phantun \<Rightarrow> DisablePhantun | Hy2PortHop \<Rightarrow> DisableHy2PortHop
     | WireGuard \<Rightarrow> DisableWireGuard | Xray \<Rightarrow> DisableXray)"

definition owes :: "node_desired_state \<Rightarrow> node_applied_state option \<Rightarrow> config_artifact \<Rightarrow> bool" where
  "owes desired applied a \<longleftrightarrow>
     artifact_needs_action (desired_of desired a) (map_option (\<lambda>s. applied_of s a) applied) \<or>
     a = Xray \<and> grants_flow_changed (nd_grants desired) (map_option ap_grants applied)"

lemma planned_actions_owes:
  assumes "planned_actions desired applied = Done actions"
  shows "sorted actions \<and> distinct actions \<and>
    (\<forall>a. apply_action a \<in> set actions \<longleftrightarrow> owes desired applied a \<and> (\<exists>c s. desired_of desired a = Present c s)) \<and>
    (\<forall>a. disable_action a \<in> set actions \<longleftrightarrow> owes desired applied a \<and> (\<exists>r. desired_of desired a = Disabled r)) \<and>
    (SyncGrants \<in> set actions \<longleftrightarrow> grants_need_action (nd_grants desired) (map_option ap_grants applied)) \<and>
    SyncVpngate \<notin> set actions"
proof -
  have all: "(\<forall>a. P a) \<longleftrightarrow> P Phantun \<and> P Hy2PortHop \<and> P WireGuard \<and> P Xray" for P
    by (metis config_artifact.exhaust)
  let ?needs = "\<lambda>a. artifact_needs_action (desired_of desired a) (map_option (\<lambda>s. applied_of s a) applied)"
  from assms obtain ph wg xr hy where
    steps: "planned_step (?needs Phantun) (nd_phantun desired) ApplyPhantun DisablePhantun = Done ph"
      "planned_step (?needs WireGuard) (nd_wireguard desired) ApplyWireGuard DisableWireGuard = Done wg"
      "planned_step (owes desired applied Xray) (nd_xray desired) ApplyXray DisableXray = Done xr"
      "planned_step (?needs Hy2PortHop) (nd_hy2_port_hop desired) ApplyHy2PortHop DisableHy2PortHop = Done hy"
    and actions: "actions = sort (ph @ wg @ xr @ hy @
      (if grants_need_action (nd_grants desired) (map_option ap_grants applied) then [SyncGrants] else []))"
    by (auto simp: planned_actions_def Let_def owes_def)
  define sy where "sy = (if grants_need_action (nd_grants desired) (map_option ap_grants applied)
    then [SyncGrants] else [])"
  note mph = planned_step_members [OF steps(1), simplified] and mwg = planned_step_members [OF steps(2), simplified]
    and mxr = planned_step_members [OF steps(3), simplified] and mhy = planned_step_members [OF steps(4), simplified]
  have sub: "set sy \<subseteq> {SyncGrants}" and dist: "distinct sy" by (auto simp: sy_def)
  note sub = this(1) mph(3) mwg(3) mxr(3) mhy(3) and dist = this(2) mph(4) mwg(4) mxr(4) mhy(4)
  have acts: "actions = sort (ph @ wg @ xr @ hy @ sy)" by (simp add: actions sy_def)
  have mem: "x \<in> set actions \<longleftrightarrow> x \<in> set ph \<or> x \<in> set wg \<or> x \<in> set xr \<or> x \<in> set hy \<or> x \<in> set sy" for x
    by (auto simp: acts)
  have "distinct actions" unfolding acts distinct_sort distinct_append set_append using dist sub by (intro conjI) (assumption | blast)+
  moreover have "ApplyPhantun \<in> set actions \<longleftrightarrow> ApplyPhantun \<in> set ph"
    "ApplyHy2PortHop \<in> set actions \<longleftrightarrow> ApplyHy2PortHop \<in> set hy"
    "ApplyWireGuard \<in> set actions \<longleftrightarrow> ApplyWireGuard \<in> set wg"
    "ApplyXray \<in> set actions \<longleftrightarrow> ApplyXray \<in> set xr"
    "DisablePhantun \<in> set actions \<longleftrightarrow> DisablePhantun \<in> set ph"
    "DisableHy2PortHop \<in> set actions \<longleftrightarrow> DisableHy2PortHop \<in> set hy"
    "DisableWireGuard \<in> set actions \<longleftrightarrow> DisableWireGuard \<in> set wg"
    "DisableXray \<in> set actions \<longleftrightarrow> DisableXray \<in> set xr"
    "SyncVpngate \<notin> set actions"
    "SyncGrants \<in> set actions \<longleftrightarrow> SyncGrants \<in> set sy"
    unfolding mem using sub by blast+
  note members = this mph(1,2) mwg(1,2) mxr(1,2) mhy(1,2)
  moreover have "owes desired applied Phantun \<longleftrightarrow> ?needs Phantun" "owes desired applied Hy2PortHop \<longleftrightarrow> ?needs Hy2PortHop"
    "owes desired applied WireGuard \<longleftrightarrow> ?needs WireGuard"
    by (simp_all add: owes_def)
  moreover have "sorted actions" by (simp add: acts)
  moreover have "SyncGrants \<in> set sy \<longleftrightarrow> grants_need_action (nd_grants desired) (map_option ap_grants applied)"
    by (simp add: sy_def)
  ultimately show ?thesis
    unfolding all apply_action_def disable_action_def by (simp add: members)
qed

text \<open>The accounts a machine reports, in order, and whether a desired account was last reported with another flow.\<close>

definition reported_flows :: "observed_inbound list \<Rightarrow> ((string \<times> string \<times> string) \<times> string option) list" where
  "reported_flows observed =
     concat (map (\<lambda>i. map (\<lambda>c. ((oi_tag i, oc_email c, oc_uuid c), oc_flow c)) (oi_clients i)) observed)"

definition flow_moved :: "node_desired_state \<Rightarrow> node_applied_state option \<Rightarrow> bool" where
  "flow_moved desired applied \<longleftrightarrow>
     (\<exists>inbounds s observed. nd_grants desired = GrantsPresent inbounds \<and> applied = Some s \<and>
        ap_grants s = AppliedGrantsPresent observed \<and>
        (\<exists>i \<in> set inbounds. \<exists>c \<in> set (gi_clients i). \<exists>before f after.
           reported_flows observed = before @ ((gi_tag i, gc_email c, gc_uuid c), f) # after \<and>
           (gi_tag i, gc_email c, gc_uuid c) \<notin> fst ` set after \<and> f \<noteq> gc_flow c))"

lemma map_of_first: "map_of xs k = Some v \<longleftrightarrow> (\<exists>b a. xs = b @ (k, v) # a \<and> k \<notin> fst ` set b)"
proof
  show "map_of xs k = Some v \<Longrightarrow> \<exists>b a. xs = b @ (k, v) # a \<and> k \<notin> fst ` set b"
  proof (induction xs)
    case (Cons x xs)
    show ?case
    proof (cases "fst x = k")
      case True
      with Cons.prems have "x # xs = [] @ (k, v) # xs" by (cases x) simp
      then show ?thesis by (metis empty_iff image_empty empty_set)
    next
      case False
      with Cons.prems have "map_of xs k = Some v" by (cases x) simp
      from Cons.IH [OF this] obtain b a where "xs = b @ (k, v) # a" "k \<notin> fst ` set b" by blast
      with False show ?thesis by (intro exI [of _ "x # b"] exI [of _ a]) auto
    qed
  qed simp
  show "\<exists>b a. xs = b @ (k, v) # a \<and> k \<notin> fst ` set b \<Longrightarrow> map_of xs k = Some v"
    by (auto simp: map_add_def dest: map_of_SomeD split: option.splits simp flip: map_of_eq_None_iff)
qed

lemma map_of_rev_last: "map_of (rev xs) k = Some v \<longleftrightarrow> (\<exists>b a. xs = b @ (k, v) # a \<and> k \<notin> fst ` set a)"
proof -
  have "rev xs = b @ (k, v) # a \<longleftrightarrow> xs = rev a @ (k, v) # rev b" for b a
    by (metis append.assoc append_Cons append_Nil rev.simps(2) rev_append rev_rev_ident)
  then show ?thesis unfolding map_of_first by (metis rev_rev_ident set_rev)
qed

lemma grants_flow_changed_iff:
  "grants_flow_changed (nd_grants desired) (map_option ap_grants applied) \<longleftrightarrow> flow_moved desired applied"
proof (cases "nd_grants desired")
  case (GrantsPresent inbounds)
  show ?thesis
  proof (cases applied)
    case (Some s)
    have "(case map_of (rev (reported_flows observed)) k of None \<Rightarrow> False | Some flow \<Rightarrow> flow \<noteq> f') \<longleftrightarrow>
        (\<exists>b f a. reported_flows observed = b @ (k, f) # a \<and> k \<notin> fst ` set a \<and> f \<noteq> f')" for observed k f'
    proof -
      have "(\<exists>b f a. reported_flows observed = b @ (k, f) # a \<and> k \<notin> fst ` set a \<and> f \<noteq> f') \<longleftrightarrow>
          (\<exists>f. map_of (rev (reported_flows observed)) k = Some f \<and> f \<noteq> f')"
        unfolding map_of_rev_last by blast
      then show ?thesis by (auto split: option.split)
    qed
    with Some GrantsPresent show ?thesis
      by (cases "ap_grants s") (auto simp: grants_flow_changed_def flow_moved_def reported_flows_def list_ex_iff)
  qed (simp add: grants_flow_changed_def flow_moved_def split: desired_grants.split)
qed (simp_all add: grants_flow_changed_def flow_moved_def)

lemma owes_present:
  "desired_of desired a = Present c sha \<Longrightarrow> owes desired applied a \<longleftrightarrow>
     (\<forall>s. applied = Some s \<longrightarrow> applied_of s a \<noteq> AppliedPresent sha \<and> applied_of s a \<noteq> AppliedUnmanaged) \<or>
     a = Xray \<and> flow_moved desired applied"
  by (cases applied) (auto simp: owes_def grants_flow_changed_iff [symmetric] split: applied_artifact_state.splits)

lemma owes_disabled:
  "desired_of desired a = Disabled r \<Longrightarrow> owes desired applied a \<longleftrightarrow>
     (\<forall>s. applied = Some s \<longrightarrow> applied_of s a \<noteq> AppliedDisabled \<and> applied_of s a \<noteq> AppliedUnmanaged) \<or>
     a = Xray \<and> flow_moved desired applied"
  by (cases applied) (auto simp: owes_def grants_flow_changed_iff [symmetric])

lemma grants_need_iff:
  "grants_need_action desired applied \<longleftrightarrow>
     (\<exists>inbounds. desired = GrantsPresent inbounds) \<and> (\<forall>g. applied = Some g \<longrightarrow> \<not> grants_match desired g)"
  by (cases desired; cases applied) (auto split: applied_grants_state.splits)

text \<open>C24: the planned actions are sorted without repetition. A present artifact is applied exactly when the machine is not known to run this very digest and has not declared the artifact unmanaged (so an unknown, dirty or missing record counts as owed), a disabled one is disabled exactly when it is not known disabled or unmanaged, and Xray also when an account last reported with another flow forces it; grants are synchronized exactly when they are managed and do not match what was reported.\<close>

theorem planned_actions_exact:
  assumes "planned_actions desired applied = Done actions"
  shows "sorted actions \<and> distinct actions \<and> SyncVpngate \<notin> set actions \<and>
    (\<forall>a. apply_action a \<in> set actions \<longleftrightarrow> (\<exists>c sha. desired_of desired a = Present c sha \<and>
       ((\<forall>s. applied = Some s \<longrightarrow> applied_of s a \<noteq> AppliedPresent sha \<and> applied_of s a \<noteq> AppliedUnmanaged) \<or>
        a = Xray \<and> flow_moved desired applied))) \<and>
    (\<forall>a. disable_action a \<in> set actions \<longleftrightarrow> (\<exists>r. desired_of desired a = Disabled r) \<and>
       ((\<forall>s. applied = Some s \<longrightarrow> applied_of s a \<noteq> AppliedDisabled \<and> applied_of s a \<noteq> AppliedUnmanaged) \<or>
        a = Xray \<and> flow_moved desired applied)) \<and>
    (SyncGrants \<in> set actions \<longleftrightarrow> (\<exists>inbounds. nd_grants desired = GrantsPresent inbounds) \<and>
       (\<forall>s. applied = Some s \<longrightarrow> \<not> grants_match (nd_grants desired) (ap_grants s)))"
proof -
  note acts = planned_actions_owes [OF assms]
  have present: "owes desired applied a \<and> (\<exists>c s. desired_of desired a = Present c s) \<longleftrightarrow> (\<exists>c sha. desired_of desired a = Present c sha \<and>
       ((\<forall>s. applied = Some s \<longrightarrow> applied_of s a \<noteq> AppliedPresent sha \<and> applied_of s a \<noteq> AppliedUnmanaged) \<or>
        a = Xray \<and> flow_moved desired applied))" for a
    using owes_present [of desired a _ _ applied] by blast
  have disabled: "owes desired applied a \<and> (\<exists>r. desired_of desired a = Disabled r) \<longleftrightarrow> (\<exists>r. desired_of desired a = Disabled r) \<and>
       ((\<forall>s. applied = Some s \<longrightarrow> applied_of s a \<noteq> AppliedDisabled \<and> applied_of s a \<noteq> AppliedUnmanaged) \<or>
        a = Xray \<and> flow_moved desired applied)" for a
    using owes_disabled [of desired a _ applied] by blast
  have grants: "grants_need_action (nd_grants desired) (map_option ap_grants applied) \<longleftrightarrow>
      (\<exists>inbounds. nd_grants desired = GrantsPresent inbounds) \<and>
      (\<forall>s. applied = Some s \<longrightarrow> \<not> grants_match (nd_grants desired) (ap_grants s))"
    unfolding grants_need_iff by (cases applied) auto
  show ?thesis
  proof (intro conjI allI)
    show "sorted actions" by (rule acts [THEN conjunct1])
    show "distinct actions" by (rule acts [THEN conjunct2, THEN conjunct1])
    show "SyncVpngate \<notin> set actions"
      by (rule acts [THEN conjunct2, THEN conjunct2, THEN conjunct2, THEN conjunct2, THEN conjunct2])
  next
    fix a
    note members = acts [THEN conjunct2, THEN conjunct2]
    show "apply_action a \<in> set actions \<longleftrightarrow> (\<exists>c sha. desired_of desired a = Present c sha \<and>
       ((\<forall>s. applied = Some s \<longrightarrow> applied_of s a \<noteq> AppliedPresent sha \<and> applied_of s a \<noteq> AppliedUnmanaged) \<or>
        a = Xray \<and> flow_moved desired applied))"
      by (rule trans [OF members [THEN conjunct1, THEN spec] present])
    show "disable_action a \<in> set actions \<longleftrightarrow> (\<exists>r. desired_of desired a = Disabled r) \<and>
       ((\<forall>s. applied = Some s \<longrightarrow> applied_of s a \<noteq> AppliedDisabled \<and> applied_of s a \<noteq> AppliedUnmanaged) \<or>
        a = Xray \<and> flow_moved desired applied)"
      by (rule trans [OF members [THEN conjunct2, THEN conjunct1, THEN spec] disabled])
    show "SyncGrants \<in> set actions \<longleftrightarrow> (\<exists>inbounds. nd_grants desired = GrantsPresent inbounds) \<and>
       (\<forall>s. applied = Some s \<longrightarrow> \<not> grants_match (nd_grants desired) (ap_grants s))"
      by (rule trans [OF members [THEN conjunct2, THEN conjunct2, THEN conjunct1] grants])
  qed
qed

definition sample_desired :: node_desired_state where
  "sample_desired = \<lparr>nd_phantun = Disabled (Msg [] []), nd_wireguard = Present ''w'' ''1'',
     nd_xray = Present ''x'' ''2'', nd_hy2_port_hop = Disabled (Msg [] []),
     nd_grants = GrantsPresent [GrantInbound ''in'' [GrantClient ''a@b'' ''u'' None 0]]\<rparr>"

definition sample_applied :: node_applied_state where
  "sample_applied = \<lparr>ap_node_id = ''n'', ap_phantun = AppliedDisabled, ap_hy2_port_hop = AppliedUnknown,
     ap_wireguard = AppliedPresent ''1'', ap_xray = AppliedPresent ''old'',
     ap_grants = AppliedGrantsPresent [ObservedInbound ''in'' [ObservedClient ''a@b'' ''u'' None]],
     ap_running_xray = None\<rparr>"

lemma sample_planned: "planned_actions sample_desired (Some sample_applied) = Done [ApplyXray, DisableHy2PortHop]"
  by code_simp

theorem planned_actions_exact_witness:
  "apply_action Xray \<in> set [ApplyXray, DisableHy2PortHop] \<and>
     applied_of sample_applied Xray \<noteq> AppliedPresent ''2'' \<and>
     (disable_action Hy2PortHop \<in> set [ApplyXray, DisableHy2PortHop] \<longleftrightarrow>
        applied_of sample_applied Hy2PortHop \<noteq> AppliedDisabled \<and> applied_of sample_applied Hy2PortHop \<noteq> AppliedUnmanaged)"
proof -
  note acts = planned_actions_exact [OF sample_planned]
  have "disable_action Hy2PortHop \<in> set [ApplyXray, DisableHy2PortHop] \<longleftrightarrow>
      applied_of sample_applied Hy2PortHop \<noteq> AppliedDisabled \<and> applied_of sample_applied Hy2PortHop \<noteq> AppliedUnmanaged"
    using acts by (simp add: sample_desired_def)
  then show ?thesis by (simp add: apply_action_def sample_applied_def)
qed

end
