(* ===== verification/Plan_Guarantees.thy ===== *)
theory Plan_Guarantees
  imports Plan Hot_Swap_Safety
begin

text \<open>
  What the planner of plan.rs promises as a whole: the grants comparison is a comparison of
  account sets per listener, planning a publishable output returns a plan, narrowing splits a plan
  into a configuration line and a grants line that share no work, and the prerequisites read off
  the listener references order the waves.
\<close>

section \<open>Grants as sets\<close>

definition desired_accounts :: "grant_inbound \<Rightarrow> (string \<times> string \<times> string option) set" where
  "desired_accounts i = (\<lambda>c. (gc_email c, gc_uuid c, gc_flow c)) ` set (gi_clients i)"

definition observed_accounts :: "observed_inbound \<Rightarrow> (string \<times> string \<times> string option) set" where
  "observed_accounts i = (\<lambda>c. (oc_email c, oc_uuid c, oc_flow c)) ` set (oi_clients i)"

lemma bcollect_lookup_distinct:
  assumes "distinct (map fst es)"
  shows "map_of (bcollect es) k = Some v \<longleftrightarrow> (k, v) \<in> set es"
proof -
  have "distinct (map fst (rev es))" using assms by (simp only: rev_map [symmetric] distinct_rev)
  then show ?thesis by (simp add: map_of_eq_Some_iff)
qed

lemma bcollect_eq_iff:
  assumes "distinct (map fst es)" and "distinct (map fst fs)"
  shows "bcollect es = bcollect fs \<longleftrightarrow> set es = set fs"
proof
  assume eq: "bcollect es = bcollect fs"
  have "(k, v) \<in> set es \<longleftrightarrow> (k, v) \<in> set fs" for k v
    using bcollect_lookup_distinct [OF assms(1), of k v] bcollect_lookup_distinct [OF assms(2), of k v] eq
    by simp
  then show "set es = set fs" by auto
next
  assume eq: "set es = set fs"
  have "map_of (bcollect es) k = map_of (bcollect fs) k" for k
    using bcollect_lookup_distinct [OF assms(1), of k] bcollect_lookup_distinct [OF assms(2), of k] eq
    by (metis option.exhaust)
  then show "bcollect es = bcollect fs" by (intro bmap_eqI) auto
qed

text \<open>C34: with no listener tag given twice on either side, grants match exactly when the same listeners exist on both sides and each carries the same set of accounts (email, uuid, flow); order, duplicates and account levels do not matter.\<close>

theorem grants_match_iff:
  assumes "distinct (map gi_tag desired)" and "distinct (map oi_tag observed)"
  shows "grants_match (GrantsPresent desired) (AppliedGrantsPresent observed) \<longleftrightarrow>
    gi_tag ` set desired = oi_tag ` set observed \<and>
    (\<forall>i \<in> set desired. \<forall>o' \<in> set observed. gi_tag i = oi_tag o' \<longrightarrow> desired_accounts i = observed_accounts o')"
proof -
  let ?d = "\<lambda>i. (gi_tag i, bset (map (\<lambda>c. (gc_email c, gc_uuid c, gc_flow c)) (gi_clients i)))"
  let ?o = "\<lambda>i. (oi_tag i, bset (map (\<lambda>c. (oc_email c, oc_uuid c, oc_flow c)) (oi_clients i)))"
  have keys: "distinct (map fst (map ?d desired))" "distinct (map fst (map ?o observed))"
    using assms by (simp_all add: comp_def)
  have "grants_match (GrantsPresent desired) (AppliedGrantsPresent observed) \<longleftrightarrow> ?d ` set desired = ?o ` set observed"
    using bcollect_eq_iff [OF keys] by (simp add: desired_grant_keys_def observed_grant_keys_def)
  also have "\<dots> \<longleftrightarrow> gi_tag ` set desired = oi_tag ` set observed \<and>
    (\<forall>i \<in> set desired. \<forall>o' \<in> set observed. gi_tag i = oi_tag o' \<longrightarrow> ?d i = ?o o')" (is "?l \<longleftrightarrow> ?r")
  proof
    assume l: ?l
    have "fst ` ?d ` set desired = fst ` ?o ` set observed" using l by simp
    then have "gi_tag ` set desired = oi_tag ` set observed" by (simp add: image_image)
    moreover have "?d i = ?o o'" if "i \<in> set desired" "o' \<in> set observed" "gi_tag i = oi_tag o'" for i o'
    proof -
      have "?d i \<in> ?o ` set observed" using l that(1) by blast
      then obtain o2 where o2: "o2 \<in> set observed" "?d i = ?o o2" by blast
      then have "oi_tag o2 = oi_tag o'" using that(3) by simp
      with assms(2) o2(1) that(2) have "o2 = o'" by (simp add: distinct_map inj_on_def)
      with o2 show ?thesis by simp
    qed
    ultimately show ?r by blast
  next
    assume r: ?r
    show ?l
    proof (intro equalityI subsetI)
      fix x assume "x \<in> ?d ` set desired"
      then obtain i where i: "i \<in> set desired" "x = ?d i" by blast
      have "gi_tag i \<in> oi_tag ` set observed" using r i(1) by blast
      then obtain o' where "o' \<in> set observed" "gi_tag i = oi_tag o'" by blast
      with r i show "x \<in> ?o ` set observed" by blast
    next
      fix x assume "x \<in> ?o ` set observed"
      then obtain o' where o': "o' \<in> set observed" "x = ?o o'" by blast
      have "oi_tag o' \<in> gi_tag ` set desired" using r o'(1) by blast
      then obtain i where i: "i \<in> set desired" "oi_tag o' = gi_tag i" by blast
      then have "?o o' = ?d i" using r o'(1) by simp
      then show "x \<in> ?d ` set desired" unfolding o'(2) using i(1) by (rule image_eqI)
    qed
  qed
  also have "\<dots> \<longleftrightarrow> gi_tag ` set desired = oi_tag ` set observed \<and>
    (\<forall>i \<in> set desired. \<forall>o' \<in> set observed. gi_tag i = oi_tag o' \<longrightarrow> desired_accounts i = observed_accounts o')"
  proof -
    have "gi_tag i = oi_tag o' \<Longrightarrow> ?d i = ?o o' \<longleftrightarrow> desired_accounts i = observed_accounts o'" for i o'
      by (simp add: bset_eq_iff desired_accounts_def observed_accounts_def)
    then show ?thesis by blast
  qed
  finally show ?thesis .
qed

section \<open>Planning returns\<close>

lemma desired_state_managed: "desired_of (desired_state sha n) a \<noteq> Unmanaged r"
  by (cases a) (auto simp: desired_state_def desired_or_disabled_def desired_present_def split: option.splits)

lemma planned_actions_desired_state: "planned_actions (desired_state sha n) applied \<noteq> Panic"
  using desired_state_managed [of sha n Xray] by (simp add: planned_actions_Panic_iff)

lemma run_any_total: "(\<And>x. x \<in> set xs \<Longrightarrow> f x \<noteq> Panic) \<Longrightarrow> run_any f xs \<noteq> Panic"
  by (induction xs) (auto simp: run_bind_Panic_iff)

text \<open>No comparison with this desired Xray text panics, whatever runs.\<close>

definition swap_decides :: "(string \<Rightarrow> json option) \<Rightarrow> node_desired_state \<Rightarrow> bool" where
  "swap_decides parse desired \<longleftrightarrow>
     (\<forall>content sha p. nd_xray desired = Present content sha \<longrightarrow> hot_swap parse p content \<noteq> Panic)"

lemma is_disruptive_total:
  "swap_decides parse desired \<Longrightarrow> is_disruptive parse sha a applied desired \<noteq> Panic"
  by (cases a) (auto simp: swap_decides_def can_apply_without_restart_def run_bind_Panic_iff
      split: option.splits applied_artifact_state.splits desired_artifact.splits)

lemma run_disruptive_total:
  "swap_decides parse desired \<Longrightarrow> run_any (\<lambda>a. is_disruptive parse sha a applied desired) actions \<noteq> Panic"
  by (rule run_any_total) (rule is_disruptive_total)

lemma plan_target_total:
  assumes "swap_decides parse (desired_state sha n)"
  shows "\<exists>t. plan_target parse sha by_node (nid, desired_state sha n) = Done t \<and> pt_desired t = desired_state sha n"
proof -
  obtain actions where "planned_actions (desired_state sha n) (map_of by_node nid) = Done actions"
    using planned_actions_desired_state by (metis run.exhaust)
  moreover obtain b where
    "run_any (\<lambda>a. is_disruptive parse sha a (map_of by_node nid) (desired_state sha n)) actions = Done b"
    using run_disruptive_total [OF assms] by (metis run.exhaust)
  ultimately show ?thesis by (simp add: plan_target_def Let_def)
qed

lemma wave_keeps_desired:
  assumes "i < length (assign_waves ts)"
  shows "i < length ts" and "pt_desired (assign_waves ts ! i) = pt_desired (ts ! i)"
proof -
  have same: "same_but_wave ts (assign_waves ts)" by (rule conjunct1 [OF assign_waves_numbers])
  with assms show i: "i < length ts" by (simp add: same_but_wave_def)
  with same have "(assign_waves ts ! i)\<lparr>pt_wave := 0\<rparr> = (ts ! i)\<lparr>pt_wave := 0\<rparr>" by (simp add: same_but_wave_def)
  then have "pt_desired ((assign_waves ts ! i)\<lparr>pt_wave := 0\<rparr>) = pt_desired ((ts ! i)\<lparr>pt_wave := 0\<rparr>)" by simp
  then show "pt_desired (assign_waves ts ! i) = pt_desired (ts ! i)" by simp
qed

lemma plan_desired_total:
  assumes "\<forall>e \<in> set desired. \<exists>n. snd e = desired_state sha n" and "\<forall>e \<in> set desired. swap_decides parse (snd e)"
  shows "\<exists>plan. plan_desired_deployment parse sha revision desired applied warnings = Done plan \<and>
    (\<forall>t \<in> set (dp_targets plan). swap_decides parse (pt_desired t))"
proof -
  let ?p = "plan_target parse sha (applied_by_node applied)"
  have one: "\<exists>t. ?p e = Done t \<and> pt_desired t = snd e" if "e \<in> set desired" for e
    using assms that plan_target_total by (metis prod.collapse)
  then have "run_map ?p desired \<noteq> Panic" unfolding run_map_Panic_iff by (metis run.distinct(1))
  then obtain planned where planned: "run_map ?p desired = Done planned" by (metis run.exhaust)
  have decides: "swap_decides parse (pt_desired t)" if t: "t \<in> set planned" for t
  proof -
    from planned have "list_all2 (\<lambda>e t. ?p e = Done t) desired planned" by (simp add: run_map_Done_iff)
    moreover obtain i where "i < length planned" "t = planned ! i" using t by (auto simp: in_set_conv_nth)
    ultimately have "desired ! i \<in> set desired \<and> ?p (desired ! i) = Done t" by (auto simp: list_all2_conv_all_nth)
    then obtain e where e: "e \<in> set desired" "?p e = Done t" by blast
    with one [OF e(1)] assms(2) show ?thesis by auto
  qed
  let ?ts = "sort_key pt_node_id planned"
  have "swap_decides parse (pt_desired t)" if t: "t \<in> set (assign_waves ?ts)" for t
  proof -
    obtain i where i: "i < length (assign_waves ?ts)" "t = assign_waves ?ts ! i"
      using t unfolding in_set_conv_nth by blast
    then have "i < length ?ts" "pt_desired t = pt_desired (?ts ! i)"
      using wave_keeps_desired by blast+
    moreover have "?ts ! i \<in> set planned" using \<open>i < length ?ts\<close> by (metis nth_mem set_sort)
    ultimately show ?thesis using decides by simp
  qed
  with planned show ?thesis by (simp add: plan_desired_deployment_def Let_def)
qed

lemma retire_target_total:
  "swap_decides parse (pt_desired t) \<Longrightarrow> retire_target parse sha retired by_node t \<noteq> Panic"
  using run_disruptive_total [of parse "pt_desired t"] by (simp add: retire_target_def Let_def run_bind_Panic_iff)

lemma desired_state_swap_decides:
  assumes "\<And>c after. na_xray n = Some c \<Longrightarrow> parse c = Some (JObject after) \<Longrightarrow> shaped after"
  shows "swap_decides parse (desired_state sha n)"
  using assms by (auto simp: swap_decides_def desired_state_def desired_or_disabled_def desired_present_def
      hot_swap_def bind_eq_Some_conv hot_swap_total split: option.splits)

lemma collect_results_Inr: "collect_results (map (\<lambda>x. Inr (f x)) xs) = Inr (map f xs)"
  by (induction xs) auto

lemma project_published:
  "can_publish output \<Longrightarrow> project_gated f output = Inr (f (co_system output) (co_apps output))"
  by (simp add: project_gated_def ensure_publishable_def)

text \<open>C32: planning always returns: a publishable output gives a plan, every other one gives the publish error with its diagnostics, and the unreachable! of the action planner is never met. The Xray texts of the projected machines have to parse, where they parse, to objects whose routing rules and VLESS servers are objects, which is how the projection renders them; nothing is asked of the texts the machines run.\<close>

theorem plan_deployment_returns:
  assumes "\<And>id c after. na_xray (project id (co_system output) (co_apps output)) = Some c \<Longrightarrow>
      parse c = Some (JObject after) \<Longrightarrow> shaped after"
  shows "(can_publish output \<longrightarrow> (\<exists>plan. plan_deployment parse print sha project output snapshot applied = Done (Inr plan))) \<and>
    (\<not> can_publish output \<longrightarrow> plan_deployment parse print sha project output snapshot applied =
       Done (Inl \<lparr>pb_summary = co_summary output, pb_diagnostics = co_diagnostics output\<rparr>))"
proof (cases "can_publish output")
  case True
  define desired where "desired = map (\<lambda>id. (id, desired_state sha (project id (co_system output) (co_apps output))))
    (bset (map fst (sp_nodes snapshot)))"
  have coll: "collect_results (map (\<lambda>id. case project_gated (project id) output of
      Inl e \<Rightarrow> Inl e | Inr n \<Rightarrow> Inr (id, desired_state sha n)) (bset (map fst (sp_nodes snapshot)))) = Inr desired"
    by (simp add: project_published [OF True] collect_results_Inr desired_def)
  have "\<forall>e \<in> set desired. \<exists>n. snd e = desired_state sha n" by (auto simp: desired_def)
  moreover have "\<forall>e \<in> set desired. swap_decides parse (snd e)"
    using desired_state_swap_decides [OF assms] by (auto simp: desired_def)
  ultimately obtain plan where plan: "plan_desired_deployment parse sha (sp_revision snapshot) desired applied
      (plan_warnings (co_diagnostics output)) = Done plan"
    and decides: "\<forall>t \<in> set (dp_targets plan). swap_decides parse (pt_desired t)"
    using plan_desired_total by blast
  obtain ts where "run_map (retire_target parse sha (bset (map fst (filter snd (sp_nodes snapshot))))
      (applied_by_node applied)) (dp_targets plan) = Done ts"
    using retire_target_total decides by (metis run.exhaust run_map_Panic_iff)
  with plan coll True show ?thesis
    by (simp add: plan_deployment_def ensure_publishable_def Let_def)
qed (simp add: plan_deployment_def ensure_publishable_def)

theorem grants_match_iff_witness:
  "\<not> grants_match (GrantsPresent [GrantInbound ''in'' [GrantClient ''a'' ''u'' None 0]])
       (AppliedGrantsPresent [ObservedInbound ''in'' [ObservedClient ''a'' ''v'' None]])"
  by (subst grants_match_iff) (simp_all add: desired_accounts_def observed_accounts_def)

definition sample_output :: "(unit, unit) compile_output" where
  "sample_output = \<lparr>co_system = (), co_apps = [], co_diagnostics = [], co_summary = summarize_diagnostics []\<rparr>"

definition sample_artifacts :: "string \<Rightarrow> node_artifacts" where
  "sample_artifacts n = \<lparr>na_node_id = n, na_phantun = None, na_wireguard = Some ''w'', na_xray = Some ''x'',
     na_hy2_port_hop = None, na_grants = None\<rparr>"

text \<open>A parser that reads the previous and the desired configuration of the sample swap.\<close>

definition sample_reader :: "string \<Rightarrow> json option" where
  "sample_reader text =
     (if text = ''x'' then Some (JObject sample_new) else if text = ''old'' then Some (JObject sample_old) else None)"

definition sample_running :: node_applied_state where
  "sample_running = \<lparr>ap_node_id = ''n'', ap_phantun = AppliedDisabled, ap_hy2_port_hop = AppliedDisabled,
     ap_wireguard = AppliedPresent ''w'', ap_xray = AppliedPresent ''old'', ap_grants = AppliedGrantsUnknown,
     ap_running_xray = Some ''old''\<rparr>"

lemma sample_shaped: "shaped sample_new"
  by code_simp

theorem plan_deployment_returns_witness:
  "\<exists>plan. plan_deployment sample_reader (\<lambda>_. []) (\<lambda>c. c) (\<lambda>n _ _. sample_artifacts n) sample_output
     \<lparr>sp_revision = 1, sp_nodes = [(''n'', False)]\<rparr> [sample_running] = Done (Inr plan)"
proof -
  have "can_publish sample_output" by code_simp
  moreover have "shaped after" if "na_xray (sample_artifacts id) = Some c" "sample_reader c = Some (JObject after)" for id c after
    using that sample_shaped by (auto simp: sample_artifacts_def sample_reader_def)
  ultimately show ?thesis
    using plan_deployment_returns [of "\<lambda>n _ _. sample_artifacts n" sample_output sample_reader]
    by blast
qed

section \<open>Narrowing\<close>

lemma narrow_config_fields:
  "pt_node_id (narrow_config_desired t) = pt_node_id t"
  "pt_actions (narrow_config_desired t) =
     (if touches_xray t then pt_actions t else filter (\<lambda>a. a \<noteq> SyncGrants) (pt_actions t))"
  by (auto simp: narrow_config_desired_def Let_def)

lemma narrow_config_desired_of:
  "desired_of (pt_desired (narrow_config_desired t)) a =
     narrow_artifact (List.map_filter action_artifact (pt_actions t)) a (desired_of (pt_desired t) a)"
  by (cases a) (auto simp: narrow_config_desired_def Let_def)

lemma narrow_config_grants:
  "nd_grants (pt_desired (narrow_config_desired t)) =
     (if touches_xray t then nd_grants (pt_desired t) else GrantsUnmanaged (Msg ''xray is not restarted'' []))"
  by (auto simp: narrow_config_desired_def Let_def)

lemma action_artifact_None: "action_artifact a = None \<longleftrightarrow> a = SyncGrants \<or> a = SyncVpngate"
  by (cases a) auto

lemma narrow_config_status:
  "pt_status (narrow_config_desired t) = (if pt_actions (narrow_config_desired t) = [] then Skipped else pt_status t)"
  by (auto simp: narrow_config_desired_def Let_def)

definition moves :: "planned_target \<Rightarrow> config_artifact \<Rightarrow> bool" where
  "moves t a \<longleftrightarrow> (\<exists>x \<in> set (pt_actions t). action_artifact x = Some a)"

lemma map_filter_moves: "a \<in> set (List.map_filter action_artifact (pt_actions t)) \<longleftrightarrow> moves t a"
  by (force simp: List.map_filter_def moves_def)

definition manages :: "planned_target \<Rightarrow> config_artifact \<Rightarrow> bool" where
  "manages t a \<longleftrightarrow> (\<forall>r. desired_of (pt_desired t) a \<noteq> Unmanaged r)"

lemma config_line_at:
  assumes "i < length (dp_targets plan)"
  shows "(dp_targets (narrow_to_kind plan ConfigKind) ! i)\<lparr>pt_wave := 0\<rparr> =
    (narrow_config_desired (dp_targets plan ! i))\<lparr>pt_wave := 0\<rparr>"
  using assign_waves_numbers [of "map narrow_config_desired (dp_targets plan)"] assms
  by (simp add: same_but_wave_def Let_def)

lemma config_line_fields:
  assumes "i < length (dp_targets plan)"
  defines "c \<equiv> dp_targets (narrow_to_kind plan ConfigKind) ! i"
    and "n \<equiv> narrow_config_desired (dp_targets plan ! i)"
  shows "pt_node_id c = pt_node_id n" and "pt_actions c = pt_actions n" and "pt_desired c = pt_desired n"
proof -
  have e: "c\<lparr>pt_wave := 0\<rparr> = n\<lparr>pt_wave := 0\<rparr>" unfolding c_def n_def by (rule config_line_at [OF assms(1)])
  show "pt_node_id c = pt_node_id n" using arg_cong [OF e, of pt_node_id] by simp
  show "pt_actions c = pt_actions n" using arg_cong [OF e, of pt_actions] by simp
  show "pt_desired c = pt_desired n" using arg_cong [OF e, of pt_desired] by simp
qed

lemma grants_line_members:
  "narrow_grants_target t \<in> narrow_grants_target ` {s \<in> S. can_sync_grants_now s} \<longleftrightarrow> can_sync_grants_now t"
  if "t \<in> S"
proof
  assume "narrow_grants_target t \<in> narrow_grants_target ` {s \<in> S. can_sync_grants_now s}"
  then obtain s where s: "can_sync_grants_now s" "narrow_grants_target t = narrow_grants_target s" by blast
  have "pt_status t = pt_status s" "pt_actions t = pt_actions s"
    using arg_cong [OF s(2), of pt_status] arg_cong [OF s(2), of pt_actions]
    by (simp_all add: narrow_grants_target_def Let_def)
  with s(1) show "can_sync_grants_now t" by (simp add: can_sync_grants_now_def touches_xray_def)
qed (use that in blast)

lemma grants_line_unmanaged: "\<not> manages (narrow_grants_target t) a"
  by (cases a) (auto simp: manages_def narrow_grants_target_def untouched_artifact_def Let_def)

text \<open>C33: narrowing splits a plan without loss or overlap: in the configuration line a pending machine keeps exactly the artifacts its actions move, unchanged, and every action except a grants synchronization; the grants line manages no artifact and takes the machine exactly when the configuration line leaves its grants alone.\<close>

theorem narrowing_splits:
  assumes "i < length (dp_targets plan)" and "pt_status (dp_targets plan ! i) = Pending"
  defines "t \<equiv> dp_targets plan ! i" and "c \<equiv> dp_targets (narrow_to_kind plan ConfigKind) ! i"
    and "grants_line \<equiv> dp_targets (narrow_to_kind plan GrantsKind)"
  shows "pt_node_id c = pt_node_id t \<and> (\<forall>a. manages c a \<longleftrightarrow> moves t a \<and> manages t a) \<and>
    (\<forall>a. desired_of (pt_desired c) a = desired_of (pt_desired t) a \<or> \<not> moves t a) \<and>
    set (pt_actions t) - {SyncGrants} \<subseteq> set (pt_actions c) \<and> set (pt_actions c) \<subseteq> set (pt_actions t) \<and>
    (narrow_grants_target t \<in> set grants_line \<longleftrightarrow> SyncGrants \<in> set (pt_actions t) - set (pt_actions c)) \<and>
    (SyncGrants \<in> set (pt_actions c) \<longrightarrow> nd_grants (pt_desired c) = nd_grants (pt_desired t)) \<and>
    (\<forall>g \<in> set grants_line. \<forall>a. \<not> manages g a)"
proof -
  note c = config_line_fields [OF assms(1), folded c_def t_def]
  have d: "desired_of (pt_desired c) a = narrow_artifact (List.map_filter action_artifact (pt_actions t)) a
      (desired_of (pt_desired t) a)" for a
    by (simp add: c narrow_config_desired_of)
  have "manages c a \<longleftrightarrow> moves t a \<and> manages t a" for a
    by (simp add: manages_def d narrow_artifact_def map_filter_moves untouched_artifact_def)
  moreover have "desired_of (pt_desired c) a = desired_of (pt_desired t) a \<or> \<not> moves t a" for a
    by (simp add: d narrow_artifact_def map_filter_moves)
  moreover have "t \<in> set (dp_targets plan)" unfolding t_def using assms(1) by simp
  then have "narrow_grants_target t \<in> set grants_line \<longleftrightarrow> can_sync_grants_now t"
    using grants_line_members by (simp add: grants_line_def Let_def)
  then have "narrow_grants_target t \<in> set grants_line \<longleftrightarrow> SyncGrants \<in> set (pt_actions t) - set (pt_actions c)"
    using assms(2) by (simp add: c narrow_config_fields can_sync_grants_now_def t_def)
  moreover have "\<forall>g \<in> set grants_line. \<forall>a. \<not> manages g a"
    by (auto simp: grants_line_def Let_def grants_line_unmanaged)
  moreover have "SyncGrants \<in> set (pt_actions c) \<longrightarrow> nd_grants (pt_desired c) = nd_grants (pt_desired t)"
    by (simp add: c narrow_config_fields narrow_config_grants)
  moreover have "pt_node_id c = pt_node_id t" by (simp add: c narrow_config_fields)
  moreover have "set (pt_actions t) - {SyncGrants} \<subseteq> set (pt_actions c)" "set (pt_actions c) \<subseteq> set (pt_actions t)"
    by (auto simp: c narrow_config_fields)
  ultimately show ?thesis by blast
qed


definition narrowing_sample :: deployment_plan where
  "narrowing_sample = \<lparr>dp_revision = 1,
     dp_targets = [(sample_target ''n'' [] [ApplyWireGuard, SyncGrants] False)
       \<lparr>pt_desired := \<lparr>nd_phantun = Disabled (Msg [] []), nd_wireguard = Present ''w'' ''1'',
          nd_xray = Present ''x'' ''2'', nd_hy2_port_hop = Disabled (Msg [] []), nd_grants = GrantsPresent []\<rparr>\<rparr>],
     dp_summary = summarize_targets [], dp_warnings = [], dp_base_revision_id = None\<rparr>"

theorem narrowing_splits_witness:
  "manages (dp_targets (narrow_to_kind narrowing_sample ConfigKind) ! 0) WireGuard \<and>
    \<not> manages (dp_targets (narrow_to_kind narrowing_sample ConfigKind) ! 0) Xray \<and>
    narrow_grants_target (dp_targets narrowing_sample ! 0) \<in> set (dp_targets (narrow_to_kind narrowing_sample GrantsKind))"
proof -
  let ?t = "dp_targets narrowing_sample ! 0"
  have "0 < length (dp_targets narrowing_sample)" "pt_status ?t = Pending" by code_simp+
  note split = narrowing_splits [OF this]
  have "moves ?t WireGuard" "\<not> moves ?t Xray" "manages ?t WireGuard"
    by (auto simp: moves_def manages_def narrowing_sample_def sample_target_def)
  moreover have "SyncGrants \<in> set (pt_actions ?t)" by code_simp
  moreover have "SyncGrants \<notin> set (pt_actions (dp_targets (narrow_to_kind narrowing_sample ConfigKind) ! 0))" by code_simp
  ultimately show ?thesis using split by blast
qed

section \<open>Prerequisites from listener references\<close>

lemma add_prerequisites_at:
  assumes "distinct (map pt_node_id ts)" and "i < length ts" and "length us = length ts"
  shows "set (pt_prerequisites (fold (add_prerequisite (node_index ts)) ps us ! i)) =
      set (pt_prerequisites (us ! i)) \<union> {p. (pt_node_id (ts ! i), p) \<in> set ps} \<and>
    (fold (add_prerequisite (node_index ts)) ps us ! i)\<lparr>pt_prerequisites := []\<rparr> = (us ! i)\<lparr>pt_prerequisites := []\<rparr> \<and>
    length (fold (add_prerequisite (node_index ts)) ps us) = length us"
  using assms(3)
proof (induction ps arbitrary: us)
  case (Cons p ps)
  obtain d q where p: "p = (d, q)" by (cases p)
  define vs where "vs = add_prerequisite (node_index ts) p us"
  have len: "length vs = length us"
    by (simp add: vs_def p add_prerequisite_def split: option.splits)
  have at: "set (pt_prerequisites (vs ! i)) = set (pt_prerequisites (us ! i)) \<union> (if d = pt_node_id (ts ! i) then {q} else {}) \<and>
      (vs ! i)\<lparr>pt_prerequisites := []\<rparr> = (us ! i)\<lparr>pt_prerequisites := []\<rparr>"
  proof (cases "map_of (node_index ts) d")
    case None
    then have "d \<noteq> pt_node_id (ts ! i)"
      using node_index_lookup [OF assms(1), of "pt_node_id (ts ! i)" i] assms(2) by auto
    with None show ?thesis by (simp add: vs_def p add_prerequisite_def)
  next
    case (Some k)
    then have k: "k < length ts" "pt_node_id (ts ! k) = d" using node_index_lookup [OF assms(1)] by blast+
    then have "d = pt_node_id (ts ! i) \<longleftrightarrow> k = i"
      using assms(1,2) by (metis distinct_conv_nth length_map nth_map)
    with Some k show ?thesis using Cons.prems by (auto simp: vs_def p add_prerequisite_def nth_list_update)
  qed
  have "length vs = length ts" using len Cons.prems by simp
  note rest = Cons.IH [OF this]
  have step: "fold (add_prerequisite (node_index ts)) (p # ps) us = fold (add_prerequisite (node_index ts)) ps vs"
    by (simp add: vs_def)
  show ?case unfolding step using rest at len by (auto simp: p split: if_splits)
qed simp

definition caller_pairs ::
  "(string \<Rightarrow> json option) \<Rightarrow> (json \<Rightarrow> string) \<Rightarrow> planned_target list \<Rightarrow> node_applied_state list \<Rightarrow> (string \<times> string) list"
where
  "caller_pairs parse print ts applied =
     required_pairs (changing_xray ts)
       (bcollect (concat (map (desired_listener_reference_pairs parse print) ts)))
       (bcollect (concat (map (running_listener_reference_pairs parse print) applied)))"

lemma clear_prerequisites:
  "pt_node_id (t\<lparr>pt_prerequisites := p\<rparr>) = pt_node_id t"
  "touches_xray (t\<lparr>pt_prerequisites := p\<rparr>) = touches_xray t"
  "desired_listener_reference_pairs parse print (t\<lparr>pt_prerequisites := p\<rparr>) = desired_listener_reference_pairs parse print t"
  by (simp_all add: touches_xray_def desired_listener_reference_pairs_def cong: desired_artifact.case_cong)

lemma assigned_prerequisites:
  fixes parse print and applied :: "node_applied_state list" and ts :: "planned_target list"
  assumes "distinct (map pt_node_id ts)" and "i < length ts"
  defines "us \<equiv> assign_listener_reference_prerequisites parse print ts applied"
  shows "length us = length ts"
    and "(us ! i)\<lparr>pt_prerequisites := []\<rparr> = (ts ! i)\<lparr>pt_prerequisites := []\<rparr>"
    and "set (pt_prerequisites (us ! i)) = {p. (pt_node_id (ts ! i), p) \<in> set (caller_pairs parse print ts applied)}"
proof -
  define zs where "zs = map (\<lambda>t. t\<lparr>pt_prerequisites := []\<rparr>) ts"
  have ids: "map pt_node_id zs = map pt_node_id ts" by (simp add: zs_def)
  have pairs: "caller_pairs parse print zs applied = caller_pairs parse print ts applied"
    by (simp add: caller_pairs_def zs_def changing_xray_def filter_map comp_def clear_prerequisites)
  let ?f = "fold (add_prerequisite (node_index zs)) (caller_pairs parse print zs applied) zs"
  have us: "us = map (\<lambda>t. t\<lparr>pt_prerequisites := bset (pt_prerequisites t)\<rparr>) ?f"
    by (simp add: us_def assign_listener_reference_prerequisites_def Let_def caller_pairs_def zs_def [symmetric])
  have len: "length zs = length ts" by (simp add: zs_def)
  note f = add_prerequisites_at [of zs _ zs, unfolded ids len, OF assms(1) _ refl, of _ "caller_pairs parse print zs applied"]
  show 1: "length us = length ts" using f [OF assms(2)] by (simp add: us len)
  have i: "i < length ?f" using f [OF assms(2)] assms(2) len by simp
  show "(us ! i)\<lparr>pt_prerequisites := []\<rparr> = (ts ! i)\<lparr>pt_prerequisites := []\<rparr>"
    using f [OF assms(2)] i assms(2) by (simp add: us) (simp add: zs_def)
  show "set (pt_prerequisites (us ! i)) = {p. (pt_node_id (ts ! i), p) \<in> set (caller_pairs parse print ts applied)}"
    using f [OF assms(2)] i assms(2) by (simp add: us pairs) (simp add: zs_def)
qed


lemma ordered_targets_cong:
  assumes "length us = length ts" and "\<And>i. i < length ts \<Longrightarrow> (us ! i)\<lparr>pt_prerequisites := []\<rparr> = (ts ! i)\<lparr>pt_prerequisites := []\<rparr>"
  shows "ordered_targets us = ordered_targets ts"
proof -
  have "pt_actions (us ! i) = pt_actions (ts ! i) \<and> pt_disruptive (us ! i) = pt_disruptive (ts ! i)" if "i < length ts" for i
    using arg_cong [OF assms(2) [OF that], of pt_actions] arg_cong [OF assms(2) [OF that], of pt_disruptive] by simp
  then show ?thesis
    by (auto simp: ordered_targets_def xray_apply_targets_def high_risk_targets_def assms(1) bset_eq_iff)
qed

lemma caller_pairs_order_waves:
  fixes parse print and applied :: "node_applied_state list" and ts :: "planned_target list"
  defines "us \<equiv> assign_listener_reference_prerequisites parse print ts applied"
  assumes "distinct (map pt_node_id ts)" and "i \<in> set (ordered_targets ts)" and "j < length ts"
    and "(pt_node_id (ts ! i), pt_node_id (ts ! j)) \<in> set (caller_pairs parse print ts applied)"
  shows "pt_wave (assign_waves us ! j) < pt_wave (assign_waves us ! i) \<or>
    pt_wave (assign_waves us ! j) = pt_wave (assign_waves us ! i) \<and> mutually_dependent us i j"
proof -
  note less = ordered_less [OF assms(3)] assms(4)
  note us = assigned_prerequisites [OF assms(2), of _ parse print applied, folded us_def]
  have id: "pt_node_id (us ! k) = pt_node_id (ts ! k)" if "k < length ts" for k
    using arg_cong [OF us(2) [OF that], of pt_node_id] by simp
  have "map pt_node_id us = map pt_node_id ts"
    by (rule nth_equalityI) (use us(1) [OF less(1)] id in auto)
  then have dist: "distinct (map pt_node_id us)" using assms(2) by simp
  have "ordered_targets us = ordered_targets ts" by (rule ordered_targets_cong [OF us(1) [OF less(1)] us(2)])
  moreover have "length us = length ts" by (rule us(1) [OF less(1)])
  moreover have "pt_node_id (us ! j) \<in> set (pt_prerequisites (us ! i))"
    using assms(5) us(3) [OF less(1)] id [OF less(2)] by simp
  ultimately show ?thesis using assms(3,4) by (intro waves_of_prerequisites [OF dist]) simp_all
qed

lemma required_pairs_members:
  assumes "s \<in> set changing" and "o' \<in> set changing" and "distinct (map fst current)"
  shows "map_of running (r, s, l, o') = None \<Longrightarrow> map_of current (r, s, l, o') = Some v \<Longrightarrow>
      (s, o') \<in> set (required_pairs changing current running)"
    and "map_of current (r, s, l, o') = None \<Longrightarrow> map_of running (r, s, l, o') = Some v \<Longrightarrow>
      (o', s) \<in> set (required_pairs changing current running)"
    and "map_of running (r, s, l, o') = Some v \<Longrightarrow> map_of current (r, s, l, o') = Some w \<Longrightarrow> v \<noteq> w \<Longrightarrow>
      (s, o') \<in> set (required_pairs changing current running) \<and> (o', s) \<in> set (required_pairs changing current running)"
proof -
  let ?k = "(r, s, l, o')"
  show "(s, o') \<in> set (required_pairs changing current running)"
    if "map_of running ?k = None" and "map_of current ?k = Some v"
  proof -
    have "?k \<in> set (map fst current)" using map_of_SomeD [OF that(2)] by force
    then show ?thesis unfolding required_pairs_def Let_def set_bset set_append set_map
      by (intro UnI1 image_eqI [where x = ?k]) (use that(1) assms(1,2) in simp_all)
  qed
  show "(o', s) \<in> set (required_pairs changing current running)"
    if "map_of current ?k = None" and "map_of running ?k = Some v"
  proof -
    have "?k \<in> set (map fst running)" using map_of_SomeD [OF that(2)] by force
    then show ?thesis unfolding required_pairs_def Let_def set_bset set_append set_map
      by (intro UnI2 UnI1 image_eqI [where x = ?k]) (use that(1) assms(1,2) in simp_all)
  qed
  show "(s, o') \<in> set (required_pairs changing current running) \<and> (o', s) \<in> set (required_pairs changing current running)"
    if "map_of running ?k = Some v" and "map_of current ?k = Some w" and "v \<noteq> w"
  proof -
    have "(?k, w) \<in> set (filter (\<lambda>e. case map_of running (fst e) of None \<Rightarrow> False | Some old \<Rightarrow> snd e \<noteq> old) current)"
      using map_of_SomeD [OF that(2)] that(1,3) by simp
    then have "(?k, w) \<in> set (filter (\<lambda>e. (\<lambda>(_, source, _, target). source \<in> set changing \<and> target \<in> set changing) (fst e))
        (filter (\<lambda>e. case map_of running (fst e) of None \<Rightarrow> False | Some old \<Rightarrow> snd e \<noteq> old) current))"
      using assms(1,2) by simp
    then have "x \<in> set (required_pairs changing current running)" if "x \<in> {(s, o'), (o', s)}" for x
      unfolding required_pairs_def Let_def set_bset set_append set_concat set_map
      by (intro UnI2 UN_I [where a = "[(s, o'), (o', s)]"] image_eqI [where x = "(?k, w)"]) (use that in auto)
    then show ?thesis by blast
  qed
qed

text \<open>C13: when a listener reference appears, disappears or changes between two machines that both change Xray, the waves follow, as far as the machine that has to wait has a wave of its own (it applies Xray, or disables it disruptively; a disable of an Xray that did not run stays in wave zero): a new caller never ships before the owner of the listener, an owner that loses a caller never ships before that caller, and an endpoint that moved ships in one wave with its caller.\<close>

theorem references_order_waves:
  fixes parse print and applied :: "node_applied_state list" and ts :: "planned_target list"
  defines "ws \<equiv> assign_waves (assign_listener_reference_prerequisites parse print ts applied)"
    and "current \<equiv> bcollect (concat (map (desired_listener_reference_pairs parse print) ts))"
    and "running \<equiv> bcollect (concat (map (running_listener_reference_pairs parse print) applied))"
  assumes "distinct (map pt_node_id ts)" and "i < length ts" and "j < length ts"
    and "{pt_node_id (ts ! i), pt_node_id (ts ! j)} \<subseteq> set (changing_xray ts)"
    and "reference = (route, pt_node_id (ts ! i), listener, pt_node_id (ts ! j))"
    and "map_of current reference \<noteq> map_of running reference"
  shows "(map_of running reference = None \<and> i \<in> set (ordered_targets ts) \<longrightarrow> pt_wave (ws ! j) \<le> pt_wave (ws ! i)) \<and>
    (map_of current reference = None \<and> j \<in> set (ordered_targets ts) \<longrightarrow> pt_wave (ws ! i) \<le> pt_wave (ws ! j)) \<and>
    (map_of current reference \<noteq> None \<and> map_of running reference \<noteq> None \<and> {i, j} \<subseteq> set (ordered_targets ts) \<longrightarrow>
       pt_wave (ws ! i) = pt_wave (ws ! j))"
proof -
  have keys: "distinct (map fst current)" unfolding current_def by (rule bmap_ok_distinct) simp
  note pairs = required_pairs_members [OF _ _ keys, where s = "pt_node_id (ts ! i)" and o' = "pt_node_id (ts ! j)" and changing = "changing_xray ts"
      and running = running and r = route and l = listener, folded assms(8)]
  have pairs_def: "caller_pairs parse print ts applied = required_pairs (changing_xray ts) current running"
    by (simp add: caller_pairs_def current_def running_def)
  have ij: "pt_wave (ws ! j) \<le> pt_wave (ws ! i)"
    if "(pt_node_id (ts ! i), pt_node_id (ts ! j)) \<in> set (required_pairs (changing_xray ts) current running)"
      and "i \<in> set (ordered_targets ts)"
    using caller_pairs_order_waves [OF assms(4) that(2) assms(6), of parse print applied] that(1)
    unfolding pairs_def ws_def by linarith
  have ji: "pt_wave (ws ! i) \<le> pt_wave (ws ! j)"
    if "(pt_node_id (ts ! j), pt_node_id (ts ! i)) \<in> set (required_pairs (changing_xray ts) current running)"
      and "j \<in> set (ordered_targets ts)"
    using caller_pairs_order_waves [OF assms(4) that(2) assms(5), of parse print applied] that(1)
    unfolding pairs_def ws_def by linarith
  have ch: "pt_node_id (ts ! i) \<in> set (changing_xray ts)" "pt_node_id (ts ! j) \<in> set (changing_xray ts)"
    using assms(7) by simp_all
  show ?thesis
  proof (cases "map_of running reference")
    case None
    then obtain v where "map_of current reference = Some v" using assms(9) by (metis not_Some_eq)
    then show ?thesis using ij pairs(1) [OF ch None] None by simp
  next
    case (Some v)
    show ?thesis
    proof (cases "map_of current reference")
      case None
      then show ?thesis using ji pairs(2) [OF ch None Some] Some by simp
    next
      case (Some w)
      note w = this
      have "v \<noteq> w" using assms(9) w \<open>map_of running reference = Some v\<close> by auto
      note both = pairs(3) [OF ch \<open>map_of running reference = Some v\<close> w this]
      then show ?thesis using ij ji w \<open>map_of running reference = Some v\<close> by (simp add: order_antisym)
    qed
  qed
qed


definition caller_parse :: "string \<Rightarrow> json option" where
  "caller_parse s = (if s = ''va'' then Some (JObject [(''outbounds'', JArray [JObject [(''tag'', JString ''out:r~l>b'')]])])
     else None)"

definition caller_targets :: "planned_target list" where
  "caller_targets = map (\<lambda>(n, c). (sample_target n [] [ApplyXray] False)\<lparr>pt_desired :=
     \<lparr>nd_phantun = Disabled (Msg [] []), nd_wireguard = Disabled (Msg [] []), nd_xray = Present c ''1'',
      nd_hy2_port_hop = Disabled (Msg [] []), nd_grants = GrantsPresent []\<rparr>\<rparr>) [(''a'', ''va''), (''b'', ''vb'')]"

theorem references_order_waves_witness:
  "pt_wave (assign_waves (assign_listener_reference_prerequisites caller_parse (\<lambda>_. ''p'') caller_targets []) ! 1) \<le>
   pt_wave (assign_waves (assign_listener_reference_prerequisites caller_parse (\<lambda>_. ''p'') caller_targets []) ! 0)"
proof -
  have ids: "distinct (map pt_node_id caller_targets)" by code_simp
  have ordered: "0 \<in> set (ordered_targets caller_targets)" "1 \<in> set (ordered_targets caller_targets)" by code_simp+
  have nodes: "pt_node_id (caller_targets ! 0) = ''a''" "pt_node_id (caller_targets ! 1) = ''b''" by code_simp+
  have changing: "{pt_node_id (caller_targets ! 0), pt_node_id (caller_targets ! 1)} \<subseteq> set (changing_xray caller_targets)"
    unfolding nodes by code_simp
  have none: "map_of (bcollect (concat (map (running_listener_reference_pairs caller_parse (\<lambda>_. ''p'')) [])))
      (''r'', ''a'', ''l'', ''b'') = None"
    by simp
  have some: "map_of (bcollect (concat (map (desired_listener_reference_pairs caller_parse (\<lambda>_. ''p'')) caller_targets)))
      (''r'', ''a'', ''l'', ''b'') = Some ''p''"
    by code_simp
  have key: "(''r'', ''a'', ''l'', ''b'') = (''r'', pt_node_id (caller_targets ! 0), ''l'', pt_node_id (caller_targets ! 1))"
    by (simp only: nodes)
  have len: "0 < length caller_targets" "1 < length caller_targets" by code_simp+
  from references_order_waves [OF ids len changing key, of caller_parse "\<lambda>_. ''p''" "[]"] none some ordered
  show ?thesis by simp
qed

section \<open>What is not disruptive\<close>

lemma not_disruptive_apply:
  assumes "is_disruptive parse sha ApplyXray (Some state) desired = Done False"
  obtains running content digest h where "ap_running_xray state = Some running"
    and "ap_xray state = AppliedPresent (sha running)" and "nd_xray desired = Present content digest"
    and "hot_swap parse running content = Done (Some h)"
    and "\<not> grants_flow_changed (nd_grants desired) (Some (ap_grants state))"
  using assms
  by (auto simp: can_apply_without_restart_def split: if_splits option.splits applied_artifact_state.splits desired_artifact.splits)

text \<open>C17: an Xray change the plan calls not disruptive really needs no restart: the machine reports the digest of the configuration it runs, the desired one is reached from it by an operation list that runs to the desired state, and no state in between routes into a missing outbound when neither configuration does.\<close>

theorem nondisruptive_apply_is_a_swap:
  assumes "\<And>s v. parse s = Some v \<Longrightarrow> json_ok v"
    and "is_disruptive parse sha ApplyXray (Some state) desired = Done False"
  shows "\<exists>running content digest h before after ops trace.
    ap_running_xray state = Some running \<and> ap_xray state = AppliedPresent (sha running) \<and>
    nd_xray desired = Present content digest \<and> hot_swap parse running content = Done (Some h) \<and>
    parse running = Some (JObject before) \<and> parse content = Some (JObject after) \<and>
    operations h = Done ops \<and> exec_trace ops (xray_of before) = Some trace \<and> last trace = xray_of after \<and>
    (no_dangling (xray_of before) \<and> no_dangling (xray_of after) \<longrightarrow> (\<forall>s \<in> set trace. no_dangling s))"
proof -
  obtain running content digest h where r: "ap_running_xray state = Some running"
      "ap_xray state = AppliedPresent (sha running)" "nd_xray desired = Present content digest"
    and swap: "hot_swap parse running content = Done (Some h)"
    by (rule not_disruptive_apply [OF assms(2)])
  obtain before after where p: "parse running = Some (JObject before)" "parse content = Some (JObject after)"
    and h: "hot_swap_objects before after = Done (Some h)"
    and ok: "json_ok (JObject before)" "json_ok (JObject after)"
    by (rule hot_swap_parsed [OF swap assms(1)])
  from hot_swap_runs [OF ok h] obtain ops trace where "operations h = Done ops"
      "exec_trace ops (xray_of before) = Some trace" "last trace = xray_of after"
      "no_dangling (xray_of before) \<and> no_dangling (xray_of after) \<longrightarrow> (\<forall>s \<in> set trace. no_dangling s)"
    unfolding runs_def swap_invariant_def using carries_no_dangling by blast
  with r swap p show ?thesis by blast
qed

definition hot_state :: node_applied_state where
  "hot_state = \<lparr>ap_node_id = ''n'', ap_phantun = AppliedDisabled, ap_hy2_port_hop = AppliedDisabled,
     ap_wireguard = AppliedDisabled, ap_xray = AppliedPresent ''old'', ap_grants = AppliedGrantsPresent [],
     ap_running_xray = Some ''old''\<rparr>"

definition hot_desired :: node_desired_state where
  "hot_desired = \<lparr>nd_phantun = Disabled (Msg [] []), nd_wireguard = Disabled (Msg [] []),
     nd_xray = Present ''new'' ''new'', nd_hy2_port_hop = Disabled (Msg [] []), nd_grants = GrantsPresent []\<rparr>"

lemma hot_not_disruptive: "is_disruptive sample_parse (\<lambda>c. c) ApplyXray (Some hot_state) hot_desired = Done False"
proof -
  have "\<not> grants_flow_changed (nd_grants hot_desired) (Some (ap_grants hot_state))" by code_simp
  moreover have "can_apply_without_restart sample_parse (\<lambda>c. c) (Some hot_state) hot_desired = Done True"
    by (simp add: can_apply_without_restart_def hot_state_def hot_desired_def sample_hot_swap)
  ultimately show ?thesis unfolding is_disruptive.simps option.map by (simp only: if_False run_bind.simps simp_thms)
qed

theorem nondisruptive_apply_is_a_swap_witness:
  "\<exists>running content digest h before after ops trace.
    ap_running_xray hot_state = Some running \<and> nd_xray hot_desired = Present content digest \<and>
    hot_swap sample_parse running content = Done (Some h) \<and>
    sample_parse running = Some (JObject before) \<and> sample_parse content = Some (JObject after) \<and>
    operations h = Done ops \<and> exec_trace ops (xray_of before) = Some trace \<and> last trace = xray_of after"
proof -
  obtain running content digest h before after ops trace where
    "ap_running_xray hot_state = Some running \<and> ap_xray hot_state = AppliedPresent running \<and>
    nd_xray hot_desired = Present content digest \<and> hot_swap sample_parse running content = Done (Some h) \<and>
    sample_parse running = Some (JObject before) \<and> sample_parse content = Some (JObject after) \<and>
    operations h = Done ops \<and> exec_trace ops (xray_of before) = Some trace \<and> last trace = xray_of after \<and>
    (no_dangling (xray_of before) \<and> no_dangling (xray_of after) \<longrightarrow> (\<forall>s \<in> set trace. no_dangling s))"
    using nondisruptive_apply_is_a_swap [OF _ hot_not_disruptive] sample_parse_ok by blast
  then show ?thesis by blast
qed

end
