(* ===== verification/Wires.thy ===== *)
theory Wires
  imports Rust_Str
begin

text \<open>
  What an ingress speaks (brocade-core/src/model.rs): the transports and their tuning, the nine
  shapes of \<open>IngressWires\<close> with their accessors, the flat \<open>IngressWiresWire\<close> they
  are stored as, and the validation of the VLESS encryption options. A \<open>_mut\<close> accessor is
  modelled as the update through it: the function applied at the place the reference points to,
  and nothing where the Rust code returns \<open>None\<close>.
\<close>

section \<open>Transports\<close>

record reality_fallback_rate_limit =
  rl_after_bytes :: u64
  rl_bytes_per_sec :: u64
  rl_burst_bytes_per_sec :: u64

datatype reality_fallback_mode = GlobalSite | NodeCertificate | CustomSite

datatype reality_fallback_limits =
    FallbackOff
  | FallbackBalanced
  | FallbackStrict
  | FallbackCustom reality_fallback_rate_limit reality_fallback_rate_limit

record reality_settings =
  rt_dest :: string
  rt_server_names :: "string list"
  rt_fingerprint :: string
  rt_flow :: "string option"
  rt_fallback_mode :: reality_fallback_mode
  rt_fallback_limits :: reality_fallback_limits
  rt_fallback_guard :: bool

definition default_fallback_guard :: bool where "default_fallback_guard = True"

definition uses_node_certificate_fallback :: "reality_settings \<Rightarrow> bool" where
  "uses_node_certificate_fallback r = (rt_fallback_mode r = NodeCertificate)"

definition guards_fallback :: "reality_settings \<Rightarrow> bool" where
  "guards_fallback r =
     (rt_fallback_guard r \<and> \<not> uses_node_certificate_fallback r \<and> rt_server_names r \<noteq> [])"

definition reality_server_name :: "reality_settings \<Rightarrow> string option \<Rightarrow> string" where
  "reality_server_name r certificate_name =
     (if uses_node_certificate_fallback r then (case certificate_name of None \<Rightarrow> [] | Some n \<Rightarrow> n)
      else (case rt_server_names r of [] \<Rightarrow> [] | n # _ \<Rightarrow> n))"

record xhttp_xmux_range =
  xr_from :: u32
  xr_to :: u32

record xhttp_xmux =
  xm_max_concurrency :: "u16 option"
  xm_max_connections :: "u16 option"
  xm_h_max_request_times :: xhttp_xmux_range
  xm_h_max_reusable_secs :: xhttp_xmux_range
  xm_h_keep_alive_period_secs :: "32 word option"

definition xmux_range_new :: "u32 \<Rightarrow> u32 \<Rightarrow> xhttp_xmux_range" where
  "xmux_range_new a b = \<lparr>xr_from = a, xr_to = b\<rparr>"

definition xmux_with_concurrency :: "u16 \<Rightarrow> xhttp_xmux" where
  "xmux_with_concurrency n = \<lparr>xm_max_concurrency = Some n, xm_max_connections = None,
     xm_h_max_request_times = xmux_range_new 600 900, xm_h_max_reusable_secs = xmux_range_new 1800 3000,
     xm_h_keep_alive_period_secs = None\<rparr>"

record xhttp_tuning =
  xt_x_padding_bytes :: "xhttp_xmux_range option"

definition xhttp_tuning_is_empty :: "xhttp_tuning \<Rightarrow> bool" where
  "xhttp_tuning_is_empty t = (xt_x_padding_bytes t = None)"

record projection_download_endpoint =
  de_host :: string
  de_port :: u16
  de_origin_port :: "u16 option"
  de_http_host :: "string option"
  de_mux :: "u16 option"

definition node_port :: "projection_download_endpoint \<Rightarrow> u16" where
  "node_port e = (case de_origin_port e of Some p \<Rightarrow> p | None \<Rightarrow> de_port e)"

record xhttp_download =
  xd_v4 :: "projection_download_endpoint option"
  xd_v6 :: "projection_download_endpoint option"

definition xhttp_download_is_empty :: "xhttp_download \<Rightarrow> bool" where
  "xhttp_download_is_empty d = (xd_v4 d = None \<and> xd_v6 d = None)"

datatype xhttp_mode = XhttpAuto | PacketUp | StreamUp | StreamOne

fun xhttp_mode_as_str :: "xhttp_mode \<Rightarrow> string option" where
  "xhttp_mode_as_str XhttpAuto = None"
| "xhttp_mode_as_str PacketUp = Some ''packet-up''"
| "xhttp_mode_as_str StreamUp = Some ''stream-up''"
| "xhttp_mode_as_str StreamOne = Some ''stream-one''"

record xhttp =
  xh_path :: string
  xh_host :: "string option"
  xh_xmux :: "xhttp_xmux option"
  xh_tuning :: "xhttp_tuning option"
  xh_mode :: xhttp_mode
  xh_download :: "xhttp_download option"

record tls =
  tls_flow :: "string option"

record tls_xhttp =
  tx_tls :: tls
  tx_xhttp :: xhttp

record reality_xhttp =
  rx_reality :: reality_settings
  rx_xhttp :: xhttp

datatype transport =
    VlessReality reality_settings
  | VlessRealityXhttp reality_xhttp
  | VlessTls tls
  | VlessTlsXhttp tls_xhttp

fun transport_reality :: "transport \<Rightarrow> reality_settings option" where
  "transport_reality (VlessReality r) = Some r"
| "transport_reality (VlessRealityXhttp s) = Some (rx_reality s)"
| "transport_reality (VlessTls _) = None"
| "transport_reality (VlessTlsXhttp _) = None"

fun transport_flow :: "transport \<Rightarrow> string option" where
  "transport_flow (VlessReality r) = rt_flow r"
| "transport_flow (VlessRealityXhttp s) = rt_flow (rx_reality s)"
| "transport_flow (VlessTls t) = tls_flow t"
| "transport_flow (VlessTlsXhttp s) = tls_flow (tx_tls s)"

fun transport_set_flow :: "string option \<Rightarrow> transport \<Rightarrow> transport" where
  "transport_set_flow f (VlessReality r) = VlessReality (r\<lparr>rt_flow := f\<rparr>)"
| "transport_set_flow f (VlessRealityXhttp s) = VlessRealityXhttp (s\<lparr>rx_reality := (rx_reality s)\<lparr>rt_flow := f\<rparr>\<rparr>)"
| "transport_set_flow f (VlessTls t) = VlessTls (t\<lparr>tls_flow := f\<rparr>)"
| "transport_set_flow f (VlessTlsXhttp s) = VlessTlsXhttp (s\<lparr>tx_tls := (tx_tls s)\<lparr>tls_flow := f\<rparr>\<rparr>)"

fun transport_xhttp :: "transport \<Rightarrow> xhttp option" where
  "transport_xhttp (VlessReality _) = None"
| "transport_xhttp (VlessTls _) = None"
| "transport_xhttp (VlessRealityXhttp s) = Some (rx_xhttp s)"
| "transport_xhttp (VlessTlsXhttp s) = Some (tx_xhttp s)"

definition transport_needs_node_certificate :: "transport \<Rightarrow> bool" where
  "transport_needs_node_certificate t =
     ((case t of VlessTls _ \<Rightarrow> True | VlessTlsXhttp _ \<Rightarrow> True | _ \<Rightarrow> False) \<or>
      (case transport_reality t of None \<Rightarrow> False | Some r \<Rightarrow> uses_node_certificate_fallback r))"

fun transport_kind :: "transport \<Rightarrow> string" where
  "transport_kind (VlessReality _) = ''vless-reality''"
| "transport_kind (VlessRealityXhttp _) = ''vless-reality-xhttp''"
| "transport_kind (VlessTls _) = ''vless-tls''"
| "transport_kind (VlessTlsXhttp _) = ''vless-tls-xhttp''"

section \<open>AnyTLS, Hysteria 2, MTProto\<close>

definition VLESS_PORT_BASE :: u16 where "VLESS_PORT_BASE = 13443"
definition ANYTLS_PORT_BASE :: u16 where "ANYTLS_PORT_BASE = 14443"
definition HYSTERIA2_PORT_BASE :: u16 where "HYSTERIA2_PORT_BASE = 30000"
definition DEFAULT_HYSTERIA2_PORT :: u16 where "DEFAULT_HYSTERIA2_PORT = HYSTERIA2_PORT_BASE"
definition VLESS_ENCRYPTION_PORT_BASE :: u16 where "VLESS_ENCRYPTION_PORT_BASE = 13800"
definition MTPROTO_PORT_BASE :: u16 where "MTPROTO_PORT_BASE = 28800"

datatype any_tls_security = AnyTlsTls | AnyTlsReality

fun any_tls_security_as_str :: "any_tls_security \<Rightarrow> string" where
  "any_tls_security_as_str AnyTlsTls = ''tls''"
| "any_tls_security_as_str AnyTlsReality = ''reality''"

datatype any_tls_masquerade =
    AnyTlsNotFound "(string, string) bmap"
  | AnyTlsString string "(string, string) bmap" u16

definition default_anytls_status_code :: u16 where "default_anytls_status_code = 200"

record any_tls =
  at_port :: u16
  at_security :: any_tls_security
  at_reality :: "reality_settings option"
  at_padding_scheme :: "string list"
  at_idle_session_check_interval_secs :: "u32 option"
  at_idle_session_timeout_secs :: "u32 option"
  at_min_idle_session :: "u32 option"
  at_masquerade :: any_tls_masquerade

definition any_tls_reality :: "any_tls \<Rightarrow> reality_settings option" where
  "any_tls_reality a = (if at_security a = AnyTlsReality then at_reality a else None)"

definition any_tls_needs_node_certificate :: "any_tls \<Rightarrow> bool" where
  "any_tls_needs_node_certificate a =
     (at_security a = AnyTlsTls \<or>
      (case any_tls_reality a of None \<Rightarrow> False | Some r \<Rightarrow> uses_node_certificate_fallback r))"

definition any_tls_default :: any_tls where
  "any_tls_default = \<lparr>at_port = ANYTLS_PORT_BASE, at_security = AnyTlsTls, at_reality = None, at_padding_scheme = [],
     at_idle_session_check_interval_secs = None, at_idle_session_timeout_secs = None,
     at_min_idle_session = None, at_masquerade = AnyTlsNotFound []\<rparr>"

record mt_proto =
  mt_port :: u16

definition mt_proto_default :: mt_proto where "mt_proto_default = \<lparr>mt_port = MTPROTO_PORT_BASE\<rparr>"

record hysteria_port_hop =
  hp_start :: u16
  hp_end :: u16

definition saturating_sub16 :: "u16 \<Rightarrow> u16 \<Rightarrow> u16" where
  "saturating_sub16 a b = (if b \<le> a then a - b else 0)"

definition saturating_add16 :: "u16 \<Rightarrow> u16 \<Rightarrow> u16" where
  "saturating_add16 a b = (if unat a + unat b < 2 ^ 16 then a + b else - 1)"

definition port_hop_span :: "hysteria_port_hop \<Rightarrow> u16" where
  "port_hop_span h = saturating_add16 (saturating_sub16 (hp_end h) (hp_start h)) 1"

definition port_hop_contains :: "hysteria_port_hop \<Rightarrow> u16 \<Rightarrow> bool" where
  "port_hop_contains h port \<longleftrightarrow> hp_start h \<le> port \<and> port \<le> hp_end h"

record hysteria_bandwidth =
  hb_up :: "string option"
  hb_down :: "string option"

datatype hysteria_congestion = Brutal | Bbr | Reno | ForceBrutal

fun hysteria_congestion_as_str :: "hysteria_congestion \<Rightarrow> string" where
  "hysteria_congestion_as_str Brutal = ''brutal''"
| "hysteria_congestion_as_str Bbr = ''bbr''"
| "hysteria_congestion_as_str Reno = ''reno''"
| "hysteria_congestion_as_str ForceBrutal = ''force-brutal''"

datatype hysteria_bbr_profile = BbrStandard | BbrConservative | BbrAggressive

fun hysteria_bbr_profile_as_str :: "hysteria_bbr_profile \<Rightarrow> string" where
  "hysteria_bbr_profile_as_str BbrStandard = ''standard''"
| "hysteria_bbr_profile_as_str BbrConservative = ''conservative''"
| "hysteria_bbr_profile_as_str BbrAggressive = ''aggressive''"

record hysteria_quic =
  hq_init_stream_receive_window :: "u64 option"
  hq_max_stream_receive_window :: "u64 option"
  hq_init_connection_receive_window :: "u64 option"
  hq_max_connection_receive_window :: "u64 option"
  hq_max_idle_timeout_secs :: "u32 option"
  hq_keep_alive_period_secs :: "u32 option"
  hq_max_incoming_streams :: "u32 option"
  hq_disable_path_mtu_discovery :: bool

definition hysteria_quic_default :: hysteria_quic where
  "hysteria_quic_default = \<lparr>hq_init_stream_receive_window = None, hq_max_stream_receive_window = None,
     hq_init_connection_receive_window = None, hq_max_connection_receive_window = None,
     hq_max_idle_timeout_secs = None, hq_keep_alive_period_secs = None, hq_max_incoming_streams = None,
     hq_disable_path_mtu_discovery = False\<rparr>"

definition hysteria_quic_is_default :: "hysteria_quic \<Rightarrow> bool" where
  "hysteria_quic_is_default q = (q = hysteria_quic_default)"

datatype hysteria_obfs = Salamander string

datatype hysteria_masquerade = MasqueradeNotFound | MasqueradeProxy string

record hysteria2 =
  hy_port :: u16
  hy_hop :: "hysteria_port_hop option"
  hy_bandwidth :: hysteria_bandwidth
  hy_congestion :: hysteria_congestion
  hy_bbr_profile :: hysteria_bbr_profile
  hy_quic :: hysteria_quic
  hy_obfs :: "hysteria_obfs option"
  hy_masquerade :: hysteria_masquerade

definition hysteria2_default :: hysteria2 where
  "hysteria2_default = \<lparr>hy_port = DEFAULT_HYSTERIA2_PORT, hy_hop = None, hy_bandwidth = \<lparr>hb_up = None, hb_down = None\<rparr>,
     hy_congestion = Brutal, hy_bbr_profile = BbrStandard, hy_quic = hysteria_quic_default,
     hy_obfs = None, hy_masquerade = MasqueradeNotFound\<rparr>"

section \<open>VLESS encryption\<close>

datatype vless_encryption_appearance = Native | Xorpub | Random

fun appearance_as_str :: "vless_encryption_appearance \<Rightarrow> string" where
  "appearance_as_str Native = ''native''"
| "appearance_as_str Xorpub = ''xorpub''"
| "appearance_as_str Random = ''random''"

datatype vless_encryption_client_mode = ZeroRtt | OneRtt

fun client_mode_as_str :: "vless_encryption_client_mode \<Rightarrow> string" where
  "client_mode_as_str ZeroRtt = ''0rtt''"
| "client_mode_as_str OneRtt = ''1rtt''"

record vless_encryption_options =
  ve_appearance :: vless_encryption_appearance
  ve_ticket_lifetime :: string
  ve_client_mode :: vless_encryption_client_mode
  ve_server_padding :: string
  ve_client_padding :: string

definition vless_encryption_options_default :: vless_encryption_options where
  "vless_encryption_options_default = \<lparr>ve_appearance = Random, ve_ticket_lifetime = ''600s'',
     ve_client_mode = ZeroRtt, ve_server_padding = [], ve_client_padding = []\<rparr>"

record vless_encryption =
  vl_port :: u16
  vl_options :: vless_encryption_options
  vl_private_key :: string
  vl_public_key :: string

text \<open>The reasons are the Rust texts, named in English.\<close>

datatype options_error =
    TicketSuffix | TicketForm | TicketNumber | TicketRange
  | PaddingTooLong | PaddingAlternation | PaddingForm | PaddingNumber | PaddingBlock
  | PaddingRange | PaddingFirst | PaddingTotalOverflow | PaddingTotal

definition parse_seconds :: "string \<Rightarrow> nat option" where
  "parse_seconds s = (if s \<noteq> [] \<and> list_all is_ascii_digit s then parse_unsigned 32 s else None)"

definition padding_number :: "string \<Rightarrow> options_error + nat" where
  "padding_number part =
     (if part = [] \<or> \<not> list_all is_ascii_digit part then Inl PaddingForm
      else case parse_unsigned 32 part of None \<Rightarrow> Inl PaddingNumber | Some n \<Rightarrow> Inr n)"

fun padding_numbers :: "string list \<Rightarrow> options_error + nat list" where
  "padding_numbers [] = Inr []"
| "padding_numbers (p # ps) =
     (case padding_number p of
        Inl e \<Rightarrow> Inl e
      | Inr n \<Rightarrow> (case padding_numbers ps of Inl e \<Rightarrow> Inl e | Inr ns \<Rightarrow> Inr (n # ns)))"

text \<open>One turn of the loop over the blocks: \<open>acc\<close> is the running total, a \<open>u32\<close>.\<close>

definition padding_block :: "nat \<Rightarrow> string \<Rightarrow> nat \<Rightarrow> options_error + nat" where
  "padding_block index block acc =
     (case padding_numbers (split_char (CHR ''-'') block) of
        Inl e \<Rightarrow> Inl e
      | Inr values \<Rightarrow>
          if length values \<noteq> 3 \<or> 20 \<le> length block then Inl PaddingBlock
          else let probability = values ! 0; mn = values ! 1; mx = values ! 2
               in if 100 < probability \<or> mx < mn \<or> 2147483647 < mx then Inl PaddingRange
                  else if index = 0 \<and> (probability \<noteq> 100 \<or> mn < 35) then Inl PaddingFirst
                  else if index mod 2 = 0 then
                    (if 2 ^ 32 \<le> acc + mx then Inl PaddingTotalOverflow
                     else if 65553 < acc + mx then Inl PaddingTotal
                     else Inr (acc + mx))
                  else Inr acc)"

fun padding_blocks :: "nat \<Rightarrow> string list \<Rightarrow> nat \<Rightarrow> options_error + nat" where
  "padding_blocks index [] acc = Inr acc"
| "padding_blocks index (b # bs) acc =
     (case padding_block index b acc of
        Inl e \<Rightarrow> Inl e
      | Inr acc' \<Rightarrow> padding_blocks (Suc index) bs acc')"

definition validate_padding :: "string \<Rightarrow> options_error + unit" where
  "validate_padding value =
     (if value = [] then Inr ()
      else if 4096 < length value then Inl PaddingTooLong
      else let blocks = split_char (CHR ''.'') value
           in if even (length blocks) then Inl PaddingAlternation
              else (case padding_blocks 0 blocks 0 of Inl e \<Rightarrow> Inl e | Inr _ \<Rightarrow> Inr ()))"

definition options_validate :: "vless_encryption_options \<Rightarrow> options_error + unit" where
  "options_validate o' =
     (case strip_suffix ''s'' (ve_ticket_lifetime o') of
        None \<Rightarrow> Inl TicketSuffix
      | Some raw \<Rightarrow>
          (let bounds = split_char (CHR ''-'') raw
           in if bounds = [] \<or> 2 < length bounds then Inl TicketForm
              else case parse_seconds (bounds ! 0) of
                None \<Rightarrow> Inl TicketNumber
              | Some from \<Rightarrow>
                  (case if length bounds = 2 then parse_seconds (bounds ! 1) else Some from of
                     None \<Rightarrow> Inl TicketNumber
                   | Some to \<Rightarrow>
                       if to < from \<or> 65535 < to \<or> from = 0 \<and> to \<noteq> 0 then Inl TicketRange
                       else case validate_padding (ve_server_padding o') of
                         Inl e \<Rightarrow> Inl e
                       | Inr _ \<Rightarrow> validate_padding (ve_client_padding o'))))"

definition envelope :: "vless_encryption_options \<Rightarrow> string \<Rightarrow> string \<Rightarrow> string \<Rightarrow> string" where
  "envelope o' mode padding key =
     (let prefix = ''mlkem768x25519plus.'' @ appearance_as_str (ve_appearance o') @ ''.'' @ mode
      in if padding = [] then prefix @ ''.'' @ key else prefix @ ''.'' @ padding @ ''.'' @ key)"

definition decryption :: "vless_encryption_options \<Rightarrow> string \<Rightarrow> string" where
  "decryption o' private_key = envelope o' (ve_ticket_lifetime o') (ve_server_padding o') private_key"

definition encryption :: "vless_encryption_options \<Rightarrow> string \<Rightarrow> string" where
  "encryption o' public_key = envelope o' (client_mode_as_str (ve_client_mode o')) (ve_client_padding o') public_key"

section \<open>The wires of an ingress\<close>

datatype ingress_wires =
    WithVlessEncryption "ingress_wires option" vless_encryption
  | WithMtProto "ingress_wires option" mt_proto
  | Vless transport
  | AnyTls any_tls
  | Hysteria2 hysteria2
  | VlessAndAnyTls transport any_tls
  | Both transport hysteria2
  | AnyTlsAndHysteria2 any_tls hysteria2
  | VlessAnyTlsAndHysteria2 transport any_tls hysteria2

record ingress_wires_wire =
  ww_vless_encryption :: "vless_encryption option"
  ww_vless :: "transport option"
  ww_anytls :: "any_tls option"
  ww_hysteria2 :: "hysteria2 option"
  ww_mtproto :: "mt_proto option"

definition no_wire :: ingress_wires_wire where
  "no_wire = \<lparr>ww_vless_encryption = None, ww_vless = None, ww_anytls = None, ww_hysteria2 = None, ww_mtproto = None\<rparr>"

text \<open>The last match of \<open>try_from\<close>, on the three wires of one machine.\<close>

fun combine_wires :: "transport option \<Rightarrow> any_tls option \<Rightarrow> hysteria2 option \<Rightarrow> ingress_wires option" where
  "combine_wires (Some v) (Some a) (Some h) = Some (VlessAnyTlsAndHysteria2 v a h)"
| "combine_wires (Some v) (Some a) None = Some (VlessAndAnyTls v a)"
| "combine_wires (Some v) None (Some h) = Some (Both v h)"
| "combine_wires (Some v) None None = Some (Vless v)"
| "combine_wires None (Some a) (Some h) = Some (AnyTlsAndHysteria2 a h)"
| "combine_wires None (Some a) None = Some (AnyTls a)"
| "combine_wires None None (Some h) = Some (Hysteria2 h)"
| "combine_wires None None None = None"

definition wire_with_mtproto :: "ingress_wires_wire \<Rightarrow> ingress_wires option" where
  "wire_with_mtproto w =
     (case ww_mtproto w of
        Some m \<Rightarrow>
          (if ww_vless w = None \<and> ww_anytls w = None \<and> ww_hysteria2 w = None then Some (WithMtProto None m)
           else (case combine_wires (ww_vless w) (ww_anytls w) (ww_hysteria2 w) of
                   None \<Rightarrow> None
                 | Some other \<Rightarrow> Some (WithMtProto (Some other) m)))
      | None \<Rightarrow> combine_wires (ww_vless w) (ww_anytls w) (ww_hysteria2 w))"

text \<open>The recursive calls of \<open>try_from\<close> happen after \<open>take()\<close>, so they are the later stages.\<close>

definition wires_try_from :: "ingress_wires_wire \<Rightarrow> ingress_wires option" where
  "wires_try_from w =
     (case ww_vless_encryption w of
        Some e \<Rightarrow>
          (if ww_vless w = None \<and> ww_anytls w = None \<and> ww_hysteria2 w = None \<and> ww_mtproto w = None
           then Some (WithVlessEncryption None e)
           else (case wire_with_mtproto w of
                   None \<Rightarrow> None
                 | Some other \<Rightarrow> Some (WithVlessEncryption (Some other) e)))
      | None \<Rightarrow> wire_with_mtproto w)"

fun wire_from :: "ingress_wires \<Rightarrow> ingress_wires_wire" where
  "wire_from (WithVlessEncryption None e) = no_wire\<lparr>ww_vless_encryption := Some e\<rparr>"
| "wire_from (WithVlessEncryption (Some other) e) = (wire_from other)\<lparr>ww_vless_encryption := Some e\<rparr>"
| "wire_from (WithMtProto None m) = no_wire\<lparr>ww_mtproto := Some m\<rparr>"
| "wire_from (WithMtProto (Some other) m) = (wire_from other)\<lparr>ww_mtproto := Some m\<rparr>"
| "wire_from (Vless v) = no_wire\<lparr>ww_vless := Some v\<rparr>"
| "wire_from (AnyTls a) = no_wire\<lparr>ww_anytls := Some a\<rparr>"
| "wire_from (Hysteria2 h) = no_wire\<lparr>ww_hysteria2 := Some h\<rparr>"
| "wire_from (VlessAndAnyTls v a) = no_wire\<lparr>ww_vless := Some v, ww_anytls := Some a\<rparr>"
| "wire_from (Both v h) = no_wire\<lparr>ww_vless := Some v, ww_hysteria2 := Some h\<rparr>"
| "wire_from (AnyTlsAndHysteria2 a h) = no_wire\<lparr>ww_anytls := Some a, ww_hysteria2 := Some h\<rparr>"
| "wire_from (VlessAnyTlsAndHysteria2 v a h) = no_wire\<lparr>ww_vless := Some v, ww_anytls := Some a, ww_hysteria2 := Some h\<rparr>"

fun wires_vless_encryption :: "ingress_wires \<Rightarrow> vless_encryption option" where
  "wires_vless_encryption (WithVlessEncryption _ e) = Some e"
| "wires_vless_encryption (WithMtProto (Some other) _) = wires_vless_encryption other"
| "wires_vless_encryption _ = None"

fun wires_mtproto :: "ingress_wires \<Rightarrow> mt_proto option" where
  "wires_mtproto (WithMtProto _ m) = Some m"
| "wires_mtproto (WithVlessEncryption (Some other) _) = wires_mtproto other"
| "wires_mtproto _ = None"

fun wires_vless :: "ingress_wires \<Rightarrow> transport option" where
  "wires_vless (WithVlessEncryption other _) = (case other of None \<Rightarrow> None | Some w \<Rightarrow> wires_vless w)"
| "wires_vless (WithMtProto other _) = (case other of None \<Rightarrow> None | Some w \<Rightarrow> wires_vless w)"
| "wires_vless (Vless v) = Some v"
| "wires_vless (Both v _) = Some v"
| "wires_vless (VlessAndAnyTls v _) = Some v"
| "wires_vless (VlessAnyTlsAndHysteria2 v _ _) = Some v"
| "wires_vless _ = None"

fun wires_vless_mut :: "(transport \<Rightarrow> transport) \<Rightarrow> ingress_wires \<Rightarrow> ingress_wires" where
  "wires_vless_mut f (WithVlessEncryption other e) = WithVlessEncryption (map_option (wires_vless_mut f) other) e"
| "wires_vless_mut f (WithMtProto other m) = WithMtProto (map_option (wires_vless_mut f) other) m"
| "wires_vless_mut f (Vless v) = Vless (f v)"
| "wires_vless_mut f (Both v h) = Both (f v) h"
| "wires_vless_mut f (VlessAndAnyTls v a) = VlessAndAnyTls (f v) a"
| "wires_vless_mut f (VlessAnyTlsAndHysteria2 v a h) = VlessAnyTlsAndHysteria2 (f v) a h"
| "wires_vless_mut f (AnyTls a) = AnyTls a"
| "wires_vless_mut f (Hysteria2 h) = Hysteria2 h"
| "wires_vless_mut f (AnyTlsAndHysteria2 a h) = AnyTlsAndHysteria2 a h"

fun wires_anytls :: "ingress_wires \<Rightarrow> any_tls option" where
  "wires_anytls (WithVlessEncryption other _) = (case other of None \<Rightarrow> None | Some w \<Rightarrow> wires_anytls w)"
| "wires_anytls (WithMtProto other _) = (case other of None \<Rightarrow> None | Some w \<Rightarrow> wires_anytls w)"
| "wires_anytls (AnyTls a) = Some a"
| "wires_anytls (VlessAndAnyTls _ a) = Some a"
| "wires_anytls (AnyTlsAndHysteria2 a _) = Some a"
| "wires_anytls (VlessAnyTlsAndHysteria2 _ a _) = Some a"
| "wires_anytls _ = None"

fun wires_anytls_mut :: "(any_tls \<Rightarrow> any_tls) \<Rightarrow> ingress_wires \<Rightarrow> ingress_wires" where
  "wires_anytls_mut f (WithVlessEncryption other e) = WithVlessEncryption (map_option (wires_anytls_mut f) other) e"
| "wires_anytls_mut f (WithMtProto other m) = WithMtProto (map_option (wires_anytls_mut f) other) m"
| "wires_anytls_mut f (AnyTls a) = AnyTls (f a)"
| "wires_anytls_mut f (VlessAndAnyTls v a) = VlessAndAnyTls v (f a)"
| "wires_anytls_mut f (AnyTlsAndHysteria2 a h) = AnyTlsAndHysteria2 (f a) h"
| "wires_anytls_mut f (VlessAnyTlsAndHysteria2 v a h) = VlessAnyTlsAndHysteria2 v (f a) h"
| "wires_anytls_mut f (Vless v) = Vless v"
| "wires_anytls_mut f (Hysteria2 h) = Hysteria2 h"
| "wires_anytls_mut f (Both v h) = Both v h"

fun wires_hysteria2 :: "ingress_wires \<Rightarrow> hysteria2 option" where
  "wires_hysteria2 (WithVlessEncryption other _) = (case other of None \<Rightarrow> None | Some w \<Rightarrow> wires_hysteria2 w)"
| "wires_hysteria2 (WithMtProto other _) = (case other of None \<Rightarrow> None | Some w \<Rightarrow> wires_hysteria2 w)"
| "wires_hysteria2 (Hysteria2 h) = Some h"
| "wires_hysteria2 (Both _ h) = Some h"
| "wires_hysteria2 (AnyTlsAndHysteria2 _ h) = Some h"
| "wires_hysteria2 (VlessAnyTlsAndHysteria2 _ _ h) = Some h"
| "wires_hysteria2 _ = None"

definition has_tcp :: "ingress_wires \<Rightarrow> bool" where
  "has_tcp w = (wires_vless w \<noteq> None \<or> wires_anytls w \<noteq> None \<or> wires_vless_encryption w \<noteq> None \<or> wires_mtproto w \<noteq> None)"

definition has_udp :: "ingress_wires \<Rightarrow> bool" where
  "has_udp w = (wires_hysteria2 w \<noteq> None)"

definition wires_reality :: "ingress_wires \<Rightarrow> reality_settings option" where
  "wires_reality w = Option.bind (wires_vless w) transport_reality"

definition wires_anytls_reality :: "ingress_wires \<Rightarrow> reality_settings option" where
  "wires_anytls_reality w = Option.bind (wires_anytls w) any_tls_reality"

definition wires_flow :: "ingress_wires \<Rightarrow> string option" where
  "wires_flow w = Option.bind (wires_vless w) transport_flow"

definition wires_set_flow :: "string option \<Rightarrow> ingress_wires \<Rightarrow> ingress_wires" where
  "wires_set_flow f w = wires_vless_mut (transport_set_flow f) w"

definition wires_xhttp :: "ingress_wires \<Rightarrow> xhttp option" where
  "wires_xhttp w = Option.bind (wires_vless w) transport_xhttp"

definition wires_need_node_certificate :: "ingress_wires \<Rightarrow> bool" where
  "wires_need_node_certificate w =
     (has_udp w \<or>
      (case wires_anytls w of None \<Rightarrow> False | Some a \<Rightarrow> any_tls_needs_node_certificate a) \<or>
      (case wires_vless w of None \<Rightarrow> False | Some v \<Rightarrow> transport_needs_node_certificate v))"

definition vless_kind :: "ingress_wires \<Rightarrow> string option" where
  "vless_kind w = map_option transport_kind (wires_vless w)"

section \<open>The stored form\<close>

text \<open>
  Every accessor reads the matching field of the stored form, whatever the nesting, and an update
  through a mutable accessor changes that field alone.
\<close>

lemma wire_from_fields [simp]:
  "ww_vless_encryption (wire_from w) = wires_vless_encryption w"
  "ww_vless (wire_from w) = wires_vless w"
  "ww_anytls (wire_from w) = wires_anytls w"
  "ww_hysteria2 (wire_from w) = wires_hysteria2 w"
  "ww_mtproto (wire_from w) = wires_mtproto w"
  by (induction w rule: wire_from.induct) (simp_all add: no_wire_def)

text \<open>C35: the stored form of the wires loses nothing: reading a stored form fails only when no wire is present and otherwise writes back to the same form, and every ingress, however its layers are nested, can be written, read and written again unchanged.\<close>

theorem wires_roundtrip:
  "(case wires_try_from x of None \<Rightarrow> x = no_wire | Some w \<Rightarrow> wire_from w = x) \<and>
   (\<exists>w'. wires_try_from (wire_from w) = Some w' \<and> wire_from w' = wire_from w)"
proof -
  have 1: "case wires_try_from x of None \<Rightarrow> x = no_wire | Some w \<Rightarrow> wire_from w = x" for x
    by (cases x; cases "ww_vless_encryption x"; cases "ww_vless x"; cases "ww_anytls x"; cases "ww_hysteria2 x"; cases "ww_mtproto x";
      simp add: wires_try_from_def wire_with_mtproto_def no_wire_def)
  have "wire_from w \<noteq> no_wire"
  proof
    assume e: "wire_from w = no_wire"
    show False
      using arg_cong [OF e, of ww_vless] arg_cong [OF e, of ww_anytls] arg_cong [OF e, of ww_hysteria2]
        arg_cong [OF e, of ww_mtproto] arg_cong [OF e, of ww_vless_encryption]
      by (cases w) (simp_all add: no_wire_def)
  qed
  with 1 [of "wire_from w"] have "\<exists>w'. wires_try_from (wire_from w) = Some w' \<and> wire_from w' = wire_from w"
    by (auto split: option.splits)
  with 1 show ?thesis by blast
qed

lemma transport_flow_set [simp]: "transport_flow (transport_set_flow f v) = f"
  by (cases v) simp_all

lemma transport_set_flow_keeps [simp]:
  "transport_xhttp (transport_set_flow f v) = transport_xhttp v"
  "transport_kind (transport_set_flow f v) = transport_kind v"
  by (cases v; simp)+

lemma wires_nested [simp]:
  "wires_mtproto (WithVlessEncryption other e) = Option.bind other wires_mtproto"
  "wires_vless_encryption (WithMtProto other m) = Option.bind other wires_vless_encryption"
  by (cases other; simp)+

lemma wires_vless_mut_fields:
  "wires_vless (wires_vless_mut f w) = map_option f (wires_vless w)"
  "wires_anytls (wires_vless_mut f w) = wires_anytls w"
  "wires_hysteria2 (wires_vless_mut f w) = wires_hysteria2 w"
  "wires_mtproto (wires_vless_mut f w) = wires_mtproto w"
  "wires_vless_encryption (wires_vless_mut f w) = wires_vless_encryption w"
  by (induction f w rule: wires_vless_mut.induct) (auto split: option.splits bind_splits)

lemma wires_anytls_mut_fields:
  "wires_vless (wires_anytls_mut g w) = wires_vless w"
  "wires_anytls (wires_anytls_mut g w) = map_option g (wires_anytls w)"
  "wires_hysteria2 (wires_anytls_mut g w) = wires_hysteria2 w"
  "wires_mtproto (wires_anytls_mut g w) = wires_mtproto w"
  "wires_vless_encryption (wires_anytls_mut g w) = wires_vless_encryption w"
  by (induction g w rule: wires_anytls_mut.induct) (auto split: option.splits bind_splits)

text \<open>Setting the flow through the mutable accessor changes the VLESS wire alone, whatever it is nested in: afterwards the flow reads back as set when there is a VLESS wire, and the kind, the XHTTP half, the certificate requirement and every other wire stay as they were.\<close>

theorem wires_set_flow_exact:
  "wire_from (wires_set_flow f w) = (wire_from w)\<lparr>ww_vless := map_option (transport_set_flow f) (ww_vless (wire_from w))\<rparr> \<and>
   wires_flow (wires_set_flow f w) = (if wires_vless w = None then None else f) \<and>
   wires_xhttp (wires_set_flow f w) = wires_xhttp w \<and> vless_kind (wires_set_flow f w) = vless_kind w \<and>
   wires_need_node_certificate (wires_set_flow f w) = wires_need_node_certificate w"
proof -
  have "wire_from (wires_set_flow f w) = (wire_from w)\<lparr>ww_vless := map_option (transport_set_flow f) (ww_vless (wire_from w))\<rparr>"
    by (rule ingress_wires_wire.equality) (simp_all add: wires_set_flow_def wires_vless_mut_fields)
  moreover have "transport_needs_node_certificate (transport_set_flow f v) = transport_needs_node_certificate v" for v
    by (cases v) (simp_all add: transport_needs_node_certificate_def uses_node_certificate_fallback_def)
  ultimately show ?thesis
    by (simp add: wires_flow_def wires_set_flow_def wires_xhttp_def vless_kind_def wires_need_node_certificate_def
        wires_vless_mut_fields has_udp_def split: option.splits)
qed

section \<open>The padding rule\<close>

definition block_spec :: "string \<Rightarrow> nat \<times> nat \<times> nat \<Rightarrow> bool" where
  "block_spec block = (\<lambda>(p, mn, mx).
     padding_numbers (split_char (CHR ''-'') block) = Inr [p, mn, mx] \<and> length block < 20 \<and>
     p \<le> 100 \<and> mn \<le> mx \<and> mx \<le> 2147483647)"

fun padding_sum :: "nat \<Rightarrow> (nat \<times> nat \<times> nat) list \<Rightarrow> nat" where
  "padding_sum index [] = 0"
| "padding_sum index (s # ss) = (if index mod 2 = 0 then snd (snd s) else 0) + padding_sum (Suc index) ss"

lemma padding_block_Inr:
  assumes "acc \<le> 65553"
  shows "padding_block index block acc = Inr acc' \<longleftrightarrow>
    (\<exists>p mn mx. block_spec block (p, mn, mx) \<and> (index = 0 \<longrightarrow> p = 100 \<and> 35 \<le> mn) \<and>
      acc' = acc + (if index mod 2 = 0 then mx else 0) \<and> acc' \<le> 65553)"
proof (cases "padding_numbers (split_char (CHR ''-'') block)")
  case (Inr vs)
  show ?thesis
  proof (cases "length vs = 3")
    case True
    then obtain p mn mx where v: "vs = [p, mn, mx]"
      by (auto simp: length_Suc_conv eval_nat_numeral)
    show ?thesis
      using assms by (simp add: padding_block_def block_spec_def Inr v Let_def) (auto split: if_splits)
  next
    case False
    then show ?thesis by (auto simp: padding_block_def block_spec_def Inr)
  qed
qed (simp add: padding_block_def block_spec_def)

lemma padding_block_no_overflow: "acc \<le> 65553 \<Longrightarrow> padding_block index block acc \<noteq> Inl PaddingTotalOverflow"
proof -
  have "padding_numbers ps \<noteq> Inl PaddingTotalOverflow" for ps
    by (induction ps) (auto simp: padding_number_def split: sum.splits option.splits if_splits)
  then show "acc \<le> 65553 \<Longrightarrow> padding_block index block acc \<noteq> Inl PaddingTotalOverflow"
    by (auto simp: padding_block_def Let_def split: sum.splits if_splits)
qed

lemma padding_blocks_Inr:
  assumes "acc \<le> 65553"
  shows "(\<exists>acc'. padding_blocks index blocks acc = Inr acc') \<longleftrightarrow>
    (\<exists>specs. list_all2 block_spec blocks specs \<and> acc + padding_sum index specs \<le> 65553 \<and>
      (index = 0 \<longrightarrow> blocks \<noteq> [] \<longrightarrow> fst (specs ! 0) = 100 \<and> 35 \<le> fst (snd (specs ! 0))))"
  using assms
proof (induction blocks arbitrary: index acc)
  case (Cons b bs)
  show ?case
  proof
    assume "\<exists>acc'. padding_blocks index (b # bs) acc = Inr acc'"
    then obtain acc1 where b: "padding_block index b acc = Inr acc1" and bs: "\<exists>acc'. padding_blocks (Suc index) bs acc1 = Inr acc'"
      by (auto split: sum.splits)
    from b obtain p mn mx where s: "block_spec b (p, mn, mx)" "index = 0 \<longrightarrow> p = 100 \<and> 35 \<le> mn"
        "acc1 = acc + (if index mod 2 = 0 then mx else 0)" "acc1 \<le> 65553"
      unfolding padding_block_Inr [OF Cons.prems] by blast
    from bs obtain specs where "list_all2 block_spec bs specs" "acc1 + padding_sum (Suc index) specs \<le> 65553"
      unfolding Cons.IH [OF s(4)] by blast
    with s show "\<exists>specs. list_all2 block_spec (b # bs) specs \<and> acc + padding_sum index specs \<le> 65553 \<and>
        (index = 0 \<longrightarrow> b # bs \<noteq> [] \<longrightarrow> fst (specs ! 0) = 100 \<and> 35 \<le> fst (snd (specs ! 0)))"
      by (intro exI [where x = "(p, mn, mx) # specs"]) auto
  next
    assume "\<exists>specs. list_all2 block_spec (b # bs) specs \<and> acc + padding_sum index specs \<le> 65553 \<and>
        (index = 0 \<longrightarrow> b # bs \<noteq> [] \<longrightarrow> fst (specs ! 0) = 100 \<and> 35 \<le> fst (snd (specs ! 0)))"
    then obtain p mn mx specs where s: "block_spec b (p, mn, mx)" "list_all2 block_spec bs specs"
        "acc + padding_sum index ((p, mn, mx) # specs) \<le> 65553" "index = 0 \<longrightarrow> p = 100 \<and> 35 \<le> mn"
      by (auto simp: list_all2_Cons1)
    define acc1 where "acc1 = acc + (if index mod 2 = 0 then mx else 0)"
    have le: "acc1 + padding_sum (Suc index) specs \<le> 65553" using s(3) unfolding acc1_def by (simp split: if_splits)
    then have le1: "acc1 \<le> 65553" by simp
    have "padding_block index b acc = Inr acc1"
      unfolding padding_block_Inr [OF Cons.prems] using s(1,4) le1 unfolding acc1_def by blast
    moreover have "\<exists>acc'. padding_blocks (Suc index) bs acc1 = Inr acc'"
      unfolding Cons.IH [OF le1] using s(2) le by auto
    ultimately show "\<exists>acc'. padding_blocks index (b # bs) acc = Inr acc'" by simp
  qed
qed simp

lemma padding_blocks_no_overflow: "acc \<le> 65553 \<Longrightarrow> padding_blocks index blocks acc \<noteq> Inl PaddingTotalOverflow"
proof (induction blocks arbitrary: index acc)
  case (Cons b bs)
  show ?case
  proof (cases "padding_block index b acc")
    case (Inl e)
    then show ?thesis using padding_block_no_overflow [OF Cons.prems, of index b] by auto
  next
    case (Inr acc1)
    then have "acc1 \<le> 65553" unfolding padding_block_Inr [OF Cons.prems] by blast
    from Cons.IH [OF this] Inr show ?thesis by simp
  qed
qed simp

text \<open>C36: a padding rule is accepted exactly when it is empty or is at most 4096 bytes of an odd number of dot-separated blocks, each three decimal numbers (probability at most 100, an ascending range up to 2147483647) in fewer than 20 bytes, the first with probability 100 and at least 35 bytes, whose padding blocks sum to at most 65553 bytes.\<close>

theorem validate_padding_iff:
  "validate_padding rule_text = Inr () \<longleftrightarrow> rule_text = [] \<or>
     length rule_text \<le> 4096 \<and> odd (length (split_char (CHR ''.'') rule_text)) \<and>
     (\<exists>specs. list_all2 block_spec (split_char (CHR ''.'') rule_text) specs \<and> padding_sum 0 specs \<le> 65553 \<and>
        fst (specs ! 0) = 100 \<and> 35 \<le> fst (snd (specs ! 0)))"
proof -
  have ne: "split_char (CHR ''.'') rule_text \<noteq> []" using split_char_Cons [of "CHR ''.''" rule_text] by auto
  show ?thesis
    using padding_blocks_Inr [of 0 0 "split_char (CHR ''.'') rule_text"] ne
    by (auto simp: validate_padding_def Let_def split: sum.splits)
qed

text \<open>The checked addition of the padding total never fails: the loop stops at 65553 long before the 32-bit sum could overflow.\<close>

theorem padding_total_never_overflows: "validate_padding rule_text \<noteq> Inl PaddingTotalOverflow"
  using padding_blocks_no_overflow [of 0 0] by (auto simp: validate_padding_def Let_def split: sum.splits)

end
