(* ===== verification/Model.thy ===== *)
theory Model
  imports Json Core_Text Wires
begin

text \<open>
  The operator's model, brocade-core/src/model.rs: every struct is a record, every enum a
  datatype, with a prefix on field and constructor names where two Rust types share one. Machine
  integers keep their width. \<open>IpAddr\<close> is the number it stands for, \<open>Ipv4Net\<close> an
  address with a prefix length, \<open>serde_json::Value\<close> the \<open>json\<close> type, a
  \<open>BTreeMap\<close> an ascending association list. Reading and writing these types as JSON is
  derived code of serde and is not modelled; \<open>IngressWires\<close>, which converts through
  \<open>IngressWiresWire\<close> by hand, is (theory Wires).
\<close>

type_synonym u128 = "128 word"

datatype ip_addr = IpV4 u32 | IpV6 u128

record ipv4_net =
  net_addr :: u32
  net_prefix_len :: u8

section \<open>Settings\<close>

record connection_settings =
  cs_conn_idle_secs :: u32
  cs_uplink_only_secs :: u32
  cs_downlink_only_secs :: u32
  cs_buffer_size_kb :: "u32 option"
  cs_handshake_secs :: u32

definition connection_settings_default :: connection_settings where
  "connection_settings_default = \<lparr>cs_conn_idle_secs = 300, cs_uplink_only_secs = 2,
     cs_downlink_only_secs = 5, cs_buffer_size_kb = None, cs_handshake_secs = 60\<rparr>"

record node_connection =
  nc_conn_idle_secs :: "u32 option"
  nc_uplink_only_secs :: "u32 option"
  nc_downlink_only_secs :: "u32 option"
  nc_buffer_size_kb :: "u32 option"

record geodata_settings =
  geo_cron :: string
  geo_geoip_url :: string
  geo_geosite_url :: string

definition geodata_settings_default :: geodata_settings where
  "geodata_settings_default = \<lparr>geo_cron = ''CRON_TZ=Asia/Shanghai 30 6 * * *'',
     geo_geoip_url = ''https://raw.githubusercontent.com/Loyalsoldier/v2ray-rules-dat/release/geoip.dat'',
     geo_geosite_url = ''https://raw.githubusercontent.com/Loyalsoldier/v2ray-rules-dat/release/geosite.dat''\<rparr>"

record probe_settings =
  ps_endpoint_url :: string
  ps_timeout_secs :: u16
  ps_interval_secs :: u32

definition probe_settings_default :: probe_settings where
  "probe_settings_default = \<lparr>ps_endpoint_url = ''http://cp.cloudflare.com/cdn-cgi/trace'',
     ps_timeout_secs = 10, ps_interval_secs = 60\<rparr>"

record port_settings =
  po_ingress_base :: u16
  po_anytls_base :: u16
  po_mtproto_base :: u16
  po_vless_encryption_base :: u16
  po_hop_base :: u16
  po_hy2_base :: u16


definition port_settings_default :: port_settings where
  "port_settings_default = \<lparr>po_ingress_base = VLESS_PORT_BASE, po_anytls_base = ANYTLS_PORT_BASE,
     po_mtproto_base = MTPROTO_PORT_BASE, po_vless_encryption_base = VLESS_ENCRYPTION_PORT_BASE,
     po_hop_base = 20000, po_hy2_base = HYSTERIA2_PORT_BASE\<rparr>"

record disabled_wire_guard_link =
  dl_a :: string
  dl_b :: string

record overlay_settings =
  ov_keepalive_secs :: u16
  ov_mtu :: u16
  ov_disabled_links :: "disabled_wire_guard_link list"

definition overlay_settings_default :: overlay_settings where
  "overlay_settings_default = \<lparr>ov_keepalive_secs = 10, ov_mtu = 1280, ov_disabled_links = []\<rparr>"

definition DEFAULT_TLS_FINGERPRINT :: string where "DEFAULT_TLS_FINGERPRINT = ''safari''"
definition DEFAULT_REALITY_FLOW :: string where "DEFAULT_REALITY_FLOW = ''xtls-rprx-vision''"

record reality_site =
  rs_dest :: "string option"
  rs_server_names :: "string list"
  rs_fingerprint :: "string option"
  rs_flow :: "string option"

definition reality_site_default :: reality_site where
  "reality_site_default = \<lparr>rs_dest = Some ''addons.mozilla.org:443'',
     rs_server_names = [''addons.mozilla.org''], rs_fingerprint = Some DEFAULT_TLS_FINGERPRINT,
     rs_flow = Some DEFAULT_REALITY_FLOW\<rparr>"

record reality_client_policy =
  rc_min_client_ver :: "string option"
  rc_max_client_ver :: "string option"
  rc_max_time_diff_ms :: "u64 option"

record hop_mux =
  mux_concurrency :: u16
  mux_prewarm_workers :: u32
  mux_reuse_threshold :: u32
  mux_max_probing_workers :: u32
  mux_probe_interval_ms :: u32
  mux_probe_timeout_ms :: u32
  mux_idle_ttl_ms :: u32
  mux_max_requests_per_worker :: u16

definition hop_mux_default :: hop_mux where
  "hop_mux_default = \<lparr>mux_concurrency = 1, mux_prewarm_workers = 0, mux_reuse_threshold = 2,
     mux_max_probing_workers = 1, mux_probe_interval_ms = 5000, mux_probe_timeout_ms = 2000,
     mux_idle_ttl_ms = 24000, mux_max_requests_per_worker = 128\<rparr>"

datatype hop_pool = NoPool | Mux "hop_mux option"

record reverse_health_tuning =
  tun_probe_jitter_percent :: u32
  tun_recovery_successes :: u32
  tun_spare_workers :: u32
  tun_max_healthy_workers :: u32
  tun_max_sessions_per_worker :: u32
  tun_reconnect_backoff_base_ms :: u32
  tun_reconnect_stable_reset_ms :: u32
  tun_canary_interval_ms :: u32
  tun_canary_timeout_ms :: u32
  tun_canary_successes :: u32
  tun_canary_stable_window_ms :: u32

definition reverse_health_tuning_default :: reverse_health_tuning where
  "reverse_health_tuning_default = \<lparr>tun_probe_jitter_percent = 10, tun_recovery_successes = 2,
     tun_spare_workers = 1, tun_max_healthy_workers = 32, tun_max_sessions_per_worker = 16,
     tun_reconnect_backoff_base_ms = 250, tun_reconnect_stable_reset_ms = 10000,
     tun_canary_interval_ms = 1000, tun_canary_timeout_ms = 750, tun_canary_successes = 20,
     tun_canary_stable_window_ms = 10000\<rparr>"

record reverse_health =
  rh_disconnect_on_health_failure :: bool
  rh_probe_interval_ms :: u32
  rh_probe_timeout_ms :: u32
  rh_confirm_timeout_ms :: u32
  rh_health_lease_ms :: u32
  rh_min_healthy_workers :: u32
  rh_max_idle_ready_workers :: u32
  rh_max_parallel_dials_per_pair :: u32
  rh_dial_ready_timeout_ms :: u32
  rh_reconnect_backoff_cap_ms :: u32
  rh_tuning :: reverse_health_tuning

definition reverse_health_default :: reverse_health where
  "reverse_health_default = \<lparr>rh_disconnect_on_health_failure = False, rh_probe_interval_ms = 1000,
     rh_probe_timeout_ms = 750, rh_confirm_timeout_ms = 750, rh_health_lease_ms = 3000,
     rh_min_healthy_workers = 2, rh_max_idle_ready_workers = 2, rh_max_parallel_dials_per_pair = 2,
     rh_dial_ready_timeout_ms = 2000, rh_reconnect_backoff_cap_ms = 2000,
     rh_tuning = reverse_health_tuning_default\<rparr>"

record reverse_health_override =
  ro_chain :: string
  ro_from :: string
  ro_to :: string
  ro_health :: reverse_health

record model_settings =
  ms_reality_client :: reality_client_policy
  ms_reality_site :: reality_site
  ms_anytls_padding_scheme :: "string list"
  ms_overlay :: overlay_settings
  ms_ports :: port_settings
  ms_probe :: probe_settings
  ms_geodata :: geodata_settings
  ms_connection :: connection_settings
  ms_relay_mux :: hop_mux
  ms_reverse_health :: reverse_health
  ms_reverse_health_overrides :: "reverse_health_override list"
  ms_stats_user_online :: bool

definition default_anytls_padding_scheme :: "string list" where
  "default_anytls_padding_scheme =
     [''stop=4'', ''0=20-30'', ''1=64-100'', ''2=90-130,c,180-250'', ''3=220-480'']"

definition default_stats_user_online :: bool where "default_stats_user_online = True"

definition model_settings_default :: model_settings where
  "model_settings_default = \<lparr>ms_reality_client = \<lparr>rc_min_client_ver = None, rc_max_client_ver = None, rc_max_time_diff_ms = None\<rparr>,
     ms_reality_site = reality_site_default, ms_anytls_padding_scheme = default_anytls_padding_scheme,
     ms_overlay = overlay_settings_default, ms_ports = port_settings_default,
     ms_probe = probe_settings_default, ms_geodata = geodata_settings_default,
     ms_connection = connection_settings_default, ms_relay_mux = hop_mux_default,
     ms_reverse_health = reverse_health_default, ms_reverse_health_overrides = [],
     ms_stats_user_online = default_stats_user_online\<rparr>"

section \<open>Machines\<close>

datatype certificate_track = PublicCa | SelfSigned

record reality =
  re_private_key :: string
  re_public_key :: string
  re_short_ids :: "string list"
  re_dest :: string
  re_server_names :: "string list"
  re_fingerprint :: string
  re_flow :: "string option"

record hop_encryption =
  he_private_key :: string
  he_public_key :: string

datatype hop_wire =
    HopPlain
  | HopEncrypted hop_encryption
  | HopReality reality
  | HopShadowsocks2022 string string

datatype wg_transport = WgUdp | FakeTcp u16

definition DEFAULT_FAKE_TCP_PORT :: u16 where "DEFAULT_FAKE_TCP_PORT = 39743"

record wire_guard_keys =
  wg_private_key :: string
  wg_public_key :: string
  wg_listen_port :: u16
  wg_transport :: wg_transport

datatype dns = DnsSystem | DnsServers "string list"

definition is_local_dns :: "string \<Rightarrow> bool" where
  "is_local_dns server =
     (let value = trim server
      in value = ''localhost'' \<or> value = ''fakedns'' \<or> contains_str value ''+local://'')"

fun dns_needs_route :: "dns \<Rightarrow> bool" where
  "dns_needs_route DnsSystem = False"
| "dns_needs_route (DnsServers servers) = list_ex (\<lambda>s. \<not> is_local_dns s) servers"

datatype domain_strategy = UseIp | UseIpv4 | UseIpv6 | UseIpv4v6 | UseIpv6v4 | AsIs

datatype egress_dns_transport = DnsUdp | DnsTcp
datatype egress_dns_address_strategy = DnsUseIp | DnsUseIpv4 | DnsUseIpv6 | DnsUseIpv4v6 | DnsUseIpv6v4
datatype egress_dns_fallback = DnsStop | DnsMachine

record egress_dns_resolution =
  er_address :: "string list"
  er_port :: u16
  er_transport :: egress_dns_transport
  er_address_strategy :: egress_dns_address_strategy
  er_fallback :: egress_dns_fallback

definition default_dns_port :: u16 where "default_dns_port = 53"
definition EGRESS_DNS_MAX_MEMBERS :: nat where "EGRESS_DNS_MAX_MEMBERS = 16"

text \<open>\<open>parse_ip\<close> is \<open>str::parse::<IpAddr>\<close> of the standard library.\<close>

definition egress_dns_addresses_valid :: "(string \<Rightarrow> ip_addr option) \<Rightarrow> string list \<Rightarrow> bool" where
  "egress_dns_addresses_valid parse_ip addresses =
     (addresses \<noteq> [] \<and> length addresses \<le> EGRESS_DNS_MAX_MEMBERS \<and>
      list_all (\<lambda>a. parse_ip (trim a) \<noteq> None) addresses)"

record node =
  node_id :: string
  node_tenant :: string
  node_name :: string
  node_public_ipv4 :: "string option"
  node_public_ipv6 :: "string option"
  node_public_ipv4_nat :: bool
  node_public_ipv6_nat :: bool
  node_overlay_addr :: u32
  node_certificate_name :: "string option"
  node_certificate_names :: "string list"
  node_certificate_group_id :: "string option"
  node_certificate_track :: "certificate_track option"
  node_wireguard :: wire_guard_keys
  node_api_port :: "u16 option"
  node_overlay :: bool
  node_egress_allowed :: bool
  node_dns :: dns
  node_domain_strategy :: domain_strategy
  node_retired :: bool
  node_mtu :: "u16 option"
  node_connection :: node_connection

record user =
  user_id :: string
  user_tenant :: string
  user_uuid :: string

end
