(* ===== verification/App_Model.thy ===== *)
theory App_Model
  imports Model
begin

text \<open>
  The project half of model.rs: external outbounds, ingresses with their guard and projection,
  chains, steps, rules with their matches and actions, grants, the snapshot, and the validation
  of the reverse-health settings with 32-bit arithmetic as the release build computes it.
\<close>

section \<open>External outbounds\<close>

datatype warp_http_version = H3 | H2

fun warp_alpn :: "warp_http_version \<Rightarrow> string" where
  "warp_alpn H3 = ''h3''"
| "warp_alpn H2 = ''h2''"

record warp_masque_options =
  wo_http_version :: warp_http_version
  wo_remote_dns :: "ip_addr list"

definition ipv4_new :: "nat \<Rightarrow> nat \<Rightarrow> nat \<Rightarrow> nat \<Rightarrow> u32" where
  "ipv4_new a b c d = of_nat (((a * 256 + b) * 256 + c) * 256 + d)"

definition warp_remote_dns :: "ip_addr list" where
  "warp_remote_dns = [IpV4 (ipv4_new 1 1 1 1), IpV4 (ipv4_new 1 0 0 1)]"

definition warp_masque_options_default :: warp_masque_options where
  "warp_masque_options_default = \<lparr>wo_http_version = H3, wo_remote_dns = warp_remote_dns\<rparr>"

definition VPNGATE_RUNTIME_MAX_POOLS_PER_NODE :: nat where "VPNGATE_RUNTIME_MAX_POOLS_PER_NODE = 16"

text \<open>Checked 16-bit arithmetic on the slot number; a \<open>None\<close> step ends the function.\<close>

definition checked16 :: "nat \<Rightarrow> nat option" where
  "checked16 n = (if n < 2 ^ 16 then Some n else None)"

definition checked8 :: "nat \<Rightarrow> nat option" where
  "checked8 n = (if n < 2 ^ 8 then Some n else None)"

definition vpngate_runtime_peer :: "nat \<Rightarrow> u32 option" where
  "vpngate_runtime_peer slot =
     (if VPNGATE_RUNTIME_MAX_POOLS_PER_NODE \<le> slot then None
      else do { s \<leftarrow> checked16 slot;
                m \<leftarrow> checked16 (s * 4);
                offset \<leftarrow> checked16 (m + 2);
                third \<leftarrow> checked16 (240 + offset div 256);
                t \<leftarrow> checked8 third;
                l \<leftarrow> checked8 (offset mod 256);
                Some (ipv4_new 169 254 t l) })"

datatype external_outbound_security =
    ExtPlain
  | ExtTls string string bool "string list"
      "string option" "string option"
      "string option"
  | ExtReality string string string string
      "string option" "string option"

definition default_tls_fingerprint :: string where "default_tls_fingerprint = DEFAULT_TLS_FINGERPRINT"

record external_vless_kcp =
  kcp_mtu :: "u32 option"
  kcp_tti :: "u32 option"

record external_vless_websocket =
  vw_path :: string
  vw_host :: "string option"

record external_vless_http =
  vh_path :: string
  vh_host :: "string option"

record external_vless_http_upgrade =
  vu_path :: string
  vu_host :: "string option"

datatype external_vless_grpc_mode = Gun | Multi | Guna

record external_vless_grpc =
  vg_service_name :: string
  vg_mode :: external_vless_grpc_mode
  vg_authority :: "string option"

record external_vless_xhttp_download =
  vd_address :: string
  vd_port :: u16
  vd_security :: external_outbound_security
  vd_path :: string
  vd_host :: "string option"
  vd_mux :: "u16 option"
  vd_mode :: xhttp_mode

record external_vless_xhttp =
  vx_path :: string
  vx_host :: "string option"
  vx_mux :: "u16 option"
  vx_mode :: xhttp_mode
  vx_download :: "external_vless_xhttp_download option"
  vx_extra :: "json option"

datatype external_vless_transport =
    ExtRaw
  | ExtKcp external_vless_kcp
  | ExtWebsocket external_vless_websocket
  | ExtHttp external_vless_http
  | ExtGrpc external_vless_grpc
  | ExtHttpUpgrade external_vless_http_upgrade
  | ExtXhttp external_vless_xhttp

datatype external_outbound_protocol =
    ExtAnytls (cred: string)
  | ExtVless (cred: string) string "string option"
      external_vless_transport "json option"
  | ExtShadowsocks2022 (cred: string) string
  | ExtSocks5 "string option" (cred: string)
  | ExtHttpConnect "string option" (cred: string)
  | ExtWireguard (cred: string) string "string list" u16
      "u8 list" u16 "string list" bool
      string
  | ExtWarp warp_http_version "ip_addr list"
  | ExtVpngate string "string option" "string list"
      u32 u64 u8

fun credential :: "external_outbound_protocol \<Rightarrow> string" where
  "credential (ExtWarp _ _) = []"
| "credential (ExtVpngate _ _ _ _ _ _) = []"
| "credential p = cred p"

fun set_credential :: "string \<Rightarrow> external_outbound_protocol \<Rightarrow> external_outbound_protocol" where
  "set_credential c (ExtAnytls _) = ExtAnytls c"
| "set_credential c (ExtVless _ e f t m) = ExtVless c e f t m"
| "set_credential c (ExtShadowsocks2022 _ m) = ExtShadowsocks2022 c m"
| "set_credential c (ExtSocks5 u _) = ExtSocks5 u c"
| "set_credential c (ExtHttpConnect u _) = ExtHttpConnect u c"
| "set_credential c (ExtWireguard _ p l m r k a n d) = ExtWireguard c p l m r k a n d"
| "set_credential c (ExtWarp v d) = ExtWarp v d"
| "set_credential c (ExtVpngate a b d e f g) = ExtVpngate a b d e f g"

fun allows_empty_credential :: "external_outbound_protocol \<Rightarrow> bool" where
  "allows_empty_credential (ExtSocks5 _ _) = True"
| "allows_empty_credential (ExtHttpConnect _ _) = True"
| "allows_empty_credential (ExtWarp _ _) = True"
| "allows_empty_credential (ExtVpngate _ _ _ _ _ _) = True"
| "allows_empty_credential _ = False"

record external_warp_binding =
  wb_node :: string
  wb_device_id :: string
  wb_account_id :: string
  wb_registered_at :: string
  wb_endpoint_address :: "string option"
  wb_endpoint_port :: "u16 option"
  wb_private_key :: string
  wb_peer_public_key :: string
  wb_local_addresses :: "string list"

record external_outbound =
  eo_id :: string
  eo_tenant :: string
  eo_name :: string
  eo_address :: string
  eo_port :: u16
  eo_protocol :: external_outbound_protocol
  eo_security :: external_outbound_security
  eo_target_strategy :: "domain_strategy option"
  eo_bindings :: "external_warp_binding list"

section \<open>Ingresses\<close>

datatype cn_source_block = CnOff | CnIpv4 | CnIpv4AndIpv6

fun cn_source_block_as_str :: "cn_source_block \<Rightarrow> string" where
  "cn_source_block_as_str CnOff = ''off''"
| "cn_source_block_as_str CnIpv4 = ''ipv4''"
| "cn_source_block_as_str CnIpv4AndIpv6 = ''ipv4-and-ipv6''"

record ingress_guard =
  ig_no_private :: bool
  ig_no_bittorrent :: bool
  ig_no_mail :: bool
  ig_no_udp_amplification :: bool
  ig_tcp_and_quic_only :: bool
  ig_cn_source_block :: cn_source_block

definition INGRESS_GUARD_MAIL_PORTS :: "u16 list" where "INGRESS_GUARD_MAIL_PORTS = [25, 465, 587]"
definition INGRESS_GUARD_AMPLIFICATION_PORTS :: "u16 list" where
  "INGRESS_GUARD_AMPLIFICATION_PORTS = [19, 123, 161, 389, 1900, 11211]"

definition ingress_guard_default :: ingress_guard where
  "ingress_guard_default = \<lparr>ig_no_private = True, ig_no_bittorrent = True, ig_no_mail = True,
     ig_no_udp_amplification = True, ig_tcp_and_quic_only = False, ig_cn_source_block = CnOff\<rparr>"

definition ingress_guard_open :: ingress_guard where
  "ingress_guard_open = \<lparr>ig_no_private = False, ig_no_bittorrent = False, ig_no_mail = False,
     ig_no_udp_amplification = False, ig_tcp_and_quic_only = False, ig_cn_source_block = CnOff\<rparr>"

definition blocks_nothing :: "ingress_guard \<Rightarrow> bool" where
  "blocks_nothing g = (g = ingress_guard_open)"

record ingress_identity =
  ii_private_key :: string
  ii_public_key :: string
  ii_short_ids :: "string list"

record projection_endpoint =
  pe_host :: string
  pe_port :: u16

record protocol_projection =
  pp_v4 :: "projection_endpoint option"
  pp_v6 :: "projection_endpoint option"

record projection =
  pr_v4 :: "projection_endpoint option"
  pr_v6 :: "projection_endpoint option"
  pr_vless_encryption :: "protocol_projection option"
  pr_anytls :: "protocol_projection option"
  pr_hysteria2 :: "protocol_projection option"
  pr_mtproto :: "protocol_projection option"

record ingress =
  ing_id :: string
  ing_chain :: string
  ing_node :: string
  ing_bind :: ip_addr
  ing_port :: u16
  ing_front :: "string option"
  ing_identity :: ingress_identity
  ing_anytls_identity :: "ingress_identity option"
  ing_wires :: ingress_wires
  ing_projection :: projection
  ing_guard :: ingress_guard

section \<open>Chains, steps and rules\<close>

record chain =
  chain_id :: string
  chain_tenant :: string
  chain_name :: string
  chain_subscription_country :: "string option"

datatype front_strategy = UrlTest | Select | Fallback

fun front_strategy_as_str :: "front_strategy \<Rightarrow> string" where
  "front_strategy_as_str UrlTest = ''url-test''"
| "front_strategy_as_str Select = ''select''"
| "front_strategy_as_str Fallback = ''fallback''"

record front =
  front_id :: string
  front_tenant :: string
  front_name :: string
  front_via :: "string list"
  front_external_via :: "string list"
  front_strategy :: front_strategy

datatype network = Tcp | Udp

datatype dest_match =
    MatchAny
  | SniffingFailed
  | DomainSuffix "string list"
  | DomainKeyword "string list"
  | DomainRegex string
  | Geosite "string list"
  | IpCidr "string list"
  | Geoip "string list"
  | Port "string list"
  | PortExcept "u16 list"
  | Network network
  | Protocol "string list"
  | MatchAll "dest_match list"

fun depends_on_sniffing :: "dest_match \<Rightarrow> bool" where
  "depends_on_sniffing (DomainSuffix _) = True"
| "depends_on_sniffing (DomainKeyword _) = True"
| "depends_on_sniffing (DomainRegex _) = True"
| "depends_on_sniffing (Geosite _) = True"
| "depends_on_sniffing (Protocol _) = True"
| "depends_on_sniffing (MatchAll ms) = list_ex depends_on_sniffing ms"
| "depends_on_sniffing _ = False"

fun requests_sniffing_failure_state :: "dest_match \<Rightarrow> bool" where
  "requests_sniffing_failure_state SniffingFailed = True"
| "requests_sniffing_failure_state (MatchAll ms) = list_ex requests_sniffing_failure_state ms"
| "requests_sniffing_failure_state _ = False"

fun canonical_egress_dns_selector :: "dest_match \<Rightarrow> dest_match option" where
  "canonical_egress_dns_selector (DomainSuffix items) = Some (DomainSuffix (bset items))"
| "canonical_egress_dns_selector (DomainKeyword items) = Some (DomainKeyword (bset items))"
| "canonical_egress_dns_selector (DomainRegex r) = Some (DomainRegex r)"
| "canonical_egress_dns_selector (Geosite items) = Some (Geosite (bset items))"
| "canonical_egress_dns_selector _ = None"

datatype hop_dial = DialOverlay | DialAddr string | DialReverse ip_family
datatype listener_dial = ListenOverlay | ListenPublic ip_family | ListenAddr string

record listener_ref =
  lr_chain :: string
  lr_node :: string

datatype action =
    Forward string hop_dial hop_pool
  | ReuseListener listener_ref listener_dial hop_pool
  | Egress "ip_addr option"
  | Proxy string
  | Block

datatype relay_dial_ref = ForwardDial hop_dial | ListenerDial listener_dial

fun is_reverse :: "relay_dial_ref \<Rightarrow> bool" where
  "is_reverse (ForwardDial (DialReverse _)) = True"
| "is_reverse _ = False"

record forward_action_ref =
  fa_target_chain :: string
  fa_target_node :: string
  fa_dial :: relay_dial_ref
  fa_pool :: hop_pool
  fa_reused :: bool

fun forward_ref :: "action \<Rightarrow> string \<Rightarrow> forward_action_ref option" where
  "forward_ref (Forward to dial pool) source_chain =
     Some \<lparr>fa_target_chain = source_chain, fa_target_node = to, fa_dial = ForwardDial dial,
       fa_pool = pool, fa_reused = False\<rparr>"
| "forward_ref (ReuseListener listener dial pool) source_chain =
     Some \<lparr>fa_target_chain = lr_chain listener, fa_target_node = lr_node listener,
       fa_dial = ListenerDial dial, fa_pool = pool, fa_reused = True\<rparr>"
| "forward_ref _ source_chain = None"

record rule =
  rule_match :: dest_match
  rule_action :: action

record accept =
  acc_uuid :: string
  acc_label :: string

record hop_in =
  hi_port :: u16
  hi_security :: hop_wire

record step =
  step_chain :: string
  step_node :: string
  step_accept :: "accept option"
  step_hop_in :: "hop_in option"
  step_rules :: "rule list"

record grant =
  gr_tenant :: string
  gr_user :: string
  gr_ingress :: string

record app_view =
  app_id :: string
  app_label :: string
  app_chains :: "chain list"
  app_ingresses :: "ingress list"
  app_fronts :: "front list"
  app_steps :: "step list"
  app_grants :: "grant list"

record node_egress_dns_policy =
  ed_node :: string
  ed_position :: u32
  ed_selector :: dest_match
  ed_resolution :: egress_dns_resolution

record model_snapshot =
  sn_revision :: u64
  sn_overlay_cidr :: ipv4_net
  sn_settings :: model_settings
  sn_nodes :: "node list"
  sn_node_egress_dns :: "node_egress_dns_policy list"
  sn_users :: "user list"
  sn_external_outbounds :: "external_outbound list"
  sn_apps :: "app_view list"

section \<open>Reverse health\<close>

definition saturating_mul32 :: "u32 \<Rightarrow> u32 \<Rightarrow> u32" where
  "saturating_mul32 a b = (if unat a * unat b < 2 ^ 32 then a * b else - 1)"

definition tuning_validate :: "reverse_health_tuning \<Rightarrow> string + unit" where
  "tuning_validate t =
     (if 100 < tun_probe_jitter_percent t \<or> tun_recovery_successes t = 0 \<or> tun_max_healthy_workers t = 0 \<or>
         65535 < tun_max_sessions_per_worker t \<or> tun_reconnect_backoff_base_ms t = 0
      then Inl ''reverse tuning out of range'' else Inr ())"

text \<open>The least lease \<open>validate\<close> accepts, in the wrapping arithmetic of the release build.\<close>

definition least_lease :: "reverse_health \<Rightarrow> u32" where
  "least_lease h =
     saturating_mul32 (rh_probe_interval_ms h) (100 + tun_probe_jitter_percent (rh_tuning h)) div 100
       + rh_probe_timeout_ms h"

definition reverse_health_validate :: "reverse_health \<Rightarrow> string + unit" where
  "reverse_health_validate h =
     (case tuning_validate (rh_tuning h) of
        Inl e \<Rightarrow> Inl e
      | Inr _ \<Rightarrow>
          if rh_reconnect_backoff_cap_ms h < tun_reconnect_backoff_base_ms (rh_tuning h) \<or>
             tun_max_healthy_workers (rh_tuning h) < rh_max_idle_ready_workers h \<or>
             rh_max_idle_ready_workers h < tun_spare_workers (rh_tuning h) \<or>
             rh_probe_interval_ms h = 0 \<or> rh_probe_timeout_ms h = 0 \<or>
             rh_probe_interval_ms h \<le> rh_probe_timeout_ms h \<or> rh_confirm_timeout_ms h = 0 \<or>
             rh_health_lease_ms h < least_lease h \<or>
             rh_min_healthy_workers h = 0 \<or> rh_max_idle_ready_workers h < rh_min_healthy_workers h \<or>
             rh_max_parallel_dials_per_pair h = 0 \<or> rh_dial_ready_timeout_ms h = 0 \<or>
             rh_reconnect_backoff_cap_ms h = 0
          then Inl ''reverse health out of range'' else Inr ())"

definition reverse_health_for :: "model_settings \<Rightarrow> string \<Rightarrow> string \<Rightarrow> string \<Rightarrow> reverse_health" where
  "reverse_health_for s chain from to =
     (case find (\<lambda>r. ro_chain r = chain \<and> ro_from r = from \<and> ro_to r = to) (ms_reverse_health_overrides s) of
        Some r \<Rightarrow> ro_health r
      | None \<Rightarrow> ms_reverse_health s)"

fun validate_overrides :: "reverse_health_override list \<Rightarrow> (string \<times> string \<times> string) set \<Rightarrow> string + unit" where
  "validate_overrides [] keys = Inr ()"
| "validate_overrides (r # rs) keys =
     (case reverse_health_validate (ro_health r) of
        Inl e \<Rightarrow> Inl e
      | Inr _ \<Rightarrow>
          if ro_chain r = [] \<or> ro_from r = [] \<or> ro_to r = [] \<or> ro_from r = ro_to r \<or>
             (ro_chain r, ro_from r, ro_to r) \<in> keys
          then Inl ''reverse health override''
          else validate_overrides rs (insert (ro_chain r, ro_from r, ro_to r) keys))"

definition validate_reverse_health :: "model_settings \<Rightarrow> string + unit" where
  "validate_reverse_health s =
     (case reverse_health_validate (ms_reverse_health s) of
        Inl e \<Rightarrow> Inl e
      | Inr _ \<Rightarrow> validate_overrides (ms_reverse_health_overrides s) {})"

end
