(* ===== verification/Graph_Walk.thy ===== *)
theory Graph_Walk
  imports Prelude
begin

text \<open>
  The queue search the routing compiler writes four times: pop an entry, skip it when it was
  seen, otherwise record what the visit yields and push its successors. \<open>visit x\<close> gives the
  successors and the output of one visit. The bound on the turns is the initial queue plus the
  successors of every entry that can be visited; \<open>queue_walk_reaches\<close> shows that with such a
  bound the search ends and its output is that of exactly the reachable entries.
\<close>

fun queue_walk :: "nat \<Rightarrow> ('a \<Rightarrow> 'a list \<times> 'b list) \<Rightarrow> 'a list \<Rightarrow> 'a list \<Rightarrow> 'b list \<Rightarrow> 'b list option" where
  "queue_walk 0 visit queue seen out = (if queue = [] then Some out else None)"
| "queue_walk (Suc fuel) visit [] seen out = Some out"
| "queue_walk (Suc fuel) visit (x # rest) seen out =
     (if x \<in> set seen then queue_walk fuel visit rest seen out
      else queue_walk fuel visit (rest @ fst (visit x)) (x # seen) (out @ snd (visit x)))"

lemma queue_walk_Some:
  assumes "queue_walk fuel visit queue seen out = Some out'"
    and "walk_ok (\<lambda>x. fst (visit x)) roots (set seen) (set queue)"
    and "set out = (\<Union>x \<in> set seen. set (snd (visit x)))"
  shows "set out' = (\<Union>x \<in> reach_set (\<lambda>x. fst (visit x)) roots. set (snd (visit x)))"
  using assms
proof (induction fuel visit queue seen out rule: queue_walk.induct)
  case (1 visit queue seen out)
  then have "queue = []" and out: "out = out'" by (auto split: if_splits)
  then have "set seen = reach_set (\<lambda>x. fst (visit x)) roots" using walk_done "1.prems"(2) by force
  then show ?case using "1.prems"(3) out by simp
next
  case (2 fuel visit seen out)
  then have "set seen = reach_set (\<lambda>x. fst (visit x)) roots" using walk_done by force
  then show ?case using "2.prems" by simp
next
  case (3 fuel visit x rest seen out)
  show ?case
  proof (cases "x \<in> set seen")
    case True
    have "walk_ok (\<lambda>x. fst (visit x)) roots (set seen) (set rest)"
      using walk_skip [of "\<lambda>x. fst (visit x)" roots "set seen" x "set rest"] "3.prems"(2) True by simp
    then show ?thesis using "3.IH"(1) [OF True] "3.prems" True by simp
  next
    case False
    have "walk_ok (\<lambda>x. fst (visit x)) roots (insert x (set seen)) (set (fst (visit x)) \<union> set rest)"
      using walk_visit [of "\<lambda>x. fst (visit x)" roots "set seen" x "set rest"] "3.prems"(2) by simp
    then have "walk_ok (\<lambda>x. fst (visit x)) roots (set (x # seen)) (set (rest @ fst (visit x)))"
      by (simp add: Un_commute)
    moreover have "set (out @ snd (visit x)) = (\<Union>y \<in> set (x # seen). set (snd (visit y)))"
      using "3.prems"(3) by auto
    ultimately show ?thesis using "3.IH"(2) [OF False] "3.prems"(1) False by simp
  qed
qed

text \<open>
  The turns still to come: what waits, and the successors of what may still be visited. \<open>N\<close>
  holds every entry with successors.
\<close>

lemma queue_walk_fuel:
  assumes "finite N" and "\<And>x. x \<notin> N \<Longrightarrow> fst (visit x) = []"
    and "length queue + (\<Sum>x \<in> N - set seen. length (fst (visit x))) \<le> fuel"
  shows "queue_walk fuel visit queue seen out \<noteq> None"
  using assms(2,3)
proof (induction fuel visit queue seen out rule: queue_walk.induct)
  case (3 fuel visit x rest seen out)
  show ?case
  proof (cases "x \<in> set seen")
    case True
    then show ?thesis using "3.IH"(1) [OF True "3.prems"(1)] "3.prems"(2) by simp
  next
    case False
    have "length (rest @ fst (visit x)) + (\<Sum>y \<in> N - set (x # seen). length (fst (visit y))) \<le> fuel"
    proof (cases "x \<in> N")
      case True
      with False have "(\<Sum>y \<in> N - set seen. length (fst (visit y))) =
          length (fst (visit x)) + (\<Sum>y \<in> (N - set seen) - {x}. length (fst (visit y)))"
        using assms(1) by (intro sum.remove) auto
      moreover have "(N - set seen) - {x} = N - set (x # seen)" by auto
      ultimately show ?thesis using "3.prems"(2) by simp
    next
      case F: False
      then have "N - set (x # seen) = N - set seen" by auto
      then show ?thesis using "3.prems" F by simp
    qed
    then show ?thesis using "3.IH"(2) [OF False "3.prems"(1)] False by simp
  qed
qed auto

lemma queue_walk_reaches:
  assumes "finite N" and "\<And>x. x \<notin> N \<Longrightarrow> fst (visit x) = []"
    and "length queue + (\<Sum>x \<in> N. length (fst (visit x))) \<le> fuel"
  shows "\<exists>out. queue_walk fuel visit queue [] [] = Some out \<and>
    set out = (\<Union>x \<in> reach_set (\<lambda>x. fst (visit x)) (set queue). set (snd (visit x)))"
proof -
  have "queue_walk fuel visit queue [] [] \<noteq> None"
    by (rule queue_walk_fuel [where N = N]) (use assms in auto)
  then obtain out where out: "queue_walk fuel visit queue [] [] = Some out" by blast
  have "set out = (\<Union>x \<in> reach_set (\<lambda>x. fst (visit x)) (set queue). set (snd (visit x)))"
    by (rule queue_walk_Some [OF out]) (simp_all add: walk_start)
  with out show ?thesis by blast
qed

text \<open>Entries that split a list of rules between them push at most the rules.\<close>

lemma sum_length_filter:
  assumes "finite N"
  shows "(\<Sum>x \<in> N. length (filter (\<lambda>r. key r = x) rs)) \<le> length rs"
proof (induction rs)
  case (Cons r rs)
  have "(\<Sum>x \<in> N. length (filter (\<lambda>r. key r = x) (r # rs))) =
      (\<Sum>x \<in> N. (if key r = x then 1 else 0) + length (filter (\<lambda>r. key r = x) rs))"
    by (rule sum.cong) auto
  also have "\<dots> = (\<Sum>x \<in> N. if key r = x then 1 else 0) + (\<Sum>x \<in> N. length (filter (\<lambda>r. key r = x) rs))"
    by (rule sum.distrib)
  also have "(\<Sum>x \<in> N. if key r = x then 1 else 0) \<le> (1::nat)"
    using assms by simp
  finally show ?case using Cons.IH by simp
qed simp

lemma sum_concat_filter:
  assumes "finite N"
  shows "(\<Sum>x \<in> N. length (concat (map f (filter (\<lambda>s. key s = x) ss)))) \<le> length (concat (map f ss))"
proof (induction ss)
  case (Cons s ss)
  have "(\<Sum>x \<in> N. length (concat (map f (filter (\<lambda>s. key s = x) (s # ss))))) =
      (\<Sum>x \<in> N. (if key s = x then length (f s) else 0) + length (concat (map f (filter (\<lambda>s. key s = x) ss))))"
    by (rule sum.cong) auto
  also have "\<dots> = (\<Sum>x \<in> N. if key s = x then length (f s) else 0) +
      (\<Sum>x \<in> N. length (concat (map f (filter (\<lambda>s. key s = x) ss))))"
    by (rule sum.distrib)
  also have "(\<Sum>x \<in> N. if key s = x then length (f s) else 0) \<le> length (f s)"
    using assms by simp
  finally show ?case using Cons.IH by simp
qed simp

end
