(* ===== verification/Routing.thy ===== *)
theory Routing
  imports App_Model Diagnostics Graph_Walk
begin

text \<open>
  The application layer, brocade-core/src/ir/routing.rs: chains, their steps, and who may use
  them. The queue searches carry a bound on
  their turns, the initial entries plus the number of rules: a visit pushes at most one entry per
  rule of the visited machine, and no machine is visited twice. The lemmas show the bound is enough. \<open>HashMap\<close> look-ups that never iterate are \<open>map_of\<close> over the last-wins list.
\<close>

record app_node =
  an_id :: string
  an_tenant :: string
  an_name :: string
  an_certificate_group_id :: "string option"
  an_certificate_track :: "certificate_track option"
  an_public_ipv4 :: "string option"
  an_public_ipv6 :: "string option"
  an_public_ipv4_nat :: bool
  an_public_ipv6_nat :: bool
  an_egress_allowed :: bool
  an_api_port :: "u16 option"
  an_dns :: dns
  an_domain_strategy :: domain_strategy
  an_egress_dns :: "node_egress_dns_policy list"
  an_connection :: node_connection

record ir_user =
  iu_id :: string
  iu_tenant :: string
  iu_uuid :: string

record ir_chain =
  ic_id :: string
  ic_app_id :: "string option"
  ic_tenant :: string
  ic_name :: string
  ic_subscription_country :: "string option"
  ic_root :: "string option"

record ir_ingress =
  ii_id :: string
  ii_app_id :: "string option"
  ii_tenant :: string
  ii_chain :: string
  ii_node :: string
  ii_bind :: ip_addr
  ii_port :: u16
  ii_front :: "string option"
  ii_sniff :: bool
  ii_identity :: ingress_identity
  ii_anytls_identity :: "ingress_identity option"
  ii_wires :: ingress_wires
  ii_certificate_name :: "string option"
  ii_certificate_names :: "string list"
  ii_guard :: ingress_guard
  ii_projection :: projection

record ir_front =
  if_id :: string
  if_app_id :: "string option"
  if_tenant :: string
  if_name :: string
  if_via :: "string list"
  if_external_via :: "string list"
  if_strategy :: front_strategy

record ir_accept =
  ia_uuid :: string
  ia_label :: string

record ir_hop_in =
  ih_port :: u16
  ih_security :: hop_wire

record ir_rule =
  ir_match :: dest_match
  ir_action :: action

record ir_step =
  is_id :: string
  is_app_id :: "string option"
  is_chain :: string
  is_node :: string
  is_accept :: "ir_accept option"
  is_hop_in :: "ir_hop_in option"
  is_rules :: "ir_rule list"

record ir_grant =
  ig_id :: string
  ig_app_id :: "string option"
  ig_tenant :: string
  ig_user :: string
  ig_ingress :: string
  ig_label :: string

section \<open>Walking the rules\<close>

definition steps_at_source :: "step list \<Rightarrow> string \<Rightarrow> string \<Rightarrow> step list" where
  "steps_at_source steps chain node = filter (\<lambda>s. step_chain s = chain \<and> step_node s = node) steps"

definition forward_to :: "action \<Rightarrow> string option" where
  "forward_to a = (case a of Forward to _ _ \<Rightarrow> Some to | _ \<Rightarrow> None)"

text \<open>What one visit pushes: the targets of the forwards, in the order of steps and rules.\<close>

definition forwards_at :: "step list \<Rightarrow> string \<Rightarrow> string \<Rightarrow> string list" where
  "forwards_at steps chain node =
     List.map_filter (\<lambda>r. forward_to (rule_action r)) (concat (map step_rules (steps_at_source steps chain node)))"

definition all_rules :: "step list \<Rightarrow> rule list" where
  "all_rules steps = concat (map step_rules steps)"

definition chain_members_from_steps :: "step list \<Rightarrow> string \<Rightarrow> string \<Rightarrow> string list" where
  "chain_members_from_steps steps chain root =
     (case queue_walk (Suc (length (all_rules steps))) (\<lambda>node. (forwards_at steps chain node, [node])) [root] [] [] of
        Some members \<Rightarrow> bset members
      | None \<Rightarrow> [])"

definition chain_members :: "app_view \<Rightarrow> string \<Rightarrow> string \<Rightarrow> string list" where
  "chain_members app chain root = chain_members_from_steps (app_steps app) chain root"

section \<open>Chain heads\<close>

text \<open>The map from chains to ingresses; among several the least (id, machine) wins.\<close>

definition root_step :: "(string, ingress) bmap \<Rightarrow> ingress \<Rightarrow> (string, ingress) bmap" where
  "root_step roots ingress =
     (case map_of roots (ing_chain ingress) of
        Some root \<Rightarrow>
          (if (ing_id ingress, ing_node ingress) < (ing_id root, ing_node root)
           then bput (ing_chain ingress) ingress roots else roots)
      | None \<Rightarrow> bput (ing_chain ingress) ingress roots)"

definition selected_chain_roots :: "app_view \<Rightarrow> (string, ingress) bmap" where
  "selected_chain_roots app = foldl root_step [] (app_ingresses app)"

definition ingresses_of_chain :: "app_view \<Rightarrow> string \<Rightarrow> (string \<times> string) list" where
  "ingresses_of_chain app chain =
     map (\<lambda>i. (ing_node i, ing_id i)) (filter (\<lambda>i. ing_chain i = chain) (app_ingresses app))"

definition multi_ingress_diagnostics :: "app_view \<Rightarrow> diagnostic list" where
  "multi_ingress_diagnostics app =
     map (\<lambda>chain. diagnostic_error ''chain.multi-ingress'' chain
         (Msg ''the ingresses of one chain are on several machines''
           (app_id app # chain # concat (map (\<lambda>(n, i). [i, n]) (sort (ingresses_of_chain app chain))))))
       (filter (\<lambda>chain. chain \<in> set (map chain_id (app_chains app)) \<and>
           1 < length (bset (map fst (ingresses_of_chain app chain))))
         (bset (map ing_chain (app_ingresses app))))"

definition chain_roots :: "app_view \<Rightarrow> diagnostic list \<times> (string, ingress) bmap" where
  "chain_roots app = (multi_ingress_diagnostics app, selected_chain_roots app)"

definition disabled_chains :: "app_view \<Rightarrow> string list \<Rightarrow> (string, ingress) bmap \<Rightarrow> string list" where
  "disabled_chains app retired roots =
     bset (map chain_id (filter (\<lambda>c.
       (case map_of roots (chain_id c) of
          None \<Rightarrow> False
        | Some root \<Rightarrow>
            list_ex (\<lambda>n. n \<in> set retired) (chain_members app (chain_id c) (ing_node root))))
       (app_chains app)))"

definition is_live_ingress :: "(string \<Rightarrow> node option) \<Rightarrow> string list \<Rightarrow> ingress \<Rightarrow> bool" where
  "is_live_ingress node_by_id disabled ingress =
     (\<not> (case node_by_id (ing_node ingress) of None \<Rightarrow> False | Some n \<Rightarrow> node_retired n) \<and>
      ing_chain ingress \<notin> set disabled)"

section \<open>Reused listeners\<close>

text \<open>What one visit of \<open>(chain, machine)\<close> pushes and records.\<close>

fun listener_edge ::
  "(string \<Rightarrow> bool) \<Rightarrow> string \<Rightarrow> action \<Rightarrow> (string \<times> string) list \<times> (string \<times> string) list" where
  "listener_edge follow chain (Forward to _ _) = ([(chain, to)], [])"
| "listener_edge follow chain (ReuseListener listener _ _) =
     (if follow (lr_chain listener) then [(lr_chain listener, lr_node listener)] else [],
      [(lr_chain listener, lr_node listener)])"
| "listener_edge follow chain _ = ([], [])"

definition listener_visit ::
  "(string \<Rightarrow> bool) \<Rightarrow> step list \<Rightarrow> string \<times> string \<Rightarrow> (string \<times> string) list \<times> (string \<times> string) list" where
  "listener_visit follow steps = (\<lambda>(chain, node).
     (let edges = map (\<lambda>r. listener_edge follow chain (rule_action r))
            (concat (map step_rules (steps_at_source steps chain node)))
      in (concat (map fst edges), concat (map snd edges))))"

definition reachable_reused_listeners :: "app_view \<Rightarrow> (string, ingress) bmap \<Rightarrow> string list \<Rightarrow> (string \<times> string) list" where
  "reachable_reused_listeners app roots disabled =
     (let known = map chain_id (app_chains app);
          live = filter (\<lambda>c. chain_id c \<notin> set disabled) (app_chains app);
          initial = sort (List.map_filter (\<lambda>c. map_option (\<lambda>root. (chain_id c, ing_node root))
            (map_of roots (chain_id c))) live);
          follow = (\<lambda>chain. chain \<in> set known \<and> chain \<notin> set disabled)
      in case queue_walk (length initial + length (all_rules (app_steps app)))
             (listener_visit follow (app_steps app)) initial [] [] of
           Some reused \<Rightarrow> bset reused
         | None \<Rightarrow> [])"

definition retired_nodes :: "model_snapshot \<Rightarrow> string list" where
  "retired_nodes doc = bset (map node_id (filter node_retired (sn_nodes doc)))"

text \<open>The index over all projects: owner, head and disabled state of every chain.\<close>

definition index_chain ::
  "app_view \<Rightarrow> (string, ingress) bmap \<Rightarrow> string list \<Rightarrow>
     (string, app_view) bmap \<times> (string, ingress) bmap \<times> string list \<Rightarrow> chain \<Rightarrow>
     (string, app_view) bmap \<times> (string, ingress) bmap \<times> string list" where
  "index_chain app app_roots app_disabled = (\<lambda>(owners, roots, disabled) c.
     (if map_of owners (chain_id c) = None then bput (chain_id c) app owners else owners,
      (case map_of app_roots (chain_id c) of
         None \<Rightarrow> roots
       | Some root \<Rightarrow> if map_of roots (chain_id c) = None then bput (chain_id c) root roots else roots),
      if chain_id c \<in> set app_disabled then bset (chain_id c # disabled) else disabled))"

definition index_app ::
  "string list \<Rightarrow> (string, app_view) bmap \<times> (string, ingress) bmap \<times> string list \<Rightarrow> app_view \<Rightarrow>
     (string, app_view) bmap \<times> (string, ingress) bmap \<times> string list" where
  "index_app retired acc app =
     (let app_roots = selected_chain_roots app
      in foldl (index_chain app app_roots (disabled_chains app retired app_roots)) acc (app_chains app))"

definition reachable_listener_roots_across_apps :: "model_snapshot \<Rightarrow> (string \<times> string) list" where
  "reachable_listener_roots_across_apps doc =
     (let (owners, roots, disabled) = foldl (index_app (retired_nodes doc)) ([], [], []) (sn_apps doc);
          initial = sort (map (\<lambda>(chain, ingress). (chain, ing_node ingress))
            (filter (\<lambda>e. fst e \<notin> set disabled) roots));
          follow = (\<lambda>chain. map_of owners chain \<noteq> None \<and> chain \<notin> set disabled);
          visit = (\<lambda>(chain, node).
            (case map_of owners chain of
               None \<Rightarrow> ([], [])
             | Some app \<Rightarrow> listener_visit follow (app_steps app) (chain, node)))
      in case queue_walk (length initial + length (concat (map (\<lambda>a. all_rules (app_steps a)) (sn_apps doc))))
             visit initial [] [] of
           Some reused \<Rightarrow> bset reused
         | None \<Rightarrow> [])"

section \<open>One chain\<close>

record routing_chain_input =
  rci_app_id :: string
  rci_chain :: chain
  rci_root :: "string option"
  rci_nodes :: "node list"
  rci_steps :: "step list"
  rci_reused_listener_nodes :: "string list"

record routing_chain_compile =
  rcc_chain :: ir_chain
  rcc_steps :: "ir_step list"
  rcc_diagnostics :: "diagnostic list"

definition merge_step_field :: "'a option list \<Rightarrow> string \<Rightarrow> string \<Rightarrow> string \<Rightarrow> diagnostic list \<times> 'a option" where
  "merge_step_field vs code location field =
     (case concat (map (\<lambda>v. case v of None \<Rightarrow> [] | Some x \<Rightarrow> [x]) vs) of
        [] \<Rightarrow> ([], None)
      | first # others \<Rightarrow>
          if list_ex (\<lambda>v. v \<noteq> first) others
          then ([diagnostic_error code location (Msg ''the steps of one machine disagree'' [field])], None)
          else ([], Some first))"

definition terminal_default :: "node \<Rightarrow> chain \<Rightarrow> string \<Rightarrow> diagnostic list \<times> action" where
  "terminal_default n c nid =
     (if node_egress_allowed n then ([], Egress None)
      else ([diagnostic_warn ''step.no-egress'' (chain_id c @ ''/'' @ nid)
              (Msg ''the end may not go out, a block is appended'' [nid])], Block))"

definition append_default_rule ::
  "node \<Rightarrow> chain \<Rightarrow> string \<Rightarrow> ir_rule list \<Rightarrow> diagnostic list \<times> action option \<times> ir_rule list" where
  "append_default_rule n c nid rules =
     (if rules \<noteq> [] \<and> ir_match (last rules) = MatchAny then ([], None, rules)
      else let (ds, action) = terminal_default n c nid
           in (ds, Some action, rules @ [\<lparr>ir_match = MatchAny, ir_action = action\<rparr>]))"

definition is_reverse_forward :: "action \<Rightarrow> bool" where
  "is_reverse_forward a = (case a of Forward _ (DialReverse _) _ \<Rightarrow> True | _ \<Rightarrow> False)"

definition source_rules :: "step list \<Rightarrow> ir_rule list" where
  "source_rules sources =
     map (\<lambda>r. \<lparr>ir_match = rule_match r, ir_action = rule_action r\<rparr>) (concat (map step_rules sources))"

text \<open>One turn of the loop that makes a step; the flag is a block that filled a hole.\<close>

definition compile_member ::
  "routing_chain_input \<Rightarrow> string \<Rightarrow> string list \<Rightarrow> string \<Rightarrow> diagnostic list \<times> (ir_step \<times> bool) option" where
  "compile_member input root primary nid =
     (let c = rci_chain input
      in case find (\<lambda>n. node_id n = nid) (rci_nodes input) of
           None \<Rightarrow> ([diagnostic_error ''chain.unknown-node'' (chain_id c) (Msg ''no such machine on the chain'' [nid])], None)
         | Some n \<Rightarrow>
             (let sources = steps_at_source (rci_steps input) (chain_id c) nid;
                  at = chain_id c @ ''/'' @ nid;
                  (d1, source_accept) = merge_step_field (map step_accept sources) ''step.accept-conflict'' at ''accept'';
                  (d2, source_hop_in) = merge_step_field (map step_hop_in sources) ''step.hop-in-conflict'' at ''hop_in'';
                  (d3, padded, rules) = append_default_rule n c nid (source_rules sources);
                  padded_block = (nid \<in> set primary \<and> padded = Some Block);
                  reverse_upstream = list_ex (\<lambda>r. is_reverse_forward (ir_action r)) rules;
                  reused = nid \<in> set (rci_reused_listener_nodes input);
                  (accept, hop_in) = (if nid = root \<and> \<not> reused
                    then (None, if reverse_upstream then source_hop_in else None)
                    else (source_accept, source_hop_in))
              in (d1 @ d2 @ d3,
                  Some (\<lparr>is_id = ''s-'' @ chain_id c @ ''-'' @ nid, is_app_id = Some (rci_app_id input),
                         is_chain = chain_id c, is_node = nid,
                         is_accept = map_option (\<lambda>a. \<lparr>ia_uuid = acc_uuid a, ia_label = acc_label a\<rparr>) accept,
                         is_hop_in = map_option (\<lambda>h. \<lparr>ih_port = hi_port h, ih_security = hi_security h\<rparr>) hop_in,
                         is_rules = rules\<rparr>, padded_block))))"

definition step_targets :: "ir_step \<Rightarrow> string list" where
  "step_targets s = List.map_filter (\<lambda>r. forward_to (ir_action r)) (is_rules s)"

text \<open>\<open>seen.insert(to)\<close> guards the push, so a machine enters the queue once.\<close>

definition push_fresh :: "string list \<times> string list \<Rightarrow> string \<Rightarrow> string list \<times> string list" where
  "push_fresh = (\<lambda>(queue, seen) to. if to \<in> set seen then (queue, seen) else (queue @ [to], to # seen))"

fun compile_walk ::
  "nat \<Rightarrow> (string \<Rightarrow> diagnostic list \<times> (ir_step \<times> bool) option) \<Rightarrow> string list \<Rightarrow> string list \<Rightarrow>
     diagnostic list \<times> ir_step list \<times> bool \<Rightarrow> (diagnostic list \<times> ir_step list \<times> bool) option" where
  "compile_walk 0 compile_at queue seen acc = (if queue = [] then Some acc else None)"
| "compile_walk (Suc fuel) compile_at [] seen acc = Some acc"
| "compile_walk (Suc fuel) compile_at (nid # rest) seen (ds, steps, padded) =
     (if nid \<in> set (map is_node steps) then compile_walk fuel compile_at rest seen (ds, steps, padded)
      else case compile_at nid of
        (ds', None) \<Rightarrow> compile_walk fuel compile_at rest seen (ds @ ds', steps, padded)
      | (ds', Some (s, p)) \<Rightarrow>
          (let (queue', seen') = foldl push_fresh (rest, seen) (step_targets s)
           in compile_walk fuel compile_at queue' seen' (ds @ ds', steps @ [s], padded \<or> p)))"

text \<open>Sorted, without repetition, and the head swapped to the front.\<close>

definition chain_walk_roots :: "routing_chain_input \<Rightarrow> string \<Rightarrow> string list" where
  "chain_walk_roots input root =
     (let roots = bset (root # rci_reused_listener_nodes input);
          index = length (takeWhile (\<lambda>n. n \<noteq> root) roots)
      in (roots[index := roots ! 0])[0 := root])"

definition unreachable_steps :: "routing_chain_input \<Rightarrow> ir_step list \<Rightarrow> (string, nat) bmap" where
  "unreachable_steps input made =
     foldl (\<lambda>m s. bput (step_node s)
         ((case map_of m (step_node s) of None \<Rightarrow> 0 | Some k \<Rightarrow> k) + length (step_rules s)) m) []
       (filter (\<lambda>s. step_chain s = chain_id (rci_chain input) \<and> step_node s \<notin> set (map is_node made) \<and>
           list_ex (\<lambda>n. node_id n = step_node s) (rci_nodes input)) (rci_steps input))"

definition is_exit :: "action \<Rightarrow> bool" where
  "is_exit a = (case a of Egress _ \<Rightarrow> True | Proxy _ \<Rightarrow> True | ReuseListener _ _ _ \<Rightarrow> True
     | Forward _ (DialReverse _) _ \<Rightarrow> True | _ \<Rightarrow> False)"

definition compile_chain_steps :: "routing_chain_input \<Rightarrow> diagnostic list \<times> ir_step list" where
  "compile_chain_steps input =
     (case rci_root input of
        None \<Rightarrow> ([], [])
      | Some root \<Rightarrow>
          (let c = rci_chain input;
               primary = chain_members_from_steps (rci_steps input) (chain_id c) root;
               roots = chain_walk_roots input root
           in case compile_walk (length roots + length (all_rules (rci_steps input)))
                (compile_member input root primary) roots roots ([], [], False) of
                None \<Rightarrow> ([], [])
              | Some (ds, steps, padded_block) \<Rightarrow>
                  (let lost = map (\<lambda>(n, k). diagnostic_warn ''step.unreachable'' (chain_id c @ ''/'' @ n)
                         (Msg ''not reachable from the entry, its rules produce nothing'' [n, show_nat k]))
                         (unreachable_steps input steps);
                       alive = list_ex (\<lambda>s. is_node s \<in> set primary \<and> list_ex (\<lambda>r. is_exit (ir_action r)) (is_rules s)) steps;
                       dead = (if padded_block \<and> \<not> alive
                         then [diagnostic_error ''chain.no-egress-path'' (chain_id c) (Msg ''no way out on this chain'' [chain_id c])]
                         else [])
                   in (ds @ lost @ dead, steps))))"

definition compile_chain :: "routing_chain_input \<Rightarrow> routing_chain_compile" where
  "compile_chain input =
     (let (ds, steps) = compile_chain_steps input; c = rci_chain input
      in \<lparr>rcc_chain = \<lparr>ic_id = chain_id c, ic_app_id = Some (rci_app_id input), ic_tenant = chain_tenant c,
            ic_name = chain_name c, ic_subscription_country = chain_subscription_country c,
            ic_root = rci_root input\<rparr>,
          rcc_steps = steps, rcc_diagnostics = ds\<rparr>)"

definition routing_chain_input_of ::
  "model_snapshot \<Rightarrow> app_view \<Rightarrow> chain \<Rightarrow> string option \<Rightarrow> (string \<times> string) list \<Rightarrow> routing_chain_input" where
  "routing_chain_input_of doc app c root reused =
     (let steps = filter (\<lambda>s. step_chain s = chain_id c) (app_steps app);
          node_ids = (case root of None \<Rightarrow> [] | Some r \<Rightarrow> [r]) @
            concat (map (\<lambda>s. step_node s # List.map_filter (\<lambda>r. forward_to (rule_action r)) (step_rules s)) steps)
      in \<lparr>rci_app_id = app_id app, rci_chain = c, rci_root = root,
          rci_nodes = filter (\<lambda>n. node_id n \<in> set node_ids) (sn_nodes doc), rci_steps = steps,
          rci_reused_listener_nodes = bset (map snd (filter (\<lambda>e. fst e = chain_id c) reused))\<rparr>)"

section \<open>Grants\<close>

definition user_key :: "string \<Rightarrow> string \<Rightarrow> string" where
  "user_key tenant user = tenant @ ''/'' @ user"

definition compile_grant ::
  "model_snapshot \<Rightarrow> app_view \<Rightarrow> string list \<Rightarrow> diagnostic list \<times> string list \<times> ir_grant list \<Rightarrow> grant \<Rightarrow>
     diagnostic list \<times> string list \<times> ir_grant list" where
  "compile_grant doc app live = (\<lambda>(ds, seen, out) g.
     (let who = user_key (gr_tenant g) (gr_user g); at = who @ ''->'' @ gr_ingress g
      in if \<not> list_ex (\<lambda>i. ing_id i = gr_ingress g) (app_ingresses app) then
           (ds @ [diagnostic_error ''grant.no-ingress'' at (Msg ''no such ingress'' [gr_ingress g])], seen, out)
         else if gr_ingress g \<notin> set live then (ds, seen, out)
         else if \<not> list_ex (\<lambda>u. user_tenant u = gr_tenant g \<and> user_id u = gr_user g) (sn_users doc) then
           (ds @ [diagnostic_error ''grant.no-user'' at (Msg ''no such user'' [who])], seen, out)
         else let key = who @ ''|'' @ gr_ingress g
              in if key \<in> set seen then
                   (ds @ [diagnostic_error ''grant.dup'' who (Msg ''granted twice'' [who, gr_ingress g])], seen, out)
                 else (ds, key # seen,
                   out @ [\<lparr>ig_id = ''g-'' @ key, ig_app_id = Some (app_id app), ig_tenant = gr_tenant g,
                     ig_user = gr_user g, ig_ingress = gr_ingress g,
                     ig_label = grant_label (gr_user g) (gr_tenant g) (gr_ingress g)\<rparr>])))"

definition compile_grants :: "model_snapshot \<Rightarrow> app_view \<Rightarrow> string list \<Rightarrow> diagnostic list \<times> ir_grant list" where
  "compile_grants doc app live =
     (let (ds, seen, out) = foldl (compile_grant doc app live) ([], [], []) (app_grants app) in (ds, out))"

section \<open>Membership is reachability\<close>

lemma length_map_filter_le: "length (List.map_filter f xs) \<le> length xs"
  by (induction xs) (auto simp: List.map_filter_simps split: option.splits)

lemma forwards_sum:
  assumes "finite N"
  shows "(\<Sum>n \<in> N. length (forwards_at steps chain n)) \<le> length (all_rules steps)"
proof -
  have "(\<Sum>n \<in> N. length (forwards_at steps chain n)) \<le>
      (\<Sum>n \<in> N. length (concat (map step_rules (filter (\<lambda>s. step_node s = n) (filter (\<lambda>s. step_chain s = chain) steps)))))"
    by (rule sum_mono) (simp add: forwards_at_def steps_at_source_def length_map_filter_le conj_commute)
  also have "\<dots> \<le> length (concat (map step_rules (filter (\<lambda>s. step_chain s = chain) steps)))"
    by (rule sum_concat_filter [OF assms])
  also have "\<dots> \<le> length (all_rules steps)"
    by (induction steps) (auto simp: all_rules_def)
  finally show ?thesis .
qed

lemma forwards_at_outside: "n \<notin> step_node ` set steps \<Longrightarrow> forwards_at steps chain n = []"
proof -
  assume "n \<notin> step_node ` set steps"
  then have "steps_at_source steps chain n = []" by (auto simp: steps_at_source_def filter_empty_conv)
  then show ?thesis by (simp add: forwards_at_def List.map_filter_simps)
qed

lemma chain_members_reach:
  "set (chain_members_from_steps steps chain root) = reach_set (forwards_at steps chain) {root}"
proof -
  let ?visit = "\<lambda>n. (forwards_at steps chain n, [n])"
  have "\<exists>out. queue_walk (Suc (length (all_rules steps))) ?visit [root] [] [] = Some out \<and>
    set out = (\<Union>x \<in> reach_set (\<lambda>x. fst (?visit x)) (set [root]). set (snd (?visit x)))"
    by (rule queue_walk_reaches [where N = "step_node ` set steps"])
      (use forwards_sum [of "step_node ` set steps" steps chain] in \<open>auto simp: forwards_at_outside\<close>)
  then show ?thesis by (auto simp: chain_members_from_steps_def)
qed

definition leads_to :: "app_view \<Rightarrow> string \<Rightarrow> string \<Rightarrow> string set" where
  "leads_to app chain root = reach_set (forwards_at (app_steps app) chain) {root}"

lemma disabled_chains_iff:
  "chain \<in> set (disabled_chains app retired roots) \<longleftrightarrow> chain \<in> chain_id ` set (app_chains app) \<and>
    (\<exists>root. map_of roots chain = Some root \<and> leads_to app chain (ing_node root) \<inter> set retired \<noteq> {})"
proof -
  let ?P = "\<lambda>x. case map_of roots x of None \<Rightarrow> False
    | Some root \<Rightarrow> list_ex (\<lambda>n. n \<in> set retired) (chain_members app x (ing_node root))"
  have "chain \<in> set (disabled_chains app retired roots) \<longleftrightarrow> chain \<in> chain_id ` set (app_chains app) \<and> ?P chain"
    by (auto simp: disabled_chains_def)
  also have "?P chain \<longleftrightarrow> (\<exists>root. map_of roots chain = Some root \<and> leads_to app chain (ing_node root) \<inter> set retired \<noteq> {})"
    by (auto simp: chain_members_def chain_members_reach leads_to_def list_ex_iff split: option.split)
  finally show ?thesis .
qed

section \<open>The head of a chain\<close>

lemma root_step_lookup:
  "map_of (root_step roots i) c =
     (if c = ing_chain i \<and> (case map_of roots c of None \<Rightarrow> True
         | Some root \<Rightarrow> (ing_id i, ing_node i) < (ing_id root, ing_node root))
      then Some i else map_of roots c)"
  by (auto simp: root_step_def split: option.splits)

lemma selected_roots_fold:
  assumes "\<And>c root. map_of roots c = Some root \<Longrightarrow> root \<in> S \<and> ing_chain root = c"
    and "\<And>i. i \<in> S \<Longrightarrow> \<exists>root. map_of roots (ing_chain i) = Some root \<and> (ing_id root, ing_node root) \<le> (ing_id i, ing_node i)"
  shows "(map_of (foldl root_step roots is) c = Some root \<longrightarrow> root \<in> S \<union> set is \<and> ing_chain root = c) \<and>
    (i \<in> S \<union> set is \<longrightarrow> (\<exists>root. map_of (foldl root_step roots is) (ing_chain i) = Some root \<and>
      (ing_id root, ing_node root) \<le> (ing_id i, ing_node i)))"
  using assms
proof (induction "is" arbitrary: roots S)
  case (Cons x xs)
  have 1: "map_of (root_step roots x) c = Some root \<Longrightarrow> root \<in> insert x S \<and> ing_chain root = c" for c root
    using Cons.prems(1) [of c root] unfolding root_step_lookup by (auto split: if_splits)
  have 2: "\<exists>root. map_of (root_step roots x) (ing_chain j) = Some root \<and> (ing_id root, ing_node root) \<le> (ing_id j, ing_node j)"
    if "j \<in> insert x S" for j
  proof (cases "map_of roots (ing_chain j)")
    case None
    then have "j = x" using that Cons.prems(2) [of j] by auto
    then show ?thesis using None by (simp add: root_step_lookup)
  next
    case (Some r)
    show ?thesis
    proof (cases "j = x")
      case True
      then show ?thesis using Some by (auto simp: root_step_lookup not_less)
    next
      case False
      then have "(ing_id r, ing_node r) \<le> (ing_id j, ing_node j)" using that Cons.prems(2) [of j] Some by auto
      then show ?thesis using Some by (auto simp: root_step_lookup intro: less_imp_le order_trans)
    qed
  qed
  show ?case using Cons.IH [of "root_step roots x" "insert x S", OF 1 2] by auto
qed auto

lemma selected_chain_roots_least:
  "map_of (selected_chain_roots app) c = Some root \<Longrightarrow> root \<in> set (app_ingresses app) \<and> ing_chain root = c \<and>
     (\<forall>i \<in> set (app_ingresses app). ing_chain i = c \<longrightarrow> (ing_id root, ing_node root) \<le> (ing_id i, ing_node i))"
  "i \<in> set (app_ingresses app) \<Longrightarrow> map_of (selected_chain_roots app) (ing_chain i) \<noteq> None"
proof -
  note fold = selected_roots_fold [of "[]" "{}" "app_ingresses app", simplified, folded selected_chain_roots_def]
  show "i \<in> set (app_ingresses app) \<Longrightarrow> map_of (selected_chain_roots app) (ing_chain i) \<noteq> None"
    using fold by blast
  assume "map_of (selected_chain_roots app) c = Some root"
  then show "root \<in> set (app_ingresses app) \<and> ing_chain root = c \<and>
     (\<forall>i \<in> set (app_ingresses app). ing_chain i = c \<longrightarrow> (ing_id root, ing_node root) \<le> (ing_id i, ing_node i))"
    using fold by fastforce
qed

end
