(* ===== verification/App_Ir.thy ===== *)
theory App_Ir
  imports Routing
begin

text \<open>
  The compiled project: the \<open>AppIr\<close> of ir/routing.rs with the hop types of ir/hops.rs it
  carries, and the compilation of one project up to its hops.
\<close>

datatype hop_path = PathLocal | PathOverlay | PathDirect | PathReverse

datatype hop_dial_wire =
    HdwPlain
  | HdwEncryption string
  | HdwReality string string string string
  | HdwShadowsocks2022 string string

record hop_credential =
  hc_uuid :: string
  hc_label :: string

record hop =
  hop_chain :: string
  hop_target_chain :: string
  hop_app_id :: "string option"
  hop_from :: string
  hop_to :: string
  hop_link :: string
  hop_address :: string
  hop_port :: u16
  hop_path :: hop_path
  hop_security :: hop_dial_wire
  hop_credential :: hop_credential
  hop_pool :: hop_pool

record app_ir =
  ai_revision :: u64
  ai_app_id :: "string option"
  ai_tenants :: "string list"
  ai_nodes :: "app_node list"
  ai_users :: "ir_user list"
  ai_external_outbounds :: "external_outbound list"
  ai_chains :: "ir_chain list"
  ai_ingresses :: "ir_ingress list"
  ai_fronts :: "ir_front list"
  ai_steps :: "ir_step list"
  ai_listener_roots :: "(string \<times> string) list"
  ai_grants :: "ir_grant list"
  ai_hops :: "hop list"

definition app_node_of :: "model_snapshot \<Rightarrow> node \<Rightarrow> app_node" where
  "app_node_of doc n =
     \<lparr>an_id = node_id n, an_tenant = node_tenant n, an_name = node_name n,
      an_certificate_group_id = node_certificate_group_id n, an_certificate_track = node_certificate_track n,
      an_public_ipv4 = node_public_ipv4 n, an_public_ipv6 = node_public_ipv6 n,
      an_public_ipv4_nat = node_public_ipv4_nat n, an_public_ipv6_nat = node_public_ipv6_nat n,
      an_egress_allowed = node_egress_allowed n, an_api_port = node_api_port n, an_dns = node_dns n,
      an_domain_strategy = node_domain_strategy n,
      an_egress_dns = filter (\<lambda>p. ed_node p = node_id n) (sn_node_egress_dns doc),
      an_connection = node_connection n\<rparr>"

definition front_of :: "app_view \<Rightarrow> string list \<Rightarrow> front \<Rightarrow> ir_front" where
  "front_of app live f =
     \<lparr>if_id = front_id f, if_app_id = Some (app_id app), if_tenant = front_tenant f, if_name = front_name f,
      if_via = filter (\<lambda>v. v \<in> set live) (front_via f), if_external_via = front_external_via f,
      if_strategy = front_strategy f\<rparr>"

definition resolve_padding :: "string list \<Rightarrow> ingress_wires \<Rightarrow> ingress_wires" where
  "resolve_padding scheme wires =
     wires_anytls_mut (\<lambda>a. if at_padding_scheme a = [] then a\<lparr>at_padding_scheme := scheme\<rparr> else a) wires"

definition ingress_of ::
  "model_snapshot \<Rightarrow> app_view \<Rightarrow> (string \<Rightarrow> chain option) \<Rightarrow> (string \<Rightarrow> node option) \<Rightarrow> ingress \<Rightarrow> ir_ingress" where
  "ingress_of doc app chain_by_id node_by_id i =
     \<lparr>ii_id = ing_id i, ii_app_id = Some (app_id app),
      ii_tenant = (case chain_by_id (ing_chain i) of Some c \<Rightarrow> chain_tenant c | None \<Rightarrow> ''platform''),
      ii_chain = ing_chain i, ii_node = ing_node i, ii_bind = ing_bind i, ii_port = ing_port i,
      ii_front = ing_front i, ii_sniff = True, ii_identity = ing_identity i,
      ii_anytls_identity = ing_anytls_identity i,
      ii_wires = resolve_padding (ms_anytls_padding_scheme (sn_settings doc)) (ing_wires i),
      ii_certificate_name = Option.bind (node_by_id (ing_node i)) node_certificate_name,
      ii_certificate_names = (case node_by_id (ing_node i) of Some n \<Rightarrow> node_certificate_names n | None \<Rightarrow> []),
      ii_guard = ing_guard i, ii_projection = ing_projection i\<rparr>"

definition node_by_id :: "model_snapshot \<Rightarrow> string \<Rightarrow> node option" where
  "node_by_id doc = map_of (rev (map (\<lambda>n. (node_id n, n)) (sn_nodes doc)))"

definition chain_by_id :: "app_view \<Rightarrow> string \<Rightarrow> chain option" where
  "chain_by_id app = map_of (rev (map (\<lambda>c. (chain_id c, c)) (app_chains app)))"

definition collect_tenants :: "app_ir \<Rightarrow> app_ir" where
  "collect_tenants ir =
     ir\<lparr>ai_tenants := bset (map an_tenant (ai_nodes ir) @ map iu_tenant (ai_users ir) @ map ic_tenant (ai_chains ir) @
       map ii_tenant (ai_ingresses ir) @ map if_tenant (ai_fronts ir) @ map ig_tenant (ai_grants ir))\<rparr>"

definition sort_ir :: "app_ir \<Rightarrow> app_ir" where
  "sort_ir ir =
     ir\<lparr>ai_nodes := sort_key an_id (ai_nodes ir), ai_ingresses := sort_key ii_id (ai_ingresses ir),
        ai_fronts := sort_key if_id (ai_fronts ir), ai_steps := sort_key is_id (ai_steps ir),
        ai_grants := sort_key ig_id (ai_grants ir),
        ai_users := sort_key (\<lambda>u. user_key (iu_tenant u) (iu_id u)) (ai_users ir)\<rparr>"

definition live_ingresses :: "model_snapshot \<Rightarrow> app_view \<Rightarrow> string list \<Rightarrow> ingress list" where
  "live_ingresses doc app disabled = filter (is_live_ingress (node_by_id doc) disabled) (app_ingresses app)"

definition compile_app_with_listener_roots_and ::
  "model_snapshot \<Rightarrow> app_view \<Rightarrow> (string \<times> string) list option \<Rightarrow>
     (routing_chain_input \<Rightarrow> routing_chain_compile) \<Rightarrow> diagnostic list \<times> app_ir" where
  "compile_app_with_listener_roots_and doc app listener_roots compile_one =
     (let (d1, roots) = chain_roots app;
          disabled = disabled_chains app (retired_nodes doc) roots;
          live = live_ingresses doc app disabled;
          reused = (case listener_roots of Some r \<Rightarrow> r | None \<Rightarrow> reachable_reused_listeners app roots disabled);
          compiled = map (\<lambda>c. compile_one (routing_chain_input_of doc app c
              (map_option ing_node (map_of roots (chain_id c))) reused))
            (filter (\<lambda>c. chain_id c \<notin> set disabled) (app_chains app));
          (d3, grants) = compile_grants doc app (map ing_id live)
      in (d1 @ concat (map rcc_diagnostics compiled) @ d3,
          sort_ir (collect_tenants
            \<lparr>ai_revision = sn_revision doc, ai_app_id = Some (app_id app), ai_tenants = [],
             ai_nodes = map (app_node_of doc) (filter (\<lambda>n. \<not> node_retired n) (sn_nodes doc)),
             ai_users = map (\<lambda>u. \<lparr>iu_id = user_id u, iu_tenant = user_tenant u, iu_uuid = user_uuid u\<rparr>) (sn_users doc),
             ai_external_outbounds = sn_external_outbounds doc,
             ai_chains = map rcc_chain compiled,
             ai_ingresses = map (ingress_of doc app (chain_by_id app) (node_by_id doc)) live,
             ai_fronts = map (front_of app (bset (map ing_id live))) (app_fronts app),
             ai_steps = concat (map rcc_steps compiled),
             ai_listener_roots = bset (filter (\<lambda>(c, _). list_ex (\<lambda>x. chain_id x = c) (app_chains app)) reused),
             ai_grants = grants, ai_hops = []\<rparr>)))"

definition compile_app_with_listener_roots ::
  "model_snapshot \<Rightarrow> app_view \<Rightarrow> (string \<times> string) list option \<Rightarrow> diagnostic list \<times> app_ir" where
  "compile_app_with_listener_roots doc app listener_roots =
     compile_app_with_listener_roots_and doc app listener_roots compile_chain"

definition compile_app :: "model_snapshot \<Rightarrow> app_view \<Rightarrow> diagnostic list \<times> app_ir" where
  "compile_app doc app = compile_app_with_listener_roots doc app None"

end
