(* ===== verification/Ip_Text.thy ===== *)
theory Ip_Text
  imports Model
begin

text \<open>
  The IP address parsers of the Rust standard library (\<open>core::net::parser\<close>) as the sources
  use them, and the printed form of an IPv4 address. An address parser is a function from the
  remaining bytes to a value and what is left; \<open>None\<close> leaves the input where it was.
\<close>

type_synonym 'a reader = "string \<Rightarrow> ('a \<times> string) option"

definition read_char :: "char \<Rightarrow> unit reader" where
  "read_char c s = (case s of [] \<Rightarrow> None | x # xs \<Rightarrow> if x = c then Some ((), xs) else None)"

definition hex_val :: "char \<Rightarrow> nat" where
  "hex_val c =
     (let n = (of_char c :: nat) in if n \<le> 57 then n - 48 else if n \<le> 70 then n - 55 else n - 87)"

text \<open>
  \<open>read_number\<close>: all leading digits of the radix are consumed; more than \<open>max_digits\<close>
  of them, a value above the bound, or a forbidden leading zero fail.
\<close>

definition read_number ::
  "(char \<Rightarrow> bool) \<Rightarrow> (char \<Rightarrow> nat) \<Rightarrow> nat \<Rightarrow> nat \<Rightarrow> bool \<Rightarrow> nat \<Rightarrow> nat reader" where
  "read_number is_digit val radix max_digits allow_zero_prefix bound s =
     (let ds = takeWhile is_digit s; n = foldl (\<lambda>n c. radix * n + val c) 0 ds
      in if ds = [] \<or> max_digits < length ds \<or> bound \<le> n \<or>
            (\<not> allow_zero_prefix \<and> s \<noteq> [] \<and> hd s = CHR ''0'' \<and> 1 < length ds)
         then None else Some (n, dropWhile is_digit s))"

definition read_separated :: "char \<Rightarrow> nat \<Rightarrow> 'a reader \<Rightarrow> 'a reader" where
  "read_separated sep index inner s =
     (if index = 0 then inner s
      else case read_char sep s of None \<Rightarrow> None | Some (_, rest) \<Rightarrow> inner rest)"

definition read_octet :: "nat \<Rightarrow> nat reader" where
  "read_octet index = read_separated (CHR ''.'') index (read_number is_ascii_digit digit_val 10 3 False 256)"

definition read_ipv4 :: "(nat list) reader" where
  "read_ipv4 s =
     do { (a, s1) \<leftarrow> read_octet 0 s; (b, s2) \<leftarrow> read_octet 1 s1; (c, s3) \<leftarrow> read_octet 2 s2;
          (d, s4) \<leftarrow> read_octet 3 s3; Some ([a, b, c, d], s4) }"

definition ipv4_of :: "nat list \<Rightarrow> u32" where
  "ipv4_of os = of_nat (foldl (\<lambda>n o'. 256 * n + o') 0 os)"

definition parse_ipv4 :: "string \<Rightarrow> u32 option" where
  "parse_ipv4 s =
     (if 15 < length s then None
      else case read_ipv4 s of Some (os, []) \<Rightarrow> Some (ipv4_of os) | _ \<Rightarrow> None)"

text \<open>
  \<open>read_groups\<close>: up to \<open>limit\<close> groups from number \<open>i\<close> on; an embedded IPv4
  address takes two groups and ends the list.
\<close>

fun read_groups :: "nat \<Rightarrow> nat \<Rightarrow> nat \<Rightarrow> string \<Rightarrow> nat list \<times> bool \<times> string" where
  "read_groups limit i 0 s = ([], False, s)"
| "read_groups limit i (Suc left) s =
     (case if i + 1 < limit then read_separated (CHR '':'') i read_ipv4 s else None of
        Some (os, rest) \<Rightarrow> ([256 * os ! 0 + os ! 1, 256 * os ! 2 + os ! 3], True, rest)
      | None \<Rightarrow>
          (case read_separated (CHR '':'') i (read_number is_ascii_hexdigit hex_val 16 4 True 65536) s of
             None \<Rightarrow> ([], False, s)
           | Some (g, rest) \<Rightarrow>
               (let (gs, v4, rest') = read_groups limit (Suc i) left rest in (g # gs, v4, rest'))))"

definition read_ipv6 :: "(nat list) reader" where
  "read_ipv6 s =
     (let (front, v4, rest) = read_groups 8 0 8 s
      in if length front = 8 then Some (front, rest)
         else if v4 then None
         else do { (_, r1) \<leftarrow> read_char (CHR '':'') rest;
                   (_, r2) \<leftarrow> read_char (CHR '':'') r1;
                   let (back, _, r3) = read_groups (7 - length front) 0 (7 - length front) r2;
                   Some (front @ replicate (8 - length front - length back) 0 @ back, r3) })"

definition ipv6_of :: "nat list \<Rightarrow> u128" where
  "ipv6_of gs = of_nat (foldl (\<lambda>n g. 65536 * n + g) 0 gs)"

definition parse_ipv6 :: "string \<Rightarrow> u128 option" where
  "parse_ipv6 s = (case read_ipv6 s of Some (gs, []) \<Rightarrow> Some (ipv6_of gs) | _ \<Rightarrow> None)"

definition parse_ip :: "string \<Rightarrow> ip_addr option" where
  "parse_ip s =
     (case (case read_ipv4 s of Some (os, rest) \<Rightarrow> Some (IpV4 (ipv4_of os), rest)
            | None \<Rightarrow> map_option (\<lambda>(gs, rest). (IpV6 (ipv6_of gs), rest)) (read_ipv6 s)) of
        Some (a, []) \<Rightarrow> Some a
      | _ \<Rightarrow> None)"

definition show_ipv4 :: "u32 \<Rightarrow> string" where
  "show_ipv4 a =
     (let n = unat a
      in show_nat (n div 16777216) @ ''.'' @ show_nat (n div 65536 mod 256) @ ''.'' @
         show_nat (n div 256 mod 256) @ ''.'' @ show_nat (n mod 256))"

end
