(* ===== verification/System_Ir.thy ===== *)
theory System_Ir
  imports App_Model Ip_Text Diagnostics
begin

text \<open>
  The system layer, brocade-core/src/ir/system.rs: which machines are on the backbone, which
  pairs get a WireGuard link, in which direction it can be dialed, and whether it wears a fake-TCP
  disguise. The loop over the member pairs is a list of pairs, each giving diagnostics and at most
  one link.
\<close>

record wire_guard =
  wi_private_key :: string
  wi_public_key :: string
  wi_listen_port :: "u16 option"
  wi_endpoint :: "string option"

record system_node =
  sys_id :: string
  sys_tenant :: string
  sys_certificate_group_id :: "string option"
  sys_certificate_track :: "certificate_track option"
  sys_overlay_addr :: "u32 option"
  sys_wireguard :: "wire_guard option"
  sys_mtu :: u16

datatype link_dial = DialBoth | AtoB | BtoA

datatype link_wrap = WrapUdp | WrapFakeTcp "(string, string) bmap"

record link =
  link_id :: string
  link_a :: string
  link_b :: string
  link_dial :: link_dial
  link_keepalive_secs :: u16
  link_endpoints :: "(string, string) bmap"
  link_wrap :: link_wrap

record system_ir =
  si_revision :: u64
  si_overlay_cidr :: ipv4_net
  si_settings :: model_settings
  si_node_count :: nat
  si_nodes :: "system_node list"
  si_links :: "link list"

definition host_port :: "string \<Rightarrow> u16 \<Rightarrow> string" where
  "host_port host port =
     (if parse_ipv6 host \<noteq> None then ''['' @ host @ '']:'' @ show_nat (unat port)
      else host @ '':'' @ show_nat (unat port))"

definition find_node :: "model_snapshot \<Rightarrow> string \<Rightarrow> node option" where
  "find_node doc nid = find (\<lambda>n. node_id n = nid) (sn_nodes doc)"

text \<open>An address the machine itself holds, as opposed to one behind NAT.\<close>

definition open_ipv4 :: "node \<Rightarrow> string option" where
  "open_ipv4 n = (if node_public_ipv4_nat n then None else node_public_ipv4 n)"

definition open_ipv6 :: "node \<Rightarrow> string option" where
  "open_ipv6 n = (if node_public_ipv6_nat n then None else node_public_ipv6 n)"

definition public_endpoint_host :: "node \<Rightarrow> string option" where
  "public_endpoint_host n = (case open_ipv4 n of Some h \<Rightarrow> Some h | None \<Rightarrow> open_ipv6 n)"

definition public_endpoint_for :: "node \<Rightarrow> node \<Rightarrow> u16 \<Rightarrow> string option" where
  "public_endpoint_for dialer target port =
     (let dialer_v6 = node_public_ipv6 dialer \<noteq> None;
          dialer_v4 = node_public_ipv4 dialer \<noteq> None \<or> \<not> dialer_v6
      in case if dialer_v4 then open_ipv4 target else None of
           Some host \<Rightarrow> Some (host_port host port)
         | None \<Rightarrow>
             (case if dialer_v6 then open_ipv6 target else None of
                Some host \<Rightarrow> Some (host_port host port)
              | None \<Rightarrow> None))"

definition fake_port :: "node \<Rightarrow> u16 option" where
  "fake_port n = (case wg_transport (node_wireguard n) of FakeTcp port \<Rightarrow> Some port | WgUdp \<Rightarrow> None)"

text \<open>One turn of the loop over the two ends: \<open>me\<close> hosts the server, or else the peer does.\<close>

definition place_server ::
  "node \<times> u16 option \<times> node \<times> string \<Rightarrow> (string, string) bmap \<Rightarrow> (string, string) bmap" where
  "place_server = (\<lambda>(me, me_ft, peer, peer_id) servers.
     (case me_ft of
        None \<Rightarrow> servers
      | Some port \<Rightarrow>
          (case public_endpoint_for peer me port of
             Some endpoint \<Rightarrow> bput (node_id me) endpoint servers
           | None \<Rightarrow>
               (case public_endpoint_for me peer port of
                  Some endpoint \<Rightarrow>
                    (if map_of servers peer_id = None then bput peer_id endpoint servers else servers)
                | None \<Rightarrow> servers))))"

definition link_wrap_of :: "model_snapshot \<Rightarrow> system_node \<Rightarrow> system_node \<Rightarrow> diagnostic list \<times> link_wrap" where
  "link_wrap_of doc a b =
     (case (find_node doc (sys_id a), find_node doc (sys_id b)) of
        (Some a_node, Some b_node) \<Rightarrow>
          (let a_ft = fake_port a_node; b_ft = fake_port b_node
           in if a_ft = None \<and> b_ft = None then ([], WrapUdp)
              else let servers = fold place_server
                         [(a_node, a_ft, b_node, sys_id b), (b_node, b_ft, a_node, sys_id a)] []
                   in if servers = [] then
                        ([diagnostic_info ''link.fake-tcp-unhostable'' (sys_id a @ ''|'' @ sys_id b)
                            (Msg ''fake TCP cannot be hosted on either end'' [sys_id a, sys_id b])], WrapUdp)
                      else ([], WrapFakeTcp servers))
      | _ \<Rightarrow> ([], WrapUdp))"

definition direct_endpoints ::
  "model_snapshot \<Rightarrow> system_node \<Rightarrow> system_node \<Rightarrow> link_wrap \<Rightarrow> (string, string) bmap" where
  "direct_endpoints doc a b wrap =
     (if wrap \<noteq> WrapUdp then []
      else case (find_node doc (sys_id a), find_node doc (sys_id b)) of
        (Some a_node, Some b_node) \<Rightarrow>
          (let to_b = (case public_endpoint_for a_node b_node (wg_listen_port (node_wireguard b_node)) of
                         Some endpoint \<Rightarrow> bput (sys_id b) endpoint [] | None \<Rightarrow> [])
           in case public_endpoint_for b_node a_node (wg_listen_port (node_wireguard a_node)) of
                Some endpoint \<Rightarrow> bput (sys_id a) endpoint to_b
              | None \<Rightarrow> to_b)
      | _ \<Rightarrow> [])"

fun has_landing :: "link_wrap \<Rightarrow> (string, string) bmap \<Rightarrow> string \<Rightarrow> bool" where
  "has_landing WrapUdp endpoints peer_id = (map_of endpoints peer_id \<noteq> None)"
| "has_landing (WrapFakeTcp servers) endpoints peer_id = (map_of servers peer_id \<noteq> None)"

definition relay_nodes :: "model_snapshot \<Rightarrow> string list" where
  "relay_nodes doc =
     bset (map step_node (filter (\<lambda>s. step_hop_in s \<noteq> None) (concat (map app_steps (sn_apps doc)))))"

definition system_node_of :: "model_snapshot \<Rightarrow> node \<Rightarrow> system_node" where
  "system_node_of doc n =
     (let endpoint = (case wg_transport (node_wireguard n) of
            WgUdp \<Rightarrow> map_option (\<lambda>h. host_port h (wg_listen_port (node_wireguard n))) (public_endpoint_host n)
          | FakeTcp _ \<Rightarrow> None)
      in \<lparr>sys_id = node_id n, sys_tenant = node_tenant n,
          sys_certificate_group_id = node_certificate_group_id n,
          sys_certificate_track = node_certificate_track n,
          sys_overlay_addr = (if node_overlay n then Some (node_overlay_addr n) else None),
          sys_wireguard = (if node_overlay n then Some
            \<lparr>wi_private_key = wg_private_key (node_wireguard n), wi_public_key = wg_public_key (node_wireguard n),
             wi_listen_port = (if endpoint \<noteq> None then Some (wg_listen_port (node_wireguard n)) else None),
             wi_endpoint = endpoint\<rparr> else None),
          sys_mtu = (case node_mtu n of Some m \<Rightarrow> m | None \<Rightarrow> ov_mtu (ms_overlay (sn_settings doc)))\<rparr>)"

definition system_nodes :: "model_snapshot \<Rightarrow> system_node list" where
  "system_nodes doc =
     sort_key sys_id (map (system_node_of doc)
       (filter (\<lambda>n. \<not> node_retired n \<and> (node_overlay n \<or> node_id n \<in> set (relay_nodes doc))) (sn_nodes doc)))"

definition disabled_links :: "model_snapshot \<Rightarrow> (string \<times> string) list" where
  "disabled_links doc =
     bset (map (\<lambda>l. if dl_a l \<le> dl_b l then (dl_a l, dl_b l) else (dl_b l, dl_a l))
       (ov_disabled_links (ms_overlay (sn_settings doc))))"

text \<open>The pairs \<open>(i, j)\<close> with \<open>i < j\<close>, in the order of the two loops.\<close>

fun index_pairs :: "'a list \<Rightarrow> ('a \<times> 'a) list" where
  "index_pairs [] = []"
| "index_pairs (x # xs) = map (Pair x) xs @ index_pairs xs"

definition link_step ::
  "model_snapshot \<Rightarrow> (string \<times> string) list \<Rightarrow> system_node \<times> system_node \<Rightarrow> diagnostic list \<times> link option" where
  "link_step doc disabled = (\<lambda>(a, b).
     (if (sys_id a, sys_id b) \<in> set disabled then
        ([diagnostic_info ''link.disabled'' (sys_id a @ ''|'' @ sys_id b)
            (Msg ''the operator disabled this link'' [sys_id a, sys_id b])], None)
      else
        (let (found, wrap) = link_wrap_of doc a b;
             endpoints = direct_endpoints doc a b wrap;
             a_can = has_landing wrap endpoints (sys_id b);
             b_can = has_landing wrap endpoints (sys_id a)
         in if \<not> a_can \<and> \<not> b_can then
              (found @ [diagnostic_info ''link.no-endpoint'' (sys_id a @ ''|'' @ sys_id b)
                  (Msg ''neither end can be dialed'' [sys_id a, sys_id b])], None)
            else
              (found, Some \<lparr>link_id = ''l-'' @ sys_id a @ ''-'' @ sys_id b, link_a = sys_id a, link_b = sys_id b,
                 link_dial = (if a_can \<and> b_can then DialBoth else if a_can then AtoB else BtoA),
                 link_keepalive_secs = ov_keepalive_secs (ms_overlay (sn_settings doc)),
                 link_endpoints = endpoints, link_wrap = wrap\<rparr>))))"

definition server_hosts :: "link list \<Rightarrow> string list" where
  "server_hosts links =
     bset (concat (map (\<lambda>l. case link_wrap l of WrapFakeTcp servers \<Rightarrow> map fst servers | WrapUdp \<Rightarrow> []) links))"

definition assign_server_listen_ports ::
  "model_snapshot \<Rightarrow> link list \<Rightarrow> system_node list \<Rightarrow> system_node list" where
  "assign_server_listen_ports doc links nodes =
     (let hosts = server_hosts links
      in map (\<lambda>n. if sys_id n \<notin> set hosts then n
           else case sys_wireguard n of
             None \<Rightarrow> n
           | Some wg \<Rightarrow>
               if wi_listen_port wg = None
               then n\<lparr>sys_wireguard := Some (wg\<lparr>wi_listen_port :=
                   map_option (\<lambda>m. wg_listen_port (node_wireguard m)) (find_node doc (sys_id n))\<rparr>)\<rparr>
               else n) nodes)"

definition mesh_size_diagnostics :: "nat \<Rightarrow> link list \<Rightarrow> diagnostic list" where
  "mesh_size_diagnostics count links =
     (if 64 < length links then
        [diagnostic_warn ''system.mesh-size'' ''overlay''
          (Msg ''the full mesh is large'' [show_nat count, show_nat (length links), show_nat (count - 1)])]
      else [])"

definition compile_system :: "model_snapshot \<Rightarrow> diagnostic list \<times> system_ir" where
  "compile_system doc =
     (let nodes = system_nodes doc;
          members = filter (\<lambda>n. sys_wireguard n \<noteq> None) nodes;
          steps = map (link_step doc (disabled_links doc)) (index_pairs members);
          links = List.map_filter snd steps
      in (concat (map fst steps) @ mesh_size_diagnostics (length members) links,
          \<lparr>si_revision = sn_revision doc, si_overlay_cidr = sn_overlay_cidr doc,
           si_settings = sn_settings doc, si_node_count = length members,
           si_nodes = assign_server_listen_ports doc links nodes,
           si_links = sort_key link_id links\<rparr>))"

section \<open>Who reaches whom\<close>

definition can_reach :: "node \<Rightarrow> node \<Rightarrow> bool" where
  "can_reach dialer target \<longleftrightarrow>
     open_ipv4 target \<noteq> None \<and> (node_public_ipv4 dialer \<noteq> None \<or> node_public_ipv6 dialer = None) \<or>
     open_ipv6 target \<noteq> None \<and> node_public_ipv6 dialer \<noteq> None"

lemma public_endpoint_for_None: "public_endpoint_for d t p = None \<longleftrightarrow> \<not> can_reach d t"
  by (auto simp: public_endpoint_for_def can_reach_def Let_def split: option.splits)

definition open_address :: "node \<Rightarrow> string \<Rightarrow> bool" where
  "open_address t host \<longleftrightarrow> open_ipv4 t = Some host \<or> open_ipv6 t = Some host"

lemma public_endpoint_for_Some:
  "public_endpoint_for d t p = Some e \<Longrightarrow> \<exists>host. open_address t host \<and> e = host_port host p"
  by (auto simp: public_endpoint_for_def open_address_def Let_def split: option.splits if_splits)

text \<open>A landing map of a link: its keys are ends, its values open addresses of the end.\<close>

definition landings_ok :: "node \<Rightarrow> node \<Rightarrow> (string, string) bmap \<Rightarrow> bool" where
  "landings_ok a b m \<longleftrightarrow> (\<forall>k v. map_of m k = Some v \<longrightarrow>
     (\<exists>t host p. t \<in> {a, b} \<and> node_id t = k \<and> open_address t host \<and> v = host_port host p))"

lemma landings_ok_Nil [simp]: "landings_ok a b []"
  by (simp add: landings_ok_def)

lemma landings_ok_put:
  assumes "landings_ok a b m" and "t \<in> {a, b}" and "node_id t = k" and "public_endpoint_for d t p = Some v"
  shows "landings_ok a b (bput k v m)"
  using assms(1) public_endpoint_for_Some [OF assms(4)] assms(2,3) unfolding landings_ok_def map_of_bput by auto

lemma place_server_ok:
  assumes "landings_ok a b m" and "me \<in> {a, b}" and "peer \<in> {a, b}"
  shows "landings_ok a b (place_server (me, ft, peer, node_id peer) m)"
  using assms landings_ok_put [OF assms(1)]
  by (auto simp: place_server_def split: option.splits)

lemma place_server_keys:
  "map_of (place_server (me, ft, peer, node_id peer) m) k \<noteq> None \<longleftrightarrow>
     map_of m k \<noteq> None \<or> ft \<noteq> None \<and> (k = node_id me \<and> can_reach peer me \<or>
       k = node_id peer \<and> \<not> can_reach peer me \<and> can_reach me peer)"
proof -
  have r: "public_endpoint_for d t p = Some e \<Longrightarrow> can_reach d t" for d t p e
    using public_endpoint_for_None [of d t p] by auto
  show ?thesis
    by (auto simp: place_server_def public_endpoint_for_None dest: r split: option.splits if_splits)
qed

lemma find_node_Some:
  assumes "distinct (map node_id (sn_nodes doc))"
  shows "find_node doc k = Some n \<longleftrightarrow> n \<in> set (sn_nodes doc) \<and> node_id n = k"
proof -
  have "find (\<lambda>n. node_id n = k) ns = Some n \<longleftrightarrow> n \<in> set ns \<and> node_id n = k"
    if "distinct (map node_id ns)" for ns
    using that by (induction ns) auto
  then show ?thesis using assms by (simp add: find_node_def)
qed

text \<open>The wrap and the endpoints of a pair, between two machines of the model.\<close>

lemma link_wrap_facts:
  assumes "find_node doc (sys_id a) = Some an" and "find_node doc (sys_id b) = Some bn"
    and "node_id an = sys_id a" and "node_id bn = sys_id b" and "sys_id a \<noteq> sys_id b"
  defines "wrap \<equiv> snd (link_wrap_of doc a b)"
  defines "endpoints \<equiv> direct_endpoints doc a b wrap"
  shows "has_landing wrap endpoints (sys_id a) \<or> has_landing wrap endpoints (sys_id b) \<longleftrightarrow>
      can_reach an bn \<or> can_reach bn an"
    and "landings_ok an bn endpoints" and "wrap = WrapFakeTcp servers \<Longrightarrow> landings_ok an bn servers"
    and "wrap = WrapFakeTcp servers \<Longrightarrow> map_of servers k \<noteq> None \<Longrightarrow> k = sys_id a \<or> k = sys_id b"
proof -
  define servers0 where "servers0 = fold place_server
    [(an, fake_port an, bn, sys_id b), (bn, fake_port bn, an, sys_id a)] []"
  have wrap: "wrap = (if (fake_port an = None \<and> fake_port bn = None) \<or> servers0 = [] then WrapUdp else WrapFakeTcp servers0)"
    by (simp add: wrap_def link_wrap_of_def assms(1,2) servers0_def Let_def)
  have s0: "servers0 = place_server (bn, fake_port bn, an, node_id an) (place_server (an, fake_port an, bn, node_id bn) [])"
    by (simp add: servers0_def assms(3,4))
  have ok0: "landings_ok an bn servers0" unfolding s0 by (intro place_server_ok) simp_all
  have keys0: "map_of servers0 k \<noteq> None \<longleftrightarrow>
      fake_port an \<noteq> None \<and> (k = sys_id a \<and> can_reach bn an \<or> k = sys_id b \<and> \<not> can_reach bn an \<and> can_reach an bn) \<or>
      fake_port bn \<noteq> None \<and> (k = sys_id b \<and> can_reach an bn \<or> k = sys_id a \<and> \<not> can_reach an bn \<and> can_reach bn an)" for k
    unfolding s0 place_server_keys using assms(3,4) by auto
  have empty0: "servers0 = [] \<longleftrightarrow> (\<forall>k. map_of servers0 k = None)"
    using map_of_eq_empty_iff [of servers0] by (simp add: fun_eq_iff)
  have ends: "endpoints = (if wrap \<noteq> WrapUdp then []
      else let to_b = (case public_endpoint_for an bn (wg_listen_port (node_wireguard bn)) of
             Some e \<Rightarrow> bput (sys_id b) e [] | None \<Rightarrow> [])
        in case public_endpoint_for bn an (wg_listen_port (node_wireguard an)) of
             Some e \<Rightarrow> bput (sys_id a) e to_b | None \<Rightarrow> to_b)"
    by (simp add: endpoints_def direct_endpoints_def assms(1,2))
  have udp_keys: "map_of endpoints k \<noteq> None \<longleftrightarrow> wrap = WrapUdp \<and>
      (k = sys_id b \<and> can_reach an bn \<or> k = sys_id a \<and> can_reach bn an)" for k
  proof -
    have r: "public_endpoint_for d t p = Some e \<Longrightarrow> can_reach d t" for d t p e
      using public_endpoint_for_None [of d t p] by auto
    show ?thesis unfolding ends Let_def
      by (auto simp: public_endpoint_for_None dest: r r [OF sym] split: option.splits if_splits)
  qed
  have b_ok: "landings_ok an bn (bput (sys_id b) e m)"
    if "landings_ok an bn m" "public_endpoint_for an bn p = Some e" for m e p
    by (rule landings_ok_put [OF that(1) _ assms(4) that(2)]) simp
  have a_ok: "landings_ok an bn (bput (sys_id a) e m)"
    if "landings_ok an bn m" "public_endpoint_for bn an p = Some e" for m e p
    by (rule landings_ok_put [OF that(1) _ assms(3) that(2)]) simp
  show "landings_ok an bn endpoints"
    unfolding ends Let_def by (auto split: option.splits intro!: a_ok b_ok simp del: bput.simps)
  show "wrap = WrapFakeTcp servers \<Longrightarrow> landings_ok an bn servers"
    using ok0 unfolding wrap by (auto split: if_splits)
  show "wrap = WrapFakeTcp servers \<Longrightarrow> map_of servers k \<noteq> None \<Longrightarrow> k = sys_id a \<or> k = sys_id b"
    using keys0 [of k] unfolding wrap by (auto split: if_splits)
  show "has_landing wrap endpoints (sys_id a) \<or> has_landing wrap endpoints (sys_id b) \<longleftrightarrow>
      can_reach an bn \<or> can_reach bn an"
  proof (cases "wrap = WrapUdp")
    case True
    then show ?thesis using udp_keys [of "sys_id a"] udp_keys [of "sys_id b"] assms(5) by auto
  next
    case False
    then have w: "wrap = WrapFakeTcp servers0" and ft: "fake_port an \<noteq> None \<or> fake_port bn \<noteq> None"
      unfolding wrap by (auto split: if_splits)
    show ?thesis unfolding w has_landing.simps keys0 using ft assms(5) by blast
  qed
qed


section \<open>The mesh\<close>

lemma index_pairs_sorted:
  assumes "sorted_wrt R xs"
  shows "set (index_pairs xs) = {(x, y). \<exists>i j. i < j \<and> j < length xs \<and> x = xs ! i \<and> y = xs ! j}"
proof (induction xs)
  case (Cons z zs)
  have "(x, y) \<in> set (index_pairs (z # zs)) \<longleftrightarrow>
      (\<exists>i j. i < j \<and> j < length (z # zs) \<and> x = (z # zs) ! i \<and> y = (z # zs) ! j)" for x y
  proof
    assume "(x, y) \<in> set (index_pairs (z # zs))"
    then consider "x = z" "y \<in> set zs" | "(x, y) \<in> set (index_pairs zs)" by auto
    then show "\<exists>i j. i < j \<and> j < length (z # zs) \<and> x = (z # zs) ! i \<and> y = (z # zs) ! j"
    proof cases
      case 1
      then obtain j where "j < length zs" "y = zs ! j" by (auto simp: in_set_conv_nth)
      then show ?thesis using 1(1) by (intro exI [of _ 0] exI [of _ "Suc j"]) simp
    next
      case 2
      then obtain i j where "i < j" "j < length zs" "x = zs ! i" "y = zs ! j" using Cons.IH by auto
      then show ?thesis by (intro exI [of _ "Suc i"] exI [of _ "Suc j"]) simp
    qed
  next
    assume "\<exists>i j. i < j \<and> j < length (z # zs) \<and> x = (z # zs) ! i \<and> y = (z # zs) ! j"
    then obtain i j where ij: "i < j" "j < length (z # zs)" "x = (z # zs) ! i" "y = (z # zs) ! j" by blast
    then obtain j' where j: "j = Suc j'" "j' < length zs" "y = zs ! j'" by (cases j) auto
    show "(x, y) \<in> set (index_pairs (z # zs))"
    proof (cases i)
      case 0
      then show ?thesis using ij j by auto
    next
      case (Suc i')
      then have "(x, y) \<in> set (index_pairs zs)" using ij j Cons.IH by auto
      then show ?thesis by simp
    qed
  qed
  note mem = this
  show ?case
  proof (rule set_eqI)
    fix p show "p \<in> set (index_pairs (z # zs)) \<longleftrightarrow>
        p \<in> {(x, y). \<exists>i j. i < j \<and> j < length (z # zs) \<and> x = (z # zs) ! i \<and> y = (z # zs) ! j}"
      by (cases p) (simp only: mem mem_Collect_eq prod.case)
  qed
qed simp

lemma index_pairs_strict:
  fixes f :: "'a \<Rightarrow> 'b::linorder"
  assumes "sorted (map f xs)" and "distinct (map f xs)"
  shows "(x, y) \<in> set (index_pairs xs) \<longleftrightarrow> x \<in> set xs \<and> y \<in> set xs \<and> f x < f y"
proof -
  have less: "f (xs ! i) < f (xs ! j)" if "i < j" "j < length xs" for i j
    using that sorted_nth_mono [OF assms(1), of i j] nth_eq_iff_index_eq [OF assms(2), of i j]
    by (simp add: order_less_le)
  then have mono: "i < j \<longleftrightarrow> f (xs ! i) < f (xs ! j)" if "i < length xs" "j < length xs" for i j
    using that by (metis linorder_neqE_nat order_less_asym order_less_irrefl)
  have "(x, y) \<in> set (index_pairs xs) \<longleftrightarrow> (\<exists>i j. i < j \<and> j < length xs \<and> x = xs ! i \<and> y = xs ! j)"
    using index_pairs_sorted [of "\<lambda>_ _. True" xs] by (simp add: sorted_wrt_true)
  also have "\<dots> \<longleftrightarrow> x \<in> set xs \<and> y \<in> set xs \<and> f x < f y" (is "?l \<longleftrightarrow> ?r")
  proof
    assume ?l
    then show ?r using less by auto
  next
    assume ?r
    then obtain i j where ij: "i < length xs" "x = xs ! i" "j < length xs" "y = xs ! j" "f x < f y"
      by (auto simp: in_set_conv_nth)
    then have "i < j" using mono by simp
    then show ?l using ij by blast
  qed
  finally show ?thesis .
qed

definition live_member :: "model_snapshot \<Rightarrow> node \<Rightarrow> bool" where
  "live_member doc n \<longleftrightarrow> n \<in> set (sn_nodes doc) \<and> \<not> node_retired n \<and> node_overlay n"

definition link_disabled :: "model_snapshot \<Rightarrow> string \<Rightarrow> string \<Rightarrow> bool" where
  "link_disabled doc x y \<longleftrightarrow> (\<exists>l \<in> set (ov_disabled_links (ms_overlay (sn_settings doc))).
     {dl_a l, dl_b l} = {x, y} \<and> (x = y \<longrightarrow> dl_a l = dl_b l))"

lemma disabled_links_iff:
  assumes "x < y"
  shows "(x, y) \<in> set (disabled_links doc) \<longleftrightarrow> link_disabled doc x y"
  using assms unfolding disabled_links_def set_bset link_disabled_def set_map image_iff
  by (intro bex_cong refl) (auto simp: doubleton_eq_iff)

definition mesh_members :: "model_snapshot \<Rightarrow> system_node list" where
  "mesh_members doc = filter (\<lambda>n. sys_wireguard n \<noteq> None) (system_nodes doc)"

lemma system_node_of_fields [simp]:
  "sys_id (system_node_of doc n) = node_id n" "sys_wireguard (system_node_of doc n) \<noteq> None \<longleftrightarrow> node_overlay n"
  "sys_wireguard (system_node_of doc n) = None \<longleftrightarrow> \<not> node_overlay n"
  by (simp_all add: system_node_of_def Let_def)

lemma mesh_members_set: "set (mesh_members doc) = system_node_of doc ` {n. live_member doc n}"
  unfolding mesh_members_def system_nodes_def filter_sort set_sort filter_map set_map comp_def
    system_node_of_fields(2) live_member_def
  by (rule arg_cong [of _ _ "\<lambda>S. system_node_of doc ` S"]) auto

lemma mesh_members_sorted:
  assumes "distinct (map node_id (sn_nodes doc))"
  shows "sorted (map sys_id (mesh_members doc))" and "distinct (map sys_id (mesh_members doc))"
proof -
  have sub: "distinct (map f (filter P xs))" if "distinct (map f xs)" for f :: "'x \<Rightarrow> 'y" and P xs
    using that by (induction xs) auto
  show "sorted (map sys_id (mesh_members doc))"
    unfolding mesh_members_def by (rule sorted_filter) (simp add: system_nodes_def)
  have "distinct (map sys_id (map (system_node_of doc) (filter P (sn_nodes doc))))" for P
    using sub [OF assms] by (simp add: comp_def)
  then have "distinct (map sys_id (system_nodes doc))"
    unfolding system_nodes_def by (metis (no_types, lifting) distinct_map distinct_sort set_sort)
  then show "distinct (map sys_id (mesh_members doc))" unfolding mesh_members_def by (rule sub)
qed

lemma mesh_pairs:
  assumes "distinct (map node_id (sn_nodes doc))"
  shows "p \<in> set (index_pairs (mesh_members doc)) \<longleftrightarrow> (\<exists>an bn. p = (system_node_of doc an, system_node_of doc bn) \<and>
    live_member doc an \<and> live_member doc bn \<and> node_id an < node_id bn)"
  (is "?l \<longleftrightarrow> ?r")
proof -
  obtain a b where p: "p = (a, b)" by (cases p)
  note strict = index_pairs_strict [OF mesh_members_sorted [OF assms], of a b]
  show ?thesis
  proof
    assume ?l
    then have "a \<in> set (mesh_members doc)" "b \<in> set (mesh_members doc)" "sys_id a < sys_id b"
      using strict p by simp_all
    then obtain an bn where "a = system_node_of doc an" "live_member doc an" "b = system_node_of doc bn" "live_member doc bn"
      unfolding mesh_members_set by blast
    with \<open>sys_id a < sys_id b\<close> show ?r unfolding p by auto
  next
    assume ?r
    then show ?l unfolding p strict mesh_members_set by auto
  qed
qed

lemma si_links_set:
  "set (si_links (snd (compile_system doc))) =
     {l. \<exists>p \<in> set (index_pairs (mesh_members doc)). snd (link_step doc (disabled_links doc) p) = Some l}"
  by (force simp: compile_system_def Let_def mesh_members_def List.map_filter_def)

lemma live_member_found:
  "distinct (map node_id (sn_nodes doc)) \<Longrightarrow> live_member doc n \<Longrightarrow> find_node doc (node_id n) = Some n"
  by (simp add: find_node_Some live_member_def)

lemma link_step_Some:
  assumes "distinct (map node_id (sn_nodes doc))" and "live_member doc an" and "live_member doc bn"
    and "node_id an < node_id bn"
  shows "(\<exists>l. snd (link_step doc (disabled_links doc) (system_node_of doc an, system_node_of doc bn)) = Some l) \<longleftrightarrow>
      \<not> link_disabled doc (node_id an) (node_id bn) \<and> (can_reach an bn \<or> can_reach bn an)"
    and "snd (link_step doc (disabled_links doc) (system_node_of doc an, system_node_of doc bn)) = Some l \<Longrightarrow>
      link_a l = node_id an \<and> link_b l = node_id bn \<and> landings_ok an bn (link_endpoints l) \<and>
      (\<forall>servers. link_wrap l = WrapFakeTcp servers \<longrightarrow> landings_ok an bn servers) \<and>
      (link_dial l \<noteq> BtoA \<longleftrightarrow> has_landing (link_wrap l) (link_endpoints l) (node_id bn)) \<and>
      (link_dial l \<noteq> AtoB \<longleftrightarrow> has_landing (link_wrap l) (link_endpoints l) (node_id an))"
proof -
  let ?a = "system_node_of doc an" and ?b = "system_node_of doc bn"
  have ne: "sys_id ?a \<noteq> sys_id ?b" using assms(4) by simp
  have fa: "find_node doc (sys_id ?a) = Some an" "find_node doc (sys_id ?b) = Some bn"
    using live_member_found [OF assms(1)] assms(2,3) by simp_all
  note wrap = link_wrap_facts [OF fa _ _ ne, simplified]
  note dis = disabled_links_iff [OF assms(4), of doc]
  show "(\<exists>l. snd (link_step doc (disabled_links doc) (?a, ?b)) = Some l) \<longleftrightarrow>
      \<not> link_disabled doc (node_id an) (node_id bn) \<and> (can_reach an bn \<or> can_reach bn an)"
    using wrap(1) dis by (auto simp: link_step_def Let_def split: prod.splits)
  show "link_a l = node_id an \<and> link_b l = node_id bn \<and> landings_ok an bn (link_endpoints l) \<and>
      (\<forall>servers. link_wrap l = WrapFakeTcp servers \<longrightarrow> landings_ok an bn servers) \<and>
      (link_dial l \<noteq> BtoA \<longleftrightarrow> has_landing (link_wrap l) (link_endpoints l) (node_id bn)) \<and>
      (link_dial l \<noteq> AtoB \<longleftrightarrow> has_landing (link_wrap l) (link_endpoints l) (node_id an))"
    if "snd (link_step doc (disabled_links doc) (?a, ?b)) = Some l"
    using that wrap(2,3) by (auto simp: link_step_def Let_def split: prod.splits if_splits)
qed

lemma mesh_links_iff:
  assumes "distinct (map node_id (sn_nodes doc))"
  shows "(\<exists>l \<in> set (si_links (snd (compile_system doc))). link_a l = x \<and> link_b l = y) \<longleftrightarrow>
    (\<exists>an bn. live_member doc an \<and> live_member doc bn \<and> node_id an = x \<and> node_id bn = y \<and> x < y \<and>
      \<not> link_disabled doc x y \<and> (can_reach an bn \<or> can_reach bn an))"
  (is "?l \<longleftrightarrow> ?r")
proof
  assume ?l
  then obtain l p where p: "p \<in> set (index_pairs (mesh_members doc))" and l: "snd (link_step doc (disabled_links doc) p) = Some l"
    and xy: "link_a l = x" "link_b l = y"
    unfolding si_links_set by blast
  from p obtain an bn where ab: "p = (system_node_of doc an, system_node_of doc bn)"
    "live_member doc an" "live_member doc bn" "node_id an < node_id bn"
    unfolding mesh_pairs [OF assms] by blast
  note step = link_step_Some [OF assms ab(2-4)]
  have "node_id an = x" "node_id bn = y" using step(2) [OF l [unfolded ab(1)]] xy by simp_all
  moreover have "\<not> link_disabled doc (node_id an) (node_id bn)" "can_reach an bn \<or> can_reach bn an"
    using step(1) l [unfolded ab(1)] by blast+
  ultimately show ?r using ab by blast
next
  assume ?r
  then obtain an bn where ab: "live_member doc an" "live_member doc bn" "node_id an < node_id bn"
    and xy: "node_id an = x" "node_id bn = y"
    and ok: "\<not> link_disabled doc (node_id an) (node_id bn)" "can_reach an bn \<or> can_reach bn an"
    by blast
  note step = link_step_Some [OF assms ab]
  from step(1) ok obtain l where l: "snd (link_step doc (disabled_links doc) (system_node_of doc an, system_node_of doc bn)) = Some l"
    by blast
  have "(system_node_of doc an, system_node_of doc bn) \<in> set (index_pairs (mesh_members doc))"
    unfolding mesh_pairs [OF assms] using ab by blast
  with l have "l \<in> set (si_links (snd (compile_system doc)))" unfolding si_links_set by blast
  then show ?l using step(2) [OF l] xy by blast
qed


text \<open>C10: in a model whose machines have identities of their own the mesh is complete and nothing more: two machines get a link exactly when both are on the overlay and in service, the operator has not disabled the pair in either order, and at least one of them has an address outside NAT in a family the other one uses.\<close>

theorem mesh_links_exact:
  assumes "distinct (map node_id (sn_nodes doc))"
  shows "(\<exists>l \<in> set (si_links (snd (compile_system doc))). link_a l = x \<and> link_b l = y) \<longleftrightarrow>
    (\<exists>an bn. live_member doc an \<and> live_member doc bn \<and> node_id an = x \<and> node_id bn = y \<and> x < y \<and>
      \<not> link_disabled doc x y \<and> (can_reach an bn \<or> can_reach bn an))"
  using assms by (rule mesh_links_iff)

lemma link_between:
  assumes "distinct (map node_id (sn_nodes doc))" and "l \<in> set (si_links (snd (compile_system doc)))"
  obtains an bn where "live_member doc an" "live_member doc bn" "link_a l = node_id an" "link_b l = node_id bn"
    "landings_ok an bn (link_endpoints l)" "\<forall>servers. link_wrap l = WrapFakeTcp servers \<longrightarrow> landings_ok an bn servers"
    "link_dial l \<noteq> BtoA \<longleftrightarrow> has_landing (link_wrap l) (link_endpoints l) (link_b l)"
    "link_dial l \<noteq> AtoB \<longleftrightarrow> has_landing (link_wrap l) (link_endpoints l) (link_a l)"
proof -
  from assms(2) obtain p where p: "p \<in> set (index_pairs (mesh_members doc))"
    and l: "snd (link_step doc (disabled_links doc) p) = Some l"
    unfolding si_links_set by blast
  from p obtain an bn where ab: "p = (system_node_of doc an, system_node_of doc bn)"
    "live_member doc an" "live_member doc bn" "node_id an < node_id bn"
    unfolding mesh_pairs [OF assms(1)] by blast
  note step = link_step_Some(2) [OF assms(1) ab(2-4) l [unfolded ab(1)]]
  show ?thesis by (rule that [OF ab(2,3)]) (use step in auto)
qed

text \<open>C37: no link ever dials an address behind NAT: every endpoint and every fake-TCP server of a link stands on one of its two ends, at an address that machine holds itself, and the dial direction of the link allows dialing that end.\<close>

theorem links_land_on_open_addresses:
  assumes "distinct (map node_id (sn_nodes doc))" and "l \<in> set (si_links (snd (compile_system doc)))"
    and "map_of (case link_wrap l of WrapUdp \<Rightarrow> link_endpoints l | WrapFakeTcp servers \<Rightarrow> servers) k = Some v"
  shows "\<exists>t host p. live_member doc t \<and> node_id t = k \<and> k \<in> {link_a l, link_b l} \<and>
    open_address t host \<and> v = host_port host p \<and>
    (k = link_a l \<longrightarrow> link_dial l \<noteq> AtoB) \<and> (k = link_b l \<longrightarrow> link_dial l \<noteq> BtoA)"
proof -
  obtain an bn where ab: "live_member doc an" "live_member doc bn" "link_a l = node_id an" "link_b l = node_id bn"
    and ok: "landings_ok an bn (link_endpoints l)" "\<forall>servers. link_wrap l = WrapFakeTcp servers \<longrightarrow> landings_ok an bn servers"
    and dial: "link_dial l \<noteq> BtoA \<longleftrightarrow> has_landing (link_wrap l) (link_endpoints l) (link_b l)"
      "link_dial l \<noteq> AtoB \<longleftrightarrow> has_landing (link_wrap l) (link_endpoints l) (link_a l)"
    by (rule link_between [OF assms(1,2)])
  have has: "has_landing (link_wrap l) (link_endpoints l) k"
    using assms(3) by (cases "link_wrap l") auto
  have "landings_ok an bn (case link_wrap l of WrapUdp \<Rightarrow> link_endpoints l | WrapFakeTcp servers \<Rightarrow> servers)"
    using ok by (cases "link_wrap l") auto
  then obtain t host p where t: "t \<in> {an, bn}" "node_id t = k" "open_address t host" "v = host_port host p"
    using assms(3) unfolding landings_ok_def by blast
  have "live_member doc t" "k \<in> {link_a l, link_b l}" using t(1,2) ab by auto
  moreover have "k = link_a l \<longrightarrow> link_dial l \<noteq> AtoB" "k = link_b l \<longrightarrow> link_dial l \<noteq> BtoA"
    using has dial by auto
  ultimately show ?thesis using t by blast
qed

lemma compile_system_nodes:
  "si_nodes (snd (compile_system doc)) = assign_server_listen_ports doc
     (List.map_filter snd (map (link_step doc (disabled_links doc)) (index_pairs (mesh_members doc)))) (system_nodes doc)"
  by (simp add: compile_system_def Let_def mesh_members_def)

lemma compile_system_links:
  "set (si_links (snd (compile_system doc))) =
     set (List.map_filter snd (map (link_step doc (disabled_links doc)) (index_pairs (mesh_members doc))))"
  by (simp add: compile_system_def Let_def mesh_members_def)

lemma server_host_listens:
  assumes "distinct (map node_id (sn_nodes doc))" and "l \<in> set (si_links (snd (compile_system doc)))"
    and "link_wrap l = WrapFakeTcp servers" and "map_of servers k \<noteq> None"
  shows "\<exists>n wg p. n \<in> set (si_nodes (snd (compile_system doc))) \<and> sys_id n = k \<and>
    sys_wireguard n = Some wg \<and> wi_listen_port wg = Some p"
proof -
  let ?links = "List.map_filter snd (map (link_step doc (disabled_links doc)) (index_pairs (mesh_members doc)))"
  obtain an bn where ab: "live_member doc an" "live_member doc bn"
    and ok: "\<forall>servers. link_wrap l = WrapFakeTcp servers \<longrightarrow> landings_ok an bn servers"
    by (rule link_between [OF assms(1,2)])
  obtain t where t: "t \<in> {an, bn}" "node_id t = k"
    using ok assms(3,4) unfolding landings_ok_def by blast
  then have live: "live_member doc t" using ab by blast
  have host: "k \<in> set (server_hosts ?links)"
  proof -
    obtain v where "(k, v) \<in> set servers" using assms(4) by (metis map_of_SomeD option.exhaust)
    then have "k \<in> set (map fst servers)" by force
    moreover have "l \<in> set ?links" using assms(2) unfolding compile_system_links .
    ultimately show ?thesis using assms(3) unfolding server_hosts_def set_bset set_concat set_map by force
  qed
  have "system_node_of doc t \<in> set (mesh_members doc)" using live by (simp add: mesh_members_set)
  then have mem: "system_node_of doc t \<in> set (system_nodes doc)" by (simp add: mesh_members_def)
  obtain wg where wg: "sys_wireguard (system_node_of doc t) = Some wg"
    using live by (metis live_member_def not_None_eq system_node_of_fields(2))
  have found: "find_node doc k = Some t" using live_member_found [OF assms(1) live] t(2) by simp
  define n where "n = (if wi_listen_port wg = None
    then (system_node_of doc t)\<lparr>sys_wireguard := Some (wg\<lparr>wi_listen_port := Some (wg_listen_port (node_wireguard t))\<rparr>)\<rparr>
    else system_node_of doc t)"
  have "n \<in> set (si_nodes (snd (compile_system doc)))"
    unfolding compile_system_nodes assign_server_listen_ports_def Let_def set_map
    by (rule image_eqI [OF _ mem]) (simp add: t(2) host wg found n_def)
  moreover have "sys_id n = k" by (simp add: n_def t(2))
  moreover have "\<exists>wg p. sys_wireguard n = Some wg \<and> wi_listen_port wg = Some p"
    using wg by (auto simp: n_def)
  ultimately show ?thesis by blast
qed

text \<open>C38: every machine that hosts a fake-TCP server has a fixed WireGuard port for the server to forward to, whatever its own transport would have left open.\<close>

theorem server_hosts_listen:
  assumes "distinct (map node_id (sn_nodes doc))" and "l \<in> set (si_links (snd (compile_system doc)))"
    and "link_wrap l = WrapFakeTcp servers" and "map_of servers k \<noteq> None"
  shows "\<exists>n wg p. n \<in> set (si_nodes (snd (compile_system doc))) \<and> sys_id n = k \<and>
    sys_wireguard n = Some wg \<and> wi_listen_port wg = Some p"
  by (rule server_host_listens [OF assms])

section \<open>A two-machine mesh\<close>

definition sample_node :: "string \<Rightarrow> string option \<Rightarrow> wg_transport \<Rightarrow> node" where
  "sample_node nid v4 transport =
     \<lparr>node_id = nid, node_tenant = ''t'', node_name = nid, node_public_ipv4 = v4, node_public_ipv6 = None,
      node_public_ipv4_nat = False, node_public_ipv6_nat = False, node_overlay_addr = 1,
      node_certificate_name = None, node_certificate_names = [], node_certificate_group_id = None,
      node_certificate_track = None,
      node_wireguard = \<lparr>wg_private_key = ''k'', wg_public_key = ''p'', wg_listen_port = 51820, wg_transport = transport\<rparr>,
      node_api_port = None, node_overlay = True, node_egress_allowed = True, node_dns = DnsSystem,
      node_domain_strategy = UseIp, node_retired = False, node_mtu = None,
      node_connection = \<lparr>nc_conn_idle_secs = None, nc_uplink_only_secs = None, nc_downlink_only_secs = None, nc_buffer_size_kb = None\<rparr>\<rparr>"

definition sample_snapshot :: "node list \<Rightarrow> app_view list \<Rightarrow> model_snapshot" where
  "sample_snapshot nodes apps =
     \<lparr>sn_revision = 1, sn_overlay_cidr = \<lparr>net_addr = 0, net_prefix_len = 8\<rparr>, sn_settings = model_settings_default,
      sn_nodes = nodes, sn_node_egress_dns = [], sn_users = [], sn_external_outbounds = [], sn_apps = apps\<rparr>"

definition sample_mesh :: model_snapshot where
  "sample_mesh = sample_snapshot [sample_node ''a'' None (FakeTcp 4000), sample_node ''b'' (Some ''h'') WgUdp] []"

lemma sample_mesh_ids: "distinct (map node_id (sn_nodes sample_mesh))"
  by (simp add: sample_mesh_def sample_snapshot_def sample_node_def)

lemma sample_mesh_facts:
  "live_member sample_mesh (sample_node ''a'' None (FakeTcp 4000))" "live_member sample_mesh (sample_node ''b'' (Some ''h'') WgUdp)"
  "\<not> link_disabled sample_mesh ''a'' ''b''"
  "can_reach (sample_node ''a'' None (FakeTcp 4000)) (sample_node ''b'' (Some ''h'') WgUdp)"
  by (simp_all add: live_member_def link_disabled_def can_reach_def sample_mesh_def sample_snapshot_def sample_node_def
      model_settings_default_def overlay_settings_default_def open_ipv4_def)

lemma sample_ids: "node_id (sample_node nid v4 tr) = nid"
  by (simp add: sample_node_def)

lemma sample_less: "''a'' < ''b''"
  by code_simp

theorem mesh_links_exact_witness:
  "\<exists>l. l \<in> set (si_links (snd (compile_system sample_mesh))) \<and> link_a l = ''a'' \<and> link_b l = ''b''"
proof -
  have "\<exists>l \<in> set (si_links (snd (compile_system sample_mesh))). link_a l = ''a'' \<and> link_b l = ''b''"
    unfolding mesh_links_exact [OF sample_mesh_ids] using sample_mesh_facts sample_ids sample_less by blast
  then show ?thesis by blast
qed

lemma sample_mesh_link:
  obtains l servers v where "l \<in> set (si_links (snd (compile_system sample_mesh)))" "link_a l = ''a''" "link_b l = ''b''"
    "link_wrap l = WrapFakeTcp servers" "map_of servers ''b'' = Some v"
proof -
  let ?an = "sample_node ''a'' None (FakeTcp 4000)" and ?bn = "sample_node ''b'' (Some ''h'') WgUdp"
  have less: "node_id ?an < node_id ?bn" unfolding sample_ids by (rule sample_less)
  note step = link_step_Some [OF sample_mesh_ids sample_mesh_facts(1,2) less]
  let ?a = "system_node_of sample_mesh ?an" and ?b = "system_node_of sample_mesh ?bn"
  obtain l where l: "snd (link_step sample_mesh (disabled_links sample_mesh) (?a, ?b)) = Some l"
    using step(1) sample_mesh_facts(3,4) unfolding sample_ids by blast
  have fa: "find_node sample_mesh ''a'' = Some ?an" "find_node sample_mesh ''b'' = Some ?bn"
    using live_member_found [OF sample_mesh_ids sample_mesh_facts(1)]
      live_member_found [OF sample_mesh_ids sample_mesh_facts(2)] unfolding sample_ids by blast+
  obtain e where e: "public_endpoint_for ?an ?bn 4000 = Some e"
    using public_endpoint_for_None [of ?an ?bn 4000] sample_mesh_facts(4) by blast
  have none: "public_endpoint_for ?bn ?an 4000 = None"
    by (simp add: public_endpoint_for_None can_reach_def open_ipv4_def open_ipv6_def sample_node_def)
  have "link_wrap_of sample_mesh ?a ?b = ([], WrapFakeTcp [(''b'', e)])"
  proof -
    have ft: "fake_port ?an = Some 4000" "fake_port ?bn = None" by (simp_all add: fake_port_def sample_node_def)
    show ?thesis by (simp add: link_wrap_of_def fa Let_def ft place_server_def sample_ids e none)
  qed
  then have "link_wrap l = WrapFakeTcp [(''b'', e)]"
    using l by (auto simp: link_step_def Let_def split: if_splits)
  moreover have "l \<in> set (si_links (snd (compile_system sample_mesh)))"
    unfolding si_links_set mem_Collect_eq
    by (rule bexI [of _ "(?a, ?b)"], rule l) (use mesh_pairs [OF sample_mesh_ids] sample_mesh_facts(1,2) less in blast)
  ultimately show ?thesis using that step(2) [OF l] by (simp add: sample_ids)
qed

theorem links_land_on_open_addresses_witness:
  "\<exists>t host. live_member sample_mesh t \<and> node_id t = ''b'' \<and> open_address t host"
proof -
  obtain l servers v where l: "l \<in> set (si_links (snd (compile_system sample_mesh)))"
    "link_wrap l = WrapFakeTcp servers" "map_of servers ''b'' = Some v"
    by (rule sample_mesh_link)
  have "map_of (case link_wrap l of WrapUdp \<Rightarrow> link_endpoints l | WrapFakeTcp servers \<Rightarrow> servers) ''b'' = Some v"
    unfolding l(2) link_wrap.case by (rule l(3))
  from links_land_on_open_addresses [OF sample_mesh_ids l(1) this] show ?thesis by blast
qed

theorem server_hosts_listen_witness:
  "\<exists>n wg p. n \<in> set (si_nodes (snd (compile_system sample_mesh))) \<and> sys_id n = ''b'' \<and>
    sys_wireguard n = Some wg \<and> wi_listen_port wg = Some p"
proof -
  obtain l servers v where l: "l \<in> set (si_links (snd (compile_system sample_mesh)))"
    "link_wrap l = WrapFakeTcp servers" "map_of servers ''b'' = Some v"
    by (rule sample_mesh_link)
  have "map_of servers ''b'' \<noteq> None" unfolding l(3) by (rule option.distinct)
  from server_hosts_listen [OF sample_mesh_ids l(1,2) this] show ?thesis .
qed

end
