(* ===== verification/Hops.thy ===== *)
theory Hops
  imports App_Ir System_Ir
begin

text \<open>
  Relay hops, brocade-core/src/ir/hops.rs: every forwarding rule of a compiled project becomes one
  dialable hop, or a diagnostic. A step of the loop gives the diagnostics it reports and the hop
  table after it.
\<close>

definition dialable_public_host :: "app_node \<Rightarrow> ip_family \<Rightarrow> string option" where
  "dialable_public_host n family =
     (let (host, nat) = (case family of V4 \<Rightarrow> (an_public_ipv4 n, an_public_ipv4_nat n)
        | V6 \<Rightarrow> (an_public_ipv6 n, an_public_ipv6_nat n))
      in if nat then None else case host of Some h \<Rightarrow> if h \<noteq> [] then Some h else None | None \<Rightarrow> None)"

definition public_match :: "app_node \<Rightarrow> string \<Rightarrow> (ip_family \<times> string) option" where
  "public_match n host =
     (if \<not> an_public_ipv4_nat n \<and> an_public_ipv4 n = Some host then Some (V4, host)
      else if \<not> an_public_ipv6_nat n \<and> an_public_ipv6 n = Some host then Some (V6, host) else None)"

definition nat_public_match :: "app_node \<Rightarrow> string \<Rightarrow> (ip_family \<times> string) option" where
  "nat_public_match n host =
     (if an_public_ipv4_nat n \<and> an_public_ipv4 n = Some host then Some (V4, host)
      else if an_public_ipv6_nat n \<and> an_public_ipv6 n = Some host then Some (V6, host) else None)"

definition malformed :: "string \<Rightarrow> string \<Rightarrow> string \<Rightarrow> string \<Rightarrow> diagnostic list" where
  "malformed code at raw why = [diagnostic_error code at (Msg why [raw])]"

definition parse_addr :: "string \<Rightarrow> string \<Rightarrow> diagnostic list \<times> (string \<times> u16 \<times> hop_path) option" where
  "parse_addr at raw0 =
     (let raw = trim raw0; bad = (\<lambda>why. (malformed ''hop.dial-malformed'' at raw why, None));
          cut = (case strip_prefix ''['' raw of
              Some rest \<Rightarrow> (case split_once '']:'' rest of None \<Rightarrow> Inl ''IPv6 is written [addr]:port'' | Some hp \<Rightarrow> Inr hp)
            | None \<Rightarrow>
                (case rsplit_once (CHR '':'') raw of
                   None \<Rightarrow> Inl ''no port''
                 | Some (host, port) \<Rightarrow>
                     if contains_str host '':'' \<and> parse_ipv6 host \<noteq> None then Inl ''IPv6 is written [addr]:port''
                     else Inr (host, port)))
      in case cut of
           Inl why \<Rightarrow> bad why
         | Inr (host, port) \<Rightarrow>
             if trim host = [] then bad ''no host''
             else (case parse_u16 (trim port) of
                None \<Rightarrow> bad ''the port is not 1..=65535''
              | Some p \<Rightarrow> if p = 0 then bad ''the port is 0'' else ([], Some (trim host, of_nat p, PathDirect))))"

definition parse_listener_host :: "string \<Rightarrow> string \<Rightarrow> diagnostic list \<times> string option" where
  "parse_listener_host at raw =
     (let host = trim raw; bad = (\<lambda>why. (malformed ''listener.dial-malformed'' at host why, None))
      in if host = [] then bad ''no host''
         else if has_whitespace host then bad ''white space in the host''
         else if starts_with host ''['' \<or> ends_with host '']'' then bad ''no brackets here''
         else if contains_str host '':'' \<and> parse_ipv6 host = None then bad ''no port here''
         else ([], Some host))"

record hop_endpoints =
  he_source :: "app_node option"
  he_target :: "app_node option"
  he_target_overlay :: "u32 option"
  he_source_on_overlay :: bool
  he_linked :: bool

definition unreachable :: "string \<Rightarrow> string \<Rightarrow> string list \<Rightarrow> diagnostic list \<times> (string \<times> u16 \<times> hop_path) option" where
  "unreachable at why names = ([diagnostic_error ''hop.unreachable'' at (Msg why names)], None)"

definition nat_public :: "string \<Rightarrow> string \<Rightarrow> string \<Rightarrow> diagnostic list \<times> (string \<times> u16 \<times> hop_path) option" where
  "nat_public at to address = ([diagnostic_error ''hop.nat-public'' at (Msg ''an address behind NAT cannot be dialed'' [to, address])], None)"

definition dial_overlay ::
  "string \<Rightarrow> string \<Rightarrow> string \<Rightarrow> ir_hop_in \<Rightarrow> hop_endpoints \<Rightarrow> diagnostic list \<times> (string \<times> u16 \<times> hop_path) option" where
  "dial_overlay at from to entry ends =
     (case he_target_overlay ends of
        Some addr \<Rightarrow>
          (if he_source_on_overlay ends \<and> he_linked ends then ([], Some (show_ipv4 addr, ih_port entry, PathOverlay))
           else if he_source_on_overlay ends then unreachable at ''no link between the two'' [from, to]
           else unreachable at ''the dialer is not on the overlay'' [from, to])
      | None \<Rightarrow> unreachable at ''the target is not on the overlay'' [to])"

fun dial_target ::
  "string \<Rightarrow> string \<Rightarrow> string \<Rightarrow> relay_dial_ref \<Rightarrow> ir_hop_in \<Rightarrow> hop_endpoints \<Rightarrow>
     diagnostic list \<times> (string \<times> u16 \<times> hop_path) option" where
  "dial_target at from to (ForwardDial DialOverlay) entry ends = dial_overlay at from to entry ends"
| "dial_target at from to (ListenerDial ListenOverlay) entry ends = dial_overlay at from to entry ends"
| "dial_target at from to (ForwardDial (DialAddr raw)) entry ends =
     (case parse_addr at raw of
        (ds, None) \<Rightarrow> (ds, None)
      | (ds, Some (host, port, path)) \<Rightarrow>
          (case he_target ends of
             None \<Rightarrow> (ds, Some (host, port, path))
           | Some n \<Rightarrow>
               (case nat_public_match n host of
                  Some (family, address) \<Rightarrow> nat_public at to address
                | None \<Rightarrow>
                    if public_match n host \<noteq> None then ([], Some (host, ih_port entry, path))
                    else ([], Some (host, port, path)))))"
| "dial_target at from to (ListenerDial (ListenPublic family)) entry ends =
     (case he_target ends of
        None \<Rightarrow> unreachable at ''the target is not in this project'' [to]
      | Some n \<Rightarrow>
          (case dialable_public_host n family of
             None \<Rightarrow> unreachable at ''the target has no address to dial'' [to]
           | Some host \<Rightarrow> ([], Some (host, ih_port entry, PathDirect))))"
| "dial_target at from to (ListenerDial (ListenAddr raw)) entry ends =
     (case parse_listener_host at raw of
        (ds, None) \<Rightarrow> (ds, None)
      | (ds, Some host) \<Rightarrow>
          (case Option.bind (he_target ends) (\<lambda>n. nat_public_match n host) of
             Some (family, address) \<Rightarrow> nat_public at to address
           | None \<Rightarrow> ([], Some (host, ih_port entry, PathDirect))))"
| "dial_target at from to (ForwardDial (DialReverse family)) entry ends =
     (case he_source ends of
        None \<Rightarrow> unreachable at ''the source is not in this project'' [from]
      | Some n \<Rightarrow>
          (case dialable_public_host n family of
             None \<Rightarrow> unreachable at ''the source has no address to be dialed at'' [from, to]
           | Some host \<Rightarrow> ([], Some (host, ih_port entry, PathReverse))))"

fun dial_wire :: "hop_wire \<Rightarrow> hop_dial_wire" where
  "dial_wire HopPlain = HdwPlain"
| "dial_wire (HopEncrypted e) = HdwEncryption (he_public_key e)"
| "dial_wire (HopReality r) =
     HdwReality (re_public_key r) (case re_server_names r of [] \<Rightarrow> [] | n # _ \<Rightarrow> n)
       (case re_short_ids r of [] \<Rightarrow> [] | n # _ \<Rightarrow> n) (re_fingerprint r)"
| "dial_wire (HopShadowsocks2022 server_psk user_psk) = HdwShadowsocks2022 server_psk user_psk"

definition credential_of :: "ir_accept \<Rightarrow> hop_credential" where
  "credential_of a = \<lparr>hc_uuid = ia_uuid a, hc_label = ia_label a\<rparr>"

definition link_key :: "string \<Rightarrow> string \<Rightarrow> string" where
  "link_key a b = (if a \<le> b then a @ ''|'' @ b else b @ ''|'' @ a)"

type_synonym hop_key = "string \<times> string \<times> string \<times> string"

definition hop_ends :: "app_ir \<Rightarrow> system_ir \<Rightarrow> string \<Rightarrow> string \<Rightarrow> hop_endpoints" where
  "hop_ends app sys from to =
     \<lparr>he_source = find (\<lambda>n. an_id n = from) (ai_nodes app),
      he_target = find (\<lambda>n. an_id n = to) (ai_nodes app),
      he_target_overlay = Option.bind (find (\<lambda>n. sys_id n = to) (si_nodes sys)) sys_overlay_addr,
      he_source_on_overlay = list_ex (\<lambda>n. sys_id n = from \<and> sys_overlay_addr n \<noteq> None) (si_nodes sys),
      he_linked = list_ex (\<lambda>l. link_a l = from \<and> link_b l = to \<or> link_a l = to \<and> link_b l = from) (si_links sys)\<rparr>"

definition hop_location :: "ir_step \<Rightarrow> forward_action_ref \<Rightarrow> string" where
  "hop_location s f =
     (if fa_reused f then is_chain s @ ''/'' @ is_node s @ ''->listener:'' @ fa_target_chain f @ ''/'' @ fa_target_node f
      else is_chain s @ ''/'' @ is_node s @ ''->'' @ fa_target_node f)"

text \<open>One rule of one step: the body of the inner loop.\<close>

definition compile_hop ::
  "app_ir \<Rightarrow> ir_step list \<Rightarrow> system_ir \<Rightarrow> ir_step \<Rightarrow> forward_action_ref \<Rightarrow> (hop_key, hop) bmap \<Rightarrow>
     diagnostic list \<times> (hop_key, hop) bmap" where
  "compile_hop app target_steps sys s f hops =
     (let to = fa_target_node f; target_chain = fa_target_chain f; at = hop_location s f
      in case find (\<lambda>c. is_chain c = target_chain \<and> is_node c = to) target_steps of
           None \<Rightarrow> ([diagnostic_error (if fa_reused f then ''listener.not-found'' else ''relay.no-accept'')
               (target_chain @ ''/'' @ to) (Msg ''the target does not exist'' [target_chain, to])], hops)
         | Some target_step \<Rightarrow>
             (case is_accept target_step of
                None \<Rightarrow> ([diagnostic_error ''relay.no-accept'' (target_chain @ ''/'' @ to)
                    (Msg ''the target has no accept credential'' [target_chain, to])], hops)
              | Some accept \<Rightarrow>
                  (let reverse = is_reverse (fa_dial f)
                   in case is_hop_in (if reverse then s else target_step) of
                        None \<Rightarrow> ([diagnostic_error ''relay.no-hop-in'' at (Msg ''no relay port'' [to, target_chain])], hops)
                      | Some entry \<Rightarrow>
                          (let key = (is_chain s, is_node s, target_chain, to)
                           in if map_of hops key \<noteq> None then ([], hops)
                              else case (if fa_reused f \<and> is_node s = to
                                  then ([], Some (''127.0.0.1'', ih_port entry, PathLocal))
                                  else dial_target at (is_node s) to (fa_dial f) entry (hop_ends app sys (is_node s) to)) of
                                (ds, None) \<Rightarrow> (ds, hops)
                              | (ds, Some (address, port, path)) \<Rightarrow>
                                  (ds, bput key
                                    \<lparr>hop_chain = is_chain s, hop_target_chain = target_chain, hop_app_id = is_app_id s,
                                     hop_from = is_node s, hop_to = to, hop_link = link_key (is_node s) to,
                                     hop_address = address, hop_port = port, hop_path = path,
                                     hop_security = dial_wire (ih_security entry), hop_credential = credential_of accept,
                                     hop_pool = (if reverse then NoPool else fa_pool f)\<rparr> hops)))))"

definition hop_edges :: "ir_step list \<Rightarrow> (ir_step \<times> forward_action_ref) list" where
  "hop_edges steps =
     concat (map (\<lambda>s. List.map_filter (\<lambda>r. map_option (Pair s) (forward_ref (ir_action r) (is_chain s))) (is_rules s)) steps)"

fun compile_edges ::
  "app_ir \<Rightarrow> ir_step list \<Rightarrow> system_ir \<Rightarrow> (ir_step \<times> forward_action_ref) list \<Rightarrow>
     diagnostic list \<times> (hop_key, hop) bmap \<Rightarrow> diagnostic list \<times> (hop_key, hop) bmap" where
  "compile_edges app target_steps sys [] acc = acc"
| "compile_edges app target_steps sys ((s, f) # es) (ds, hops) =
     (let (ds', hops') = compile_hop app target_steps sys s f hops
      in compile_edges app target_steps sys es (ds @ ds', hops'))"

definition ipv6_public_listeners :: "hop list \<Rightarrow> (string \<times> string) list" where
  "ipv6_public_listeners hops =
     bset (List.map_filter (\<lambda>h.
       if parse_ipv6 (hop_address h) = None then None
       else case hop_path h of
         PathDirect \<Rightarrow> Some (hop_target_chain h, hop_to h)
       | PathReverse \<Rightarrow> Some (hop_chain h, hop_from h)
       | _ \<Rightarrow> None) hops)"

definition local_address :: "(string \<times> string) list \<Rightarrow> hop \<Rightarrow> hop" where
  "local_address listeners h =
     (if hop_path h = PathLocal \<and> (hop_target_chain h, hop_to h) \<in> set listeners then h\<lparr>hop_address := ''::1''\<rparr> else h)"

definition compile_hops_with_targets :: "app_ir \<Rightarrow> ir_step list \<Rightarrow> system_ir \<Rightarrow> diagnostic list \<times> app_ir" where
  "compile_hops_with_targets app target_steps sys =
     (let (ds, table) = compile_edges app target_steps sys (hop_edges (ai_steps app)) ([], []);
          hops = map snd table
      in (ds, app\<lparr>ai_hops := map (local_address (ipv6_public_listeners hops)) hops\<rparr>))"

definition compile_hops :: "app_ir \<Rightarrow> system_ir \<Rightarrow> diagnostic list \<times> app_ir" where
  "compile_hops app sys = compile_hops_with_targets app (ai_steps app) sys"

end
