(* ===== verification/Routing_Guarantees.thy ===== *)
theory Routing_Guarantees
  imports App_Ir System_Ir
begin

text \<open>
  What the compiled steps of a chain are: one per existing machine that the chain's head or a
  reused listener leads to, each with the machine's own rules and a rule table that always ends in
  a catch-all.
\<close>

section \<open>The walk that makes the steps\<close>

lemma push_fresh_fold:
  assumes "distinct q" and "set q \<subseteq> set seen" and "foldl push_fresh (q, seen) ts = (q', seen')"
  shows "distinct q' \<and> set q' = set q \<union> (set ts - set seen) \<and> set seen' = set seen \<union> set ts \<and>
    length q' \<le> length q + length ts"
  using assms
proof (induction ts arbitrary: q seen)
  case (Cons t ts)
  show ?case
  proof (cases "t \<in> set seen")
    case True
    then show ?thesis using Cons.IH [of q seen] Cons.prems by (auto simp: push_fresh_def)
  next
    case False
    then have "t \<notin> set q" using Cons.prems(2) by auto
    have "foldl push_fresh (q @ [t], t # seen) ts = (q', seen')" using Cons.prems(3) False by (simp add: push_fresh_def)
    moreover have "distinct (q @ [t])" "set (q @ [t]) \<subseteq> set (t # seen)" using Cons.prems \<open>t \<notin> set q\<close> by auto
    ultimately have "distinct q' \<and> set q' = set (q @ [t]) \<union> (set ts - set (t # seen)) \<and>
        set seen' = set (t # seen) \<union> set ts \<and> length q' \<le> length (q @ [t]) + length ts"
      by (intro Cons.IH)
    then show ?thesis using False \<open>t \<notin> set q\<close> Cons.prems(2) by auto
  qed
qed auto

lemma walk_ok_wait_cong:
  "seen \<union> wait = seen \<union> wait' \<Longrightarrow> walk_ok succ roots seen wait = walk_ok succ roots seen wait'"
  unfolding walk_ok_def by simp

text \<open>
  \<open>steps_for\<close> is the contract of one turn: a machine outside \<open>E\<close> yields no
  step and leads nowhere, one inside yields its own step with its own targets.
\<close>

definition steps_for ::
  "(string \<Rightarrow> diagnostic list \<times> (ir_step \<times> bool) option) \<Rightarrow> (string \<Rightarrow> string list) \<Rightarrow> string set \<Rightarrow> bool" where
  "steps_for compile_at succ E \<longleftrightarrow>
     (\<forall>n. (n \<notin> E \<longrightarrow> snd (compile_at n) = None \<and> succ n = []) \<and>
        (n \<in> E \<longrightarrow> (\<exists>s p. snd (compile_at n) = Some (s, p) \<and> is_node s = n \<and> step_targets s = succ n)))"

definition walk_state ::
  "(string \<Rightarrow> string list) \<Rightarrow> string set \<Rightarrow> string set \<Rightarrow> string list \<Rightarrow> string list \<Rightarrow> ir_step list \<Rightarrow> bool" where
  "walk_state succ E roots queue seen steps \<longleftrightarrow>
     distinct queue \<and> set queue \<subseteq> set seen \<and> distinct (map is_node steps) \<and>
     is_node ` set steps = (set seen - set queue) \<inter> E \<and>
     walk_ok succ roots (set seen - set queue) (set queue)"

lemma walk_state_step:
  assumes "walk_state succ E roots (n # rest) seen steps" and "steps_for compile_at succ E"
    and "compile_at n = (ds, Some (s, p))" and "foldl push_fresh (rest, seen) (step_targets s) = (queue', seen')"
  shows "walk_state succ E roots queue' seen' (steps @ [s])"
    and "set seen' - set queue' = insert n (set seen - set (n # rest))"
    and "length queue' \<le> length rest + length (succ n)"
proof -
  have n: "n \<in> E" "is_node s = n" "step_targets s = succ n"
    using assms(2) [unfolded steps_for_def, rule_format, of n] assms(3) by auto
  have q: "distinct rest" "n \<notin> set rest" "n \<in> set seen" "set rest \<subseteq> set seen"
    and w: "walk_ok succ roots (set seen - set (n # rest)) (insert n (set rest))"
    and made: "is_node ` set steps = (set seen - set (n # rest)) \<inter> E" and d: "distinct (map is_node steps)"
    using assms(1) by (auto simp: walk_state_def)
  note pf = push_fresh_fold [OF q(1,4) assms(4) [unfolded n(3)]]
  show done': "set seen' - set queue' = insert n (set seen - set (n # rest))" using pf q by auto
  show "length queue' \<le> length rest + length (succ n)" using pf by simp
  have "walk_ok succ roots (insert n (set seen - set (n # rest))) (set (succ n) \<union> set rest)"
    by (rule walk_visit [OF w])
  also have "insert n (set seen - set (n # rest)) \<union> (set (succ n) \<union> set rest) =
      insert n (set seen - set (n # rest)) \<union> set queue'" using pf q by auto
  then have "walk_ok succ roots (insert n (set seen - set (n # rest))) (set (succ n) \<union> set rest) =
      walk_ok succ roots (insert n (set seen - set (n # rest))) (set queue')" by (rule walk_ok_wait_cong)
  finally have w': "walk_ok succ roots (set seen' - set queue') (set queue')" unfolding done' .
  have "is_node ` set (steps @ [s]) = (set seen' - set queue') \<inter> E" using made n done' by auto
  moreover have "distinct (map is_node (steps @ [s]))" using d made n by auto
  ultimately show "walk_state succ E roots queue' seen' (steps @ [s])"
    using pf q w' by (auto simp: walk_state_def)
qed

lemma walk_state_skip:
  assumes "walk_state succ E roots (n # rest) seen steps" and "steps_for compile_at succ E" and "n \<notin> E"
  shows "walk_state succ E roots rest seen steps"
    and "set seen - set rest = insert n (set seen - set (n # rest))"
proof -
  have q: "distinct rest" "n \<notin> set rest" "n \<in> set seen" "set rest \<subseteq> set seen"
    and w: "walk_ok succ roots (set seen - set (n # rest)) (insert n (set rest))"
    and made: "is_node ` set steps = (set seen - set (n # rest)) \<inter> E" and d: "distinct (map is_node steps)"
    using assms(1) by (auto simp: walk_state_def)
  have "succ n = []" using assms(2,3) by (auto simp: steps_for_def)
  then have w': "walk_ok succ roots (insert n (set seen - set (n # rest))) (set rest)"
    using walk_visit [OF w] by simp
  show done': "set seen - set rest = insert n (set seen - set (n # rest))" using q by auto
  show "walk_state succ E roots rest seen steps"
    unfolding walk_state_def done' using q w' made d assms(3) by auto
qed

lemma compile_walk_exact:
  assumes "steps_for compile_at succ E"
    and "walk_state succ E roots queue seen steps"
    and "compile_walk fuel compile_at queue seen (ds, steps, p) = Some (ds', steps', p')"
  shows "distinct (map is_node steps') \<and> is_node ` set steps' = reach_set succ roots \<inter> E \<and>
    (\<forall>s \<in> set steps'. s \<in> set steps \<or> (\<exists>b. snd (compile_at (is_node s)) = Some (s, b)))"
  using assms
proof (induction fuel compile_at queue seen "(ds, steps, p)" arbitrary: ds steps p rule: compile_walk.induct)
  case (1 compile_at queue seen ds steps p)
  then have "queue = []" "steps' = steps" by (auto split: if_splits)
  then show ?case using 1 walk_done [of succ roots "set seen"] by (auto simp: walk_state_def)
next
  case (2 fuel compile_at seen ds steps p)
  then show ?case using walk_done [of succ roots "set seen"] by (auto simp: walk_state_def)
next
  case (3 fuel compile_at nid rest seen ds steps p)
  have fresh: "nid \<notin> set (map is_node steps)" using "3.prems"(2) by (auto simp: walk_state_def)
  show ?case
  proof (cases "nid \<in> E")
    case False
    then obtain d where at: "compile_at nid = (d, None)"
      using "3.prems"(1) by (metis prod.collapse steps_for_def)
    show ?thesis
      using "3.hyps"(2) [OF fresh at [symmetric] refl "3.prems"(1) walk_state_skip(1) [OF "3.prems"(2) "3.prems"(1) False]] "3.prems"(3) fresh at
      by auto
  next
    case True
    then obtain d s b where at: "compile_at nid = (d, Some (s, b))" and s: "is_node s = nid"
      using "3.prems"(1) by (metis prod.collapse steps_for_def)
    obtain queue' seen' where push: "foldl push_fresh (rest, seen) (step_targets s) = (queue', seen')" by force
    note ok = walk_state_step(1) [OF "3.prems"(2) "3.prems"(1) at push]
    have "compile_walk fuel compile_at queue' seen' (ds @ d, steps @ [s], p \<or> b) = Some (ds', steps', p')"
      using "3.prems"(3) fresh at push by simp
    from "3.hyps"(3) [OF fresh at [symmetric] refl refl push [symmetric] refl "3.prems"(1) ok this]
    show ?thesis using at s by auto
  qed
qed

lemma compile_walk_fuel:
  assumes "steps_for compile_at succ E" and "finite N" and "\<And>n. n \<notin> N \<Longrightarrow> succ n = []"
    and "walk_state succ E roots queue seen steps"
    and "length queue + (\<Sum>n \<in> N - (set seen - set queue). length (succ n)) \<le> fuel"
  shows "compile_walk fuel compile_at queue seen (ds, steps, p) \<noteq> None"
  using assms(1,4,5)
proof (induction fuel compile_at queue seen "(ds, steps, p)" arbitrary: ds steps p rule: compile_walk.induct)
  case (3 fuel compile_at nid rest seen ds steps p)
  have fresh: "nid \<notin> set (map is_node steps)" using "3.prems"(2) by (auto simp: walk_state_def)
  let ?done = "set seen - set (nid # rest)"
  have sum: "length (succ nid) + (\<Sum>n \<in> N - insert nid ?done. length (succ n)) = (\<Sum>n \<in> N - ?done. length (succ n))"
  proof (cases "nid \<in> N")
    case True
    have "N - insert nid ?done = (N - ?done) - {nid}" by auto
    then show ?thesis using True assms(2) sum.remove [of "N - ?done" nid "\<lambda>n. length (succ n)"] by simp
  next
    case False
    then have "N - insert nid ?done = N - ?done" by auto
    then show ?thesis using assms(3) [OF False] by simp
  qed
  show ?case
  proof (cases "nid \<in> E")
    case False
    then obtain d where at: "compile_at nid = (d, None)"
      using "3.prems"(1) by (metis prod.collapse steps_for_def)
    have "length rest + (\<Sum>n \<in> N - (set seen - set rest). length (succ n)) \<le> fuel"
      using "3.prems"(3) sum unfolding walk_state_skip(2) [OF "3.prems"(2) "3.prems"(1) False] by simp
    then show ?thesis
      using "3.hyps"(2) [OF fresh at [symmetric] refl "3.prems"(1) walk_state_skip(1) [OF "3.prems"(2) "3.prems"(1) False]] fresh at
      by simp
  next
    case True
    then obtain d s b where at: "compile_at nid = (d, Some (s, b))"
      using "3.prems"(1) by (metis prod.collapse steps_for_def)
    obtain queue' seen' where push: "foldl push_fresh (rest, seen) (step_targets s) = (queue', seen')" by force
    note ok = walk_state_step [OF "3.prems"(2) "3.prems"(1) at push]
    have "length queue' + (\<Sum>n \<in> N - (set seen' - set queue'). length (succ n)) \<le> fuel"
      using "3.prems"(3) sum ok(3) unfolding ok(2) by simp
    then show ?thesis
      using "3.hyps"(3) [OF fresh at [symmetric] refl refl push [symmetric] refl "3.prems"(1) ok(1)] fresh at push by simp
  qed
qed auto


section \<open>One chain\<close>

definition chain_machines :: "routing_chain_input \<Rightarrow> string set" where
  "chain_machines input = node_id ` set (rci_nodes input)"

text \<open>Where the rules of an existing machine forward to, on this chain.\<close>

definition chain_edges :: "routing_chain_input \<Rightarrow> string \<Rightarrow> string list" where
  "chain_edges input n =
     (if n \<in> chain_machines input then forwards_at (rci_steps input) (chain_id (rci_chain input)) n else [])"

text \<open>The machines the head or a reused listener leads to.\<close>

definition chain_walk :: "routing_chain_input \<Rightarrow> string \<Rightarrow> string set" where
  "chain_walk input root =
     reach_set (chain_edges input) (insert root (set (rci_reused_listener_nodes input))) \<inter> chain_machines input"

text \<open>The default rule: none after a catch-all, else out where the machine may go out, else a block.\<close>

definition default_rule :: "node \<Rightarrow> ir_rule list \<Rightarrow> ir_rule list" where
  "default_rule n rules =
     (if rules \<noteq> [] \<and> ir_match (last rules) = MatchAny then []
      else [\<lparr>ir_match = MatchAny, ir_action = (if node_egress_allowed n then Egress None else Block)\<rparr>])"

lemma append_default_rule_eq: "\<exists>ds a. append_default_rule n c nid rules = (ds, a, rules @ default_rule n rules)"
  by (simp add: append_default_rule_def terminal_default_def default_rule_def)

lemma forward_targets_source:
  "List.map_filter (\<lambda>r. forward_to (ir_action r)) (source_rules sources) =
     List.map_filter (\<lambda>r. forward_to (rule_action r)) (concat (map step_rules sources))"
  by (simp add: source_rules_def List.map_filter_def filter_map comp_def)

lemma map_filter_append: "List.map_filter f (xs @ ys) = List.map_filter f xs @ List.map_filter f ys"
  by (simp add: List.map_filter_def)

lemma forward_targets_default: "List.map_filter (\<lambda>r. forward_to (ir_action r)) (default_rule n rules) = []"
  by (simp add: default_rule_def List.map_filter_simps forward_to_def)

lemma compile_member_Some:
  assumes "find (\<lambda>m. node_id m = n) (rci_nodes input) = Some m"
  shows "\<exists>s p. snd (compile_member input root primary n) = Some (s, p) \<and> is_node s = n \<and>
    is_id s = ''s-'' @ chain_id (rci_chain input) @ ''-'' @ n \<and>
    is_chain s = chain_id (rci_chain input) \<and>
    is_rules s = (let rules = source_rules (steps_at_source (rci_steps input) (chain_id (rci_chain input)) n)
      in rules @ default_rule m rules) \<and>
    step_targets s = forwards_at (rci_steps input) (chain_id (rci_chain input)) n"
proof -
  define sources where "sources = steps_at_source (rci_steps input) (chain_id (rci_chain input)) n"
  obtain d a where app: "append_default_rule m (rci_chain input) n (source_rules sources) =
      (d, a, source_rules sources @ default_rule m (source_rules sources))"
    using append_default_rule_eq by blast
  show ?thesis
    using assms app
    by (simp add: compile_member_def Let_def sources_def [symmetric] split_beta step_targets_def map_filter_append
        forward_targets_source forward_targets_default forwards_at_def)
qed

lemma find_machine: "n \<in> chain_machines input \<longleftrightarrow> find (\<lambda>m. node_id m = n) (rci_nodes input) \<noteq> None"
  by (auto simp: chain_machines_def find_None_iff)

lemma compile_member_steps_for:
  "steps_for (compile_member input root primary) (chain_edges input) (chain_machines input)"
  unfolding steps_for_def
proof (intro allI conjI impI)
  fix n assume n: "n \<notin> chain_machines input"
  then have "find (\<lambda>m. node_id m = n) (rci_nodes input) = None" using find_machine by blast
  then show "snd (compile_member input root primary n) = None" by (simp add: compile_member_def)
  show "chain_edges input n = []" using n by (simp add: chain_edges_def)
next
  fix n assume n: "n \<in> chain_machines input"
  then obtain m where "find (\<lambda>m. node_id m = n) (rci_nodes input) = Some m" using find_machine by blast
  from compile_member_Some [OF this, of root primary] n
  show "\<exists>s p. snd (compile_member input root primary n) = Some (s, p) \<and> is_node s = n \<and> step_targets s = chain_edges input n"
    by (auto simp: chain_edges_def)
qed

lemma chain_walk_roots_swap:
  "distinct (chain_walk_roots input root) \<and>
     set (chain_walk_roots input root) = insert root (set (rci_reused_listener_nodes input))"
proof -
  let ?roots = "bset (root # rci_reused_listener_nodes input)"
  let ?i = "length (takeWhile (\<lambda>n. n \<noteq> root) ?roots)"
  have "takeWhile (\<lambda>n. n \<noteq> root) ?roots \<noteq> ?roots" by (simp add: takeWhile_eq_all_conv)
  then have i: "?i < length ?roots"
    using length_takeWhile_le [of "\<lambda>n. n \<noteq> root" ?roots] takeWhile_eq_take [of "\<lambda>n. n \<noteq> root" ?roots]
    by (metis le_neq_implies_less take_all_iff order_refl)
  then have root: "?roots ! ?i = root" using nth_length_takeWhile [of "\<lambda>n. n \<noteq> root" ?roots] by simp
  have "chain_walk_roots input root = ?roots[?i := ?roots ! 0, 0 := ?roots ! ?i]"
    by (simp add: chain_walk_roots_def Let_def root)
  moreover have "0 < length ?roots" using i by linarith
  ultimately show ?thesis using i by (simp add: distinct_swap set_swap)
qed

lemma chain_edges_sum:
  assumes "finite N"
  shows "(\<Sum>n \<in> N. length (chain_edges input n)) \<le> length (all_rules (rci_steps input))"
proof -
  have "(\<Sum>n \<in> N. length (chain_edges input n)) \<le>
      (\<Sum>n \<in> N. length (forwards_at (rci_steps input) (chain_id (rci_chain input)) n))"
    by (rule sum_mono) (simp add: chain_edges_def)
  then show ?thesis using forwards_sum [OF assms, of "rci_steps input" "chain_id (rci_chain input)"] by linarith
qed

lemma chain_machines_finite: "finite (chain_machines input)"
  by (simp add: chain_machines_def)

lemma chain_edges_outside: "n \<notin> chain_machines input \<Longrightarrow> chain_edges input n = []"
  by (simp add: chain_edges_def)

lemma compile_chain_walk:
  fixes input root
  defines "roots \<equiv> chain_walk_roots input root"
  shows "\<exists>ds steps p. compile_walk (length roots + length (all_rules (rci_steps input)))
      (compile_member input root primary) roots roots ([], [], False) = Some (ds, steps, p) \<and>
    distinct (map is_node steps) \<and> is_node ` set steps = chain_walk input root \<and>
    (\<forall>s \<in> set steps. \<exists>b. snd (compile_member input root primary (is_node s)) = Some (s, b))"
proof -
  note steps = compile_member_steps_for [of input root primary]
  have roots: "distinct roots" "set roots = insert root (set (rci_reused_listener_nodes input))"
    unfolding roots_def using chain_walk_roots_swap by blast+
  have start: "walk_state (chain_edges input) (chain_machines input) (set roots) roots roots []"
    using roots(1) walk_start by (simp add: walk_state_def)
  have "compile_walk (length roots + length (all_rules (rci_steps input)))
      (compile_member input root primary) roots roots ([], [], False) \<noteq> None"
    by (rule compile_walk_fuel [OF steps _ _ start, where N = "chain_machines input"])
      (simp_all add: chain_edges_sum chain_edges_outside chain_machines_finite)
  then obtain ds steps p where walk: "compile_walk (length roots + length (all_rules (rci_steps input)))
      (compile_member input root primary) roots roots ([], [], False) = Some (ds, steps, p)"
    by (metis not_None_eq prod_cases3)
  then show ?thesis using compile_walk_exact [OF steps start walk] roots(2) by (auto simp: chain_walk_def)
qed

lemma compile_chain_steps_walk:
  assumes "rci_root input = Some root"
  shows "distinct (map is_node (snd (compile_chain_steps input)))"
    and "is_node ` set (snd (compile_chain_steps input)) = chain_walk input root"
    and "s \<in> set (snd (compile_chain_steps input)) \<Longrightarrow> \<exists>primary b. snd (compile_member input root primary (is_node s)) = Some (s, b)"
proof -
  let ?primary = "chain_members_from_steps (rci_steps input) (chain_id (rci_chain input)) root"
  obtain ds steps p where walk: "compile_walk (length (chain_walk_roots input root) + length (all_rules (rci_steps input)))
      (compile_member input root ?primary) (chain_walk_roots input root) (chain_walk_roots input root) ([], [], False) =
        Some (ds, steps, p)" and ok: "distinct (map is_node steps)" "is_node ` set steps = chain_walk input root"
      "\<forall>s \<in> set steps. \<exists>b. snd (compile_member input root ?primary (is_node s)) = Some (s, b)"
    using compile_chain_walk [of input root ?primary] by blast
  have "snd (compile_chain_steps input) = steps" using assms walk by (simp add: compile_chain_steps_def Let_def)
  with ok show "distinct (map is_node (snd (compile_chain_steps input)))"
    "is_node ` set (snd (compile_chain_steps input)) = chain_walk input root"
    "s \<in> set (snd (compile_chain_steps input)) \<Longrightarrow> \<exists>primary b. snd (compile_member input root primary (is_node s)) = Some (s, b)"
    by blast+
qed

text \<open>C9: the steps compiled for a chain with a head are one for each machine that exists and that the head or a reused listener leads to along forwarding rules, without repetition. In particular the queue of the walk always drains within its bound.\<close>

theorem compiled_steps_exact:
  assumes "rci_root input = Some root"
  shows "distinct (map is_node (rcc_steps (compile_chain input))) \<and>
    is_node ` set (rcc_steps (compile_chain input)) = chain_walk input root"
  using compile_chain_steps_walk [OF assms] by (simp add: compile_chain_def split_beta Let_def)

text \<open>Without a head there is no step at all.\<close>

lemma compile_chain_no_root: "rci_root input = None \<Longrightarrow> rcc_steps (compile_chain input) = []"
  by (simp add: compile_chain_def compile_chain_steps_def Let_def)

lemma compiled_step_shape:
  assumes "s \<in> set (rcc_steps (compile_chain input))"
  shows "\<exists>m. find (\<lambda>m. node_id m = is_node s) (rci_nodes input) = Some m \<and>
    is_id s = ''s-'' @ chain_id (rci_chain input) @ ''-'' @ is_node s \<and>
    is_chain s = chain_id (rci_chain input) \<and>
    is_rules s = (let rules = source_rules (steps_at_source (rci_steps input) (chain_id (rci_chain input)) (is_node s))
      in rules @ default_rule m rules)"
proof (cases "rci_root input")
  case None
  then show ?thesis using assms compile_chain_no_root by fastforce
next
  case (Some root)
  have s: "s \<in> set (snd (compile_chain_steps input))" using assms by (simp add: compile_chain_def split_beta Let_def)
  then have "is_node s \<in> chain_machines input"
    using compile_chain_steps_walk(2) [OF Some] by (auto simp: chain_walk_def)
  then obtain m where m: "find (\<lambda>m. node_id m = is_node s) (rci_nodes input) = Some m" using find_machine by blast
  obtain primary b where "snd (compile_member input root primary (is_node s)) = Some (s, b)"
    using compile_chain_steps_walk(3) [OF Some s] by blast
  with compile_member_Some [OF m, of root primary] m show ?thesis by auto
qed

section \<open>A compiled project\<close>

lemma reach_set_split: "x \<in> reach_set succ roots \<Longrightarrow> \<exists>r \<in> roots. x \<in> reach_set succ {r}"
proof (induction rule: reach_set_induct)
  case (root r)
  then show ?case using reach_set_root [of r "{r}" succ] by blast
next
  case (step x y)
  then obtain r where "r \<in> roots" "x \<in> reach_set succ {r}" by blast
  then show ?case using reach_set_step [of x succ "{r}" y] step.hyps(2) by blast
qed

lemma reach_set_succ_mono:
  assumes "x \<in> reach_set succ roots" and "\<And>y. set (succ y) \<subseteq> set (succ' y)"
  shows "x \<in> reach_set succ' roots"
  using assms(1)
proof (induction rule: reach_set_induct)
  case (step x y)
  then show ?case using reach_set_step [of x succ' roots y] assms(2) by blast
qed auto

lemma steps_at_source_own: "steps_at_source (filter (\<lambda>s. step_chain s = c) steps) c n = steps_at_source steps c n"
  by (auto simp: steps_at_source_def intro: filter_cong)

lemma forwards_at_own: "forwards_at (filter (\<lambda>s. step_chain s = c) steps) c n = forwards_at steps c n"
  by (simp add: forwards_at_def steps_at_source_own)

lemma input_of_simps [simp]:
  "rci_app_id (routing_chain_input_of doc app c root reused) = app_id app"
  "rci_chain (routing_chain_input_of doc app c root reused) = c"
  "rci_root (routing_chain_input_of doc app c root reused) = root"
  "rci_steps (routing_chain_input_of doc app c root reused) = filter (\<lambda>s. step_chain s = chain_id c) (app_steps app)"
  "set (rci_reused_listener_nodes (routing_chain_input_of doc app c root reused)) = {m. (chain_id c, m) \<in> set reused}"
  "set (rci_nodes (routing_chain_input_of doc app c root reused)) \<subseteq> set (sn_nodes doc)"
  by (auto simp: routing_chain_input_of_def Let_def image_iff)

text \<open>The parts of a project's compilation.\<close>

definition dead_chains :: "model_snapshot \<Rightarrow> app_view \<Rightarrow> string list" where
  "dead_chains doc app = disabled_chains app (retired_nodes doc) (selected_chain_roots app)"

definition own_listeners ::
  "model_snapshot \<Rightarrow> app_view \<Rightarrow> (string \<times> string) list option \<Rightarrow> (string \<times> string) list" where
  "own_listeners doc app given = (case given of Some r \<Rightarrow> r
     | None \<Rightarrow> reachable_reused_listeners app (selected_chain_roots app) (dead_chains doc app))"

definition chain_input ::
  "model_snapshot \<Rightarrow> app_view \<Rightarrow> (string \<times> string) list option \<Rightarrow> chain \<Rightarrow> routing_chain_input" where
  "chain_input doc app given c =
     routing_chain_input_of doc app c (map_option ing_node (map_of (selected_chain_roots app) (chain_id c)))
       (own_listeners doc app given)"

lemma compile_app_parts:
  "set (ai_steps (snd (compile_app_with_listener_roots doc app given))) =
     (\<Union>c \<in> {c \<in> set (app_chains app). chain_id c \<notin> set (dead_chains doc app)}. set (rcc_steps (compile_chain (chain_input doc app given c))))"
  "set (ai_listener_roots (snd (compile_app_with_listener_roots doc app given))) =
     {l \<in> set (own_listeners doc app given). fst l \<in> chain_id ` set (app_chains app)}"
  "set (ai_ingresses (snd (compile_app_with_listener_roots doc app given))) =
     ingress_of doc app (chain_by_id app) (node_by_id doc) ` set (live_ingresses doc app (dead_chains doc app))"
  "set (ai_grants (snd (compile_app_with_listener_roots doc app given))) =
     set (snd (compile_grants doc app (map ing_id (live_ingresses doc app (dead_chains doc app)))))"
  "set (ai_fronts (snd (compile_app_with_listener_roots doc app given))) =
     front_of app (bset (map ing_id (live_ingresses doc app (dead_chains doc app)))) ` set (app_fronts app)"
  "set (ai_users (snd (compile_app_with_listener_roots doc app given))) =
     (\<lambda>u. \<lparr>iu_id = user_id u, iu_tenant = user_tenant u, iu_uuid = user_uuid u\<rparr>) ` set (sn_users doc)"
  "set (ai_nodes (snd (compile_app_with_listener_roots doc app given))) = app_node_of doc ` {n \<in> set (sn_nodes doc). \<not> node_retired n}"
  by (cases given; auto simp: compile_app_with_listener_roots_def compile_app_with_listener_roots_and_def
      Let_def split_beta chain_roots_def sort_ir_def collect_tenants_def dead_chains_def own_listeners_def
      chain_input_def list_ex_iff)+

lemma find_SomeD: "find P xs = Some x \<Longrightarrow> x \<in> set xs \<and> P x"
  by (induction xs) (auto split: if_splits)

lemma app_step_shape:
  assumes "s \<in> set (ai_steps (snd (compile_app_with_listener_roots doc app given)))"
  shows "\<exists>m \<in> set (sn_nodes doc). node_id m = is_node s \<and>
    is_rules s = (let rules = source_rules (steps_at_source (app_steps app) (is_chain s) (is_node s))
      in rules @ default_rule m rules)"
proof -
  obtain c where c: "c \<in> set (app_chains app)" and s: "s \<in> set (rcc_steps (compile_chain (chain_input doc app given c)))"
    using assms by (auto simp: compile_app_parts)
  obtain m where m: "find (\<lambda>m. node_id m = is_node s) (rci_nodes (chain_input doc app given c)) = Some m"
    and shape: "is_chain s = chain_id c"
      "is_rules s = (let rules = source_rules (steps_at_source (app_steps app) (is_chain s) (is_node s))
        in rules @ default_rule m rules)"
    using compiled_step_shape [OF s] by (auto simp: chain_input_def steps_at_source_own)
  have "m \<in> set (sn_nodes doc) \<and> node_id m = is_node s"
    using find_SomeD [OF m] input_of_simps(6) unfolding chain_input_def by blast
  with shape show ?thesis by blast
qed

lemma default_rule_last: "ir_match (last (rules @ default_rule m rules)) = MatchAny"
  by (auto simp: default_rule_def)

text \<open>C16: every step of a compiled project stands on a machine of the snapshot and its rule table is that machine's own rules for the chain, in source order, followed by at most one default rule: none when the rules already end in a catch-all, otherwise a direct egress where the machine may go out and a block where it may not. So the last rule of every table is a catch-all.\<close>

theorem rule_tables_end:
  assumes "s \<in> set (ai_steps (snd (compile_app_with_listener_roots doc app given)))"
  shows "\<exists>m \<in> set (sn_nodes doc). node_id m = is_node s \<and>
    is_rules s = (let rules = source_rules (steps_at_source (app_steps app) (is_chain s) (is_node s))
      in rules @ default_rule m rules) \<and> ir_match (last (is_rules s)) = MatchAny"
  using app_step_shape [OF assms] default_rule_last by (metis (no_types, lifting))

section \<open>Retired machines\<close>

lemma chain_walk_leads:
  assumes "n \<in> chain_walk (chain_input doc app given c) root"
  shows "n \<in> leads_to app (chain_id c) root \<or>
    (\<exists>m. (chain_id c, m) \<in> set (own_listeners doc app given) \<and> n \<in> leads_to app (chain_id c) m)"
proof -
  let ?edges = "chain_edges (chain_input doc app given c)"
  have "n \<in> reach_set ?edges (insert root {m. (chain_id c, m) \<in> set (own_listeners doc app given)})"
    using assms by (simp add: chain_walk_def chain_input_def)
  from reach_set_split [OF this] obtain r where r: "r = root \<or> (chain_id c, r) \<in> set (own_listeners doc app given)"
    and "n \<in> reach_set ?edges {r}" by blast
  moreover have "set (?edges y) \<subseteq> set (forwards_at (app_steps app) (chain_id c) y)" for y
    by (auto simp: chain_edges_def chain_input_def forwards_at_own)
  ultimately have "n \<in> leads_to app (chain_id c) r"
    unfolding leads_to_def by (blast intro: reach_set_succ_mono [where succ = ?edges])
  with r show ?thesis by blast
qed

lemma step_walk:
  assumes "s \<in> set (rcc_steps (compile_chain input))"
  shows "\<exists>root. rci_root input = Some root \<and> is_node s \<in> chain_walk input root"
proof (cases "rci_root input")
  case None
  then show ?thesis using assms compile_chain_no_root by fastforce
next
  case (Some root)
  then show ?thesis using compile_chain_steps_walk(2) [OF Some] assms
    by (auto simp: compile_chain_def split_beta Let_def)
qed

lemma retired_step_behind_listener:
  assumes "s \<in> set (ai_steps (snd (compile_app_with_listener_roots doc app given)))" and "is_node s \<in> set (retired_nodes doc)"
  shows "\<exists>root m. map_of (selected_chain_roots app) (is_chain s) = Some root \<and>
    is_node s \<notin> leads_to app (is_chain s) (ing_node root) \<and>
    (is_chain s, m) \<in> set (ai_listener_roots (snd (compile_app_with_listener_roots doc app given))) \<and> is_node s \<in> leads_to app (is_chain s) m"
proof -
  obtain c where c: "c \<in> set (app_chains app)" "chain_id c \<notin> set (dead_chains doc app)"
    and s: "s \<in> set (rcc_steps (compile_chain (chain_input doc app given c)))"
    using assms(1) by (auto simp: compile_app_parts)
  have chain: "is_chain s = chain_id c" using compiled_step_shape [OF s] by (auto simp: chain_input_def)
  obtain root where root: "map_of (selected_chain_roots app) (chain_id c) = Some root"
    and walk: "is_node s \<in> chain_walk (chain_input doc app given c) (ing_node root)"
    using step_walk [OF s] by (auto simp: chain_input_def)
  have out: "is_node s \<notin> leads_to app (chain_id c) (ing_node root)"
    using c root assms(2) unfolding dead_chains_def disabled_chains_iff by blast
  then obtain m where "(chain_id c, m) \<in> set (own_listeners doc app given)" "is_node s \<in> leads_to app (chain_id c) m"
    using chain_walk_leads [OF walk] by blast
  with c root out chain show ?thesis by (auto simp: compile_app_parts)
qed

section \<open>References inside a compiled project\<close>

text \<open>
  Every grant names an ingress and a user of the project and has an identity of its own; every
  front names ingresses of the project; no ingress is on a retired machine or on a dead chain.
\<close>

definition refs_ok :: "model_snapshot \<Rightarrow> app_ir \<Rightarrow> bool" where
  "refs_ok doc ir \<longleftrightarrow>
     (\<forall>g \<in> set (ai_grants ir). ig_ingress g \<in> ii_id ` set (ai_ingresses ir) \<and>
        (ig_tenant g, ig_user g) \<in> (\<lambda>u. (iu_tenant u, iu_id u)) ` set (ai_users ir)) \<and>
     distinct (map ig_id (ai_grants ir)) \<and> sorted (map ig_id (ai_grants ir)) \<and>
     (\<forall>f \<in> set (ai_fronts ir). set (if_via f) \<subseteq> ii_id ` set (ai_ingresses ir)) \<and>
     (\<forall>i \<in> set (ai_ingresses ir). ii_node i \<notin> set (retired_nodes doc)) \<and>
     (\<forall>s \<in> set (ai_steps ir). is_chain s \<in> ic_id ` set (ai_chains ir))"

lemma compile_grant_cases:
  assumes "compile_grant doc app live (ds, seen, out) g = (ds', seen', out')"
  shows "seen' = seen \<and> out' = out \<or>
    (\<exists>key x. key \<notin> set seen \<and> seen' = key # seen \<and> out' = out @ [x] \<and> ig_id x = ''g-'' @ key \<and>
      ig_ingress x \<in> set live \<and> (\<exists>u \<in> set (sn_users doc). user_tenant u = ig_tenant x \<and> user_id u = ig_user x))"
  using assms by (auto simp: compile_grant_def Let_def list_ex_iff split: if_splits)

lemma compile_grant_step:
  assumes "compile_grant doc app live (ds, seen, out) g = (ds', seen', out')"
    and "set (map ig_id out) = append ''g-'' ` set seen" and "distinct (map ig_id out)"
  shows "set (map ig_id out') = append ''g-'' ` set seen' \<and> distinct (map ig_id out') \<and>
    (\<forall>x \<in> set out'. x \<in> set out \<or> ig_ingress x \<in> set live \<and>
      (\<exists>u \<in> set (sn_users doc). user_tenant u = ig_tenant x \<and> user_id u = ig_user x))"
  using compile_grant_cases [OF assms(1)]
proof (elim disjE exE conjE)
  fix key x
  assume new: "key \<notin> set seen" "seen' = key # seen" "out' = out @ [x]" "ig_id x = ''g-'' @ key"
    and x: "ig_ingress x \<in> set live" "\<exists>u \<in> set (sn_users doc). user_tenant u = ig_tenant x \<and> user_id u = ig_user x"
  have "ig_id x \<notin> set (map ig_id out)" unfolding assms(2) new(4) using new(1) by auto
  then have "distinct (map ig_id out')" using assms(3) new(3) by simp
  moreover have "set (map ig_id out') = insert (ig_id x) (set (map ig_id out))" using new(3) by simp
  then have "set (map ig_id out') = append ''g-'' ` set seen'" unfolding assms(2) new(2,4) by simp
  ultimately show ?thesis using x new(3) by simp
qed (use assms in auto)

lemma compile_grants_fold:
  assumes "foldl (compile_grant doc app live) (ds, seen, out) gs = (ds', seen', out')"
    and "set (map ig_id out) = append ''g-'' ` set seen" and "distinct (map ig_id out)"
  shows "distinct (map ig_id out') \<and> (\<forall>x \<in> set out'. x \<in> set out \<or> ig_ingress x \<in> set live \<and>
      (\<exists>u \<in> set (sn_users doc). user_tenant u = ig_tenant x \<and> user_id u = ig_user x))"
  using assms
proof (induction gs arbitrary: ds seen out)
  case (Cons g gs)
  obtain ds1 seen1 out1 where step: "compile_grant doc app live (ds, seen, out) g = (ds1, seen1, out1)"
    by (metis prod_cases3)
  note one = compile_grant_step [OF step Cons.prems(2,3)]
  have "foldl (compile_grant doc app live) (ds1, seen1, out1) gs = (ds', seen', out')"
    using Cons.prems(1) step by simp
  from Cons.IH [OF this] one show ?case by blast
qed auto

lemma compile_grants_ok:
  "distinct (map ig_id (snd (compile_grants doc app live))) \<and>
   (\<forall>x \<in> set (snd (compile_grants doc app live)). ig_ingress x \<in> set live \<and>
      (\<exists>u \<in> set (sn_users doc). user_tenant u = ig_tenant x \<and> user_id u = ig_user x))"
proof -
  obtain ds seen out where "foldl (compile_grant doc app live) ([], [], []) (app_grants app) = (ds, seen, out)"
    by (metis prod_cases3)
  with compile_grants_fold [OF this] show ?thesis by (simp add: compile_grants_def)
qed


lemma compile_app_grants:
  "ai_grants (snd (compile_app_with_listener_roots doc app given)) =
     sort_key ig_id (snd (compile_grants doc app (map ing_id (live_ingresses doc app (dead_chains doc app)))))"
  "ic_id ` set (ai_chains (snd (compile_app_with_listener_roots doc app given))) =
     chain_id ` {c \<in> set (app_chains app). chain_id c \<notin> set (dead_chains doc app)}"
  by (auto simp: compile_app_with_listener_roots_def compile_app_with_listener_roots_and_def
      Let_def split_beta chain_roots_def sort_ir_def collect_tenants_def dead_chains_def compile_chain_def
      routing_chain_input_of_def image_image)

lemma live_ingress_standing:
  assumes "distinct (map node_id (sn_nodes doc))" and "i \<in> set (live_ingresses doc app dead)"
  shows "ing_node i \<notin> set (retired_nodes doc)"
proof
  assume "ing_node i \<in> set (retired_nodes doc)"
  then obtain n where n: "n \<in> set (sn_nodes doc)" "node_retired n" "node_id n = ing_node i"
    by (auto simp: retired_nodes_def)
  have "map_of (rev (map (\<lambda>n. (node_id n, n)) (sn_nodes doc))) (node_id n) = Some n"
    using assms(1) n(1) by (intro map_of_is_SomeI) (auto simp: rev_map [symmetric] comp_def)
  then have "node_by_id doc (ing_node i) = Some n" using n(3) by (simp add: node_by_id_def)
  then show False using assms(2) n(2) by (simp add: live_ingresses_def is_live_ingress_def)
qed

lemma step_chain_listed:
  assumes "s \<in> set (ai_steps (snd (compile_app_with_listener_roots doc app given)))"
  shows "is_chain s \<in> ic_id ` set (ai_chains (snd (compile_app_with_listener_roots doc app given)))"
proof -
  obtain c where c: "c \<in> set (app_chains app)" "chain_id c \<notin> set (dead_chains doc app)"
    and s: "s \<in> set (rcc_steps (compile_chain (chain_input doc app given c)))" using assms by (auto simp: compile_app_parts)
  have "is_chain s = chain_id c" using compiled_step_shape [OF s] by (auto simp: chain_input_def)
  with c show ?thesis unfolding compile_app_grants by blast
qed

lemma compile_app_refs_ok:
  assumes "distinct (map node_id (sn_nodes doc))"
  shows "refs_ok doc (snd (compile_app_with_listener_roots doc app given))"
proof -
  let ?live = "live_ingresses doc app (dead_chains doc app)" and ?ir = "snd (compile_app_with_listener_roots doc app given)"
  have ids: "ii_id ` set (ai_ingresses ?ir) = set (map ing_id ?live)"
    unfolding compile_app_parts by (simp add: ingress_of_def image_image)
  have users: "(\<lambda>u. (iu_tenant u, iu_id u)) ` set (ai_users ?ir) = (\<lambda>u. (user_tenant u, user_id u)) ` set (sn_users doc)"
    unfolding compile_app_parts by (simp add: image_image)
  note grants = compile_grants_ok [of doc app "map ing_id ?live"]
  have 1: "ig_ingress g \<in> ii_id ` set (ai_ingresses ?ir) \<and>
      (ig_tenant g, ig_user g) \<in> (\<lambda>u. (iu_tenant u, iu_id u)) ` set (ai_users ?ir)"
    if "g \<in> set (ai_grants ?ir)" for g
    using grants that unfolding ids users compile_app_grants set_sort by force
  have 2: "distinct (map ig_id (ai_grants ?ir))" "sorted (map ig_id (ai_grants ?ir))"
    using grants unfolding compile_app_grants by (simp_all add: distinct_map)
  have 3: "set (if_via f) \<subseteq> ii_id ` set (ai_ingresses ?ir)" if "f \<in> set (ai_fronts ?ir)" for f
    unfolding ids using that [unfolded compile_app_parts] by (auto simp: front_of_def)
  have 4: "ii_node i \<notin> set (retired_nodes doc)" if "i \<in> set (ai_ingresses ?ir)" for i
    using that live_ingress_standing [OF assms] unfolding compile_app_parts by (auto simp: ingress_of_def)
  show ?thesis unfolding refs_ok_def
    by (intro conjI ballI 1 [THEN conjunct1] 1 [THEN conjunct2] 2 3 4 step_chain_listed)
qed

text \<open>C40: in a snapshot whose machines have identities of their own, what a compiled project refers to exists in it. Every grant names one of its ingresses and one of its users, grants have distinct identities and are sorted by them, fronts only name its ingresses, every step belongs to one of its chains, and no ingress stands on a retired machine.\<close>

theorem compiled_project_refs:
  assumes "distinct (map node_id (sn_nodes doc))"
  shows "refs_ok doc (snd (compile_app_with_listener_roots doc app given))"
  by (rule compile_app_refs_ok [OF assms])

lemma dead_chain_left_out:
  assumes "map_of (selected_chain_roots app) c = Some root" and "leads_to app c (ing_node root) \<inter> set (retired_nodes doc) \<noteq> {}"
    and "c \<in> chain_id ` set (app_chains app)"
  shows "c \<notin> ic_id ` set (ai_chains (snd (compile_app_with_listener_roots doc app given)))"
    and "c \<notin> is_chain ` set (ai_steps (snd (compile_app_with_listener_roots doc app given)))"
    and "c \<notin> ii_chain ` set (ai_ingresses (snd (compile_app_with_listener_roots doc app given)))"
proof -
  have dead: "c \<in> set (dead_chains doc app)" using assms unfolding dead_chains_def disabled_chains_iff by blast
  then show "c \<notin> ic_id ` set (ai_chains (snd (compile_app_with_listener_roots doc app given)))"
    unfolding compile_app_grants by blast
  then show "c \<notin> is_chain ` set (ai_steps (snd (compile_app_with_listener_roots doc app given)))"
    using step_chain_listed by blast
  show "c \<notin> ii_chain ` set (ai_ingresses (snd (compile_app_with_listener_roots doc app given)))"
    using dead unfolding compile_app_parts by (auto simp: ingress_of_def live_ingresses_def is_live_ingress_def)
qed

text \<open>C39: a chain of the project whose head leads to a retired machine is left out as a whole: the compiled project has neither the chain nor a step or an ingress of it. A compiled project has a step on a retired machine only where the chain's own head does not lead there and a reused listener of the same chain does; the witness shows that this does occur.\<close>

theorem retired_steps_only_behind_listeners:
  assumes "ir = snd (compile_app_with_listener_roots doc app given)"
  shows "(\<forall>c root. c \<in> chain_id ` set (app_chains app) \<and> map_of (selected_chain_roots app) c = Some root \<and>
      leads_to app c (ing_node root) \<inter> set (retired_nodes doc) \<noteq> {} \<longrightarrow>
      c \<notin> ic_id ` set (ai_chains ir) \<and> c \<notin> is_chain ` set (ai_steps ir) \<and> c \<notin> ii_chain ` set (ai_ingresses ir)) \<and>
    (\<forall>s \<in> set (ai_steps ir). is_node s \<in> set (retired_nodes doc) \<longrightarrow>
      (\<exists>root m. map_of (selected_chain_roots app) (is_chain s) = Some root \<and>
        is_node s \<notin> leads_to app (is_chain s) (ing_node root) \<and>
        (is_chain s, m) \<in> set (ai_listener_roots ir) \<and> is_node s \<in> leads_to app (is_chain s) m))"
  unfolding assms
  by (intro conjI allI ballI impI; (elim conjE)?)
    (assumption | rule dead_chain_left_out retired_step_behind_listener)+

section \<open>A project whose listener leads to a retired machine\<close>

text \<open>
  Chain \<open>c\<close> at machine \<open>a\<close> hands its traffic to the listener of chain \<open>d\<close> on
  machine \<open>b\<close>, which forwards to \<open>z\<close>, a retired machine. The head of \<open>d\<close> is \<open>a\<close> and
  does not lead there, so the chain is not dead.
\<close>

definition reuse_ingress :: "string \<Rightarrow> string \<Rightarrow> string \<Rightarrow> ingress" where
  "reuse_ingress i c n =
     \<lparr>ing_id = i, ing_chain = c, ing_node = n, ing_bind = IpV4 0, ing_port = 443, ing_front = None,
      ing_identity = \<lparr>ii_private_key = ''k'', ii_public_key = ''p'', ii_short_ids = []\<rparr>, ing_anytls_identity = None,
      ing_wires = AnyTls any_tls_default,
      ing_projection = \<lparr>pr_v4 = None, pr_v6 = None, pr_vless_encryption = None, pr_anytls = None, pr_hysteria2 = None, pr_mtproto = None\<rparr>,
      ing_guard = ingress_guard_default\<rparr>"

definition reuse_step :: "string \<Rightarrow> string \<Rightarrow> action \<Rightarrow> step" where
  "reuse_step c n act =
     \<lparr>step_chain = c, step_node = n, step_accept = Some \<lparr>acc_uuid = ''u'', acc_label = ''l''\<rparr>,
      step_hop_in = Some \<lparr>hi_port = 7000, hi_security = HopPlain\<rparr>,
      step_rules = [\<lparr>rule_match = MatchAny, rule_action = act\<rparr>]\<rparr>"

definition reuse_app :: app_view where
  "reuse_app =
     \<lparr>app_id = ''p'', app_label = ''p'',
      app_chains = map (\<lambda>c. \<lparr>chain_id = c, chain_tenant = ''t'', chain_name = c, chain_subscription_country = None\<rparr>) [''c'', ''d''],
      app_ingresses = [reuse_ingress ''i'' ''c'' ''a'', reuse_ingress ''j'' ''d'' ''a''],
      app_fronts = [],
      app_steps = [reuse_step ''c'' ''a'' (ReuseListener \<lparr>lr_chain = ''d'', lr_node = ''b''\<rparr> (ListenPublic V4) NoPool),
         reuse_step ''d'' ''b'' (Forward ''z'' DialOverlay NoPool)],
      app_grants = [\<lparr>gr_tenant = ''t'', gr_user = ''u'', gr_ingress = ''i''\<rparr>]\<rparr>"

definition reuse_doc :: model_snapshot where
  "reuse_doc =
     (sample_snapshot [sample_node ''a'' (Some ''h'') WgUdp, sample_node ''b'' (Some ''h'') WgUdp,
        sample_node ''z'' (Some ''h'') WgUdp\<lparr>node_retired := True\<rparr>] [reuse_app])
      \<lparr>sn_users := [\<lparr>user_id = ''u'', user_tenant = ''t'', user_uuid = ''x''\<rparr>]\<rparr>"

definition reuse_roots :: "(string \<times> string) list option" where
  "reuse_roots = Some (reachable_listener_roots_across_apps reuse_doc)"

lemma reuse_steps:
  "map (\<lambda>s. (is_chain s, is_node s)) (ai_steps (snd (compile_app_with_listener_roots reuse_doc reuse_app reuse_roots))) =
     [(''c'', ''a''), (''d'', ''a''), (''d'', ''b''), (''d'', ''z'')]"
  by code_simp


lemma reuse_retired: "''z'' \<in> set (retired_nodes reuse_doc)"
  by (simp add: retired_nodes_def reuse_doc_def sample_snapshot_def sample_node_def)

lemma reuse_step_z:
  obtains s where "s \<in> set (ai_steps (snd (compile_app_with_listener_roots reuse_doc reuse_app reuse_roots)))" "is_chain s = ''d''" "is_node s = ''z''"
proof -
  have "(''d'', ''z'') \<in> set (map (\<lambda>s. (is_chain s, is_node s)) (ai_steps (snd (compile_app_with_listener_roots reuse_doc reuse_app reuse_roots))))"
    unfolding reuse_steps by simp
  with that show ?thesis by auto
qed

theorem rule_tables_end_witness:
  "\<exists>s \<in> set (ai_steps (snd (compile_app_with_listener_roots reuse_doc reuse_app reuse_roots))). is_node s = ''z'' \<and> ir_match (last (is_rules s)) = MatchAny"
proof -
  obtain s where s: "s \<in> set (ai_steps (snd (compile_app_with_listener_roots reuse_doc reuse_app reuse_roots)))" "is_node s = ''z''"
    by (rule reuse_step_z)
  with rule_tables_end [OF s(1)] show ?thesis by blast
qed

theorem retired_steps_only_behind_listeners_witness:
  "\<exists>s \<in> set (ai_steps (snd (compile_app_with_listener_roots reuse_doc reuse_app reuse_roots))). is_node s \<in> set (retired_nodes reuse_doc) \<and>
    (\<exists>m. (''d'', m) \<in> set (ai_listener_roots (snd (compile_app_with_listener_roots reuse_doc reuse_app reuse_roots))) \<and> ''z'' \<in> leads_to reuse_app ''d'' m)"
proof -
  obtain s where s: "s \<in> set (ai_steps (snd (compile_app_with_listener_roots reuse_doc reuse_app reuse_roots)))" "is_chain s = ''d''" "is_node s = ''z''"
    by (rule reuse_step_z)
  have "is_node s \<in> set (retired_nodes reuse_doc)" unfolding s(3) by (rule reuse_retired)
  note behind = retired_steps_only_behind_listeners [OF refl, THEN conjunct2, THEN bspec, OF s(1), THEN mp, OF this, unfolded s(2,3)]
  from \<open>is_node s \<in> set (retired_nodes reuse_doc)\<close> behind s(1) show ?thesis by blast
qed

theorem compiled_project_refs_witness:
  "refs_ok reuse_doc (snd (compile_app_with_listener_roots reuse_doc reuse_app reuse_roots)) \<and> 
    map ig_user (ai_grants (snd (compile_app_with_listener_roots reuse_doc reuse_app reuse_roots))) = [''u'']"
proof
  show "refs_ok reuse_doc (snd (compile_app_with_listener_roots reuse_doc reuse_app reuse_roots))"
    by (rule compiled_project_refs) (simp add: reuse_doc_def sample_snapshot_def sample_node_def)
  show "map ig_user (ai_grants (snd (compile_app_with_listener_roots reuse_doc reuse_app reuse_roots))) = [''u'']" by code_simp
qed

theorem compiled_steps_exact_witness:
  "is_node ` set (rcc_steps (compile_chain (chain_input reuse_doc reuse_app reuse_roots (app_chains reuse_app ! 1)))) =
     chain_walk (chain_input reuse_doc reuse_app reuse_roots (app_chains reuse_app ! 1)) ''a''"
proof -
  have "rci_root (chain_input reuse_doc reuse_app reuse_roots (app_chains reuse_app ! 1)) = Some ''a''" by code_simp
  from compiled_steps_exact [OF this] show ?thesis by blast
qed

end
