(* ===== verification/Hop_Guarantees.thy ===== *)
theory Hop_Guarantees
  imports Hops Routing_Guarantees
begin

text \<open>
  What the hops of a compiled project are: one per forwarding edge, dialed where the other end
  can be reached, with the other end's credential and the public half of its wire.
\<close>

section \<open>Where a hop may be dialed\<close>

definition outside_nat :: "app_node \<Rightarrow> string \<Rightarrow> bool" where
  "outside_nat n address \<longleftrightarrow>
     an_public_ipv4 n = Some address \<and> \<not> an_public_ipv4_nat n \<or> an_public_ipv6 n = Some address \<and> \<not> an_public_ipv6_nat n"

definition behind_nat :: "app_node \<Rightarrow> string \<Rightarrow> bool" where
  "behind_nat n address \<longleftrightarrow>
     an_public_ipv4 n = Some address \<and> an_public_ipv4_nat n \<or> an_public_ipv6 n = Some address \<and> an_public_ipv6_nat n"

lemma dialable_outside_nat: "dialable_public_host n family = Some host \<Longrightarrow> outside_nat n host"
  by (cases family) (auto simp: dialable_public_host_def outside_nat_def split: if_splits option.splits)

lemma no_nat_match: "nat_public_match n host = None \<longleftrightarrow> \<not> behind_nat n host"
  by (auto simp: nat_public_match_def behind_nat_def)

text \<open>The contract of a resolved address, by path.\<close>

fun dial_ok :: "string \<Rightarrow> string \<Rightarrow> ir_hop_in \<Rightarrow> hop_endpoints \<Rightarrow> string \<Rightarrow> u16 \<Rightarrow> hop_path \<Rightarrow> bool" where
  "dial_ok from to entry ends address port PathOverlay \<longleftrightarrow>
     he_source_on_overlay ends \<and> he_linked ends \<and> port = ih_port entry \<and>
     (\<exists>a. he_target_overlay ends = Some a \<and> address = show_ipv4 a)"
| "dial_ok from to entry ends address port PathDirect \<longleftrightarrow>
     (\<forall>n. he_target ends = Some n \<longrightarrow> \<not> behind_nat n address \<or> outside_nat n address)"
| "dial_ok from to entry ends address port PathReverse \<longleftrightarrow>
     port = ih_port entry \<and>
     (\<exists>n. he_source ends = Some n \<and> outside_nat n address)"
| "dial_ok from to entry ends address port PathLocal \<longleftrightarrow>
     from = to \<and> port = ih_port entry \<and> address \<in> {''127.0.0.1'', ''::1''}"

lemma parse_addr_path:
  "parse_addr at raw = (ds, Some (host, port, path)) \<Longrightarrow> path = PathDirect \<and> ds = []"
  by (auto simp: parse_addr_def Let_def split: sum.splits if_splits option.splits)

lemma parse_addr_reports: "parse_addr at raw = (ds, None) \<Longrightarrow> ds \<noteq> []"
  by (auto simp: parse_addr_def Let_def malformed_def split: sum.splits if_splits option.splits)

lemma parse_listener_host_cases:
  "parse_listener_host at raw = (ds, Some host) \<Longrightarrow> ds = []"
  "parse_listener_host at raw = (ds, None) \<Longrightarrow> ds \<noteq> []"
  by (auto simp: parse_listener_host_def Let_def malformed_def split: if_splits)

text \<open>A dial resolves to an address that meets the contract, or says why not.\<close>

lemma dial_overlay_ok:
  "dial_overlay at from to entry ends = (ds, Some (a, p, path)) \<Longrightarrow> dial_ok from to entry ends a p path \<and> ds = []"
  "dial_overlay at from to entry ends = (ds, None) \<Longrightarrow> ds \<noteq> []"
  by (auto simp: dial_overlay_def unreachable_def split: option.splits if_splits)

lemma dial_target_ok:
  "dial_target at from to dial entry ends = (ds, Some (a, p, path)) \<Longrightarrow> dial_ok from to entry ends a p path \<and> ds = []"
proof (induction "at" "from" "to" dial entry ends rule: dial_target.induct)
  case (3 loc src tgt raw entry ends)
  obtain d r where r: "parse_addr loc raw = (d, r)" by force
  show ?case
  proof (cases r)
    case (Some x)
    obtain h q w where x: "x = (h, q, w)" by (cases x)
    have w: "w = PathDirect" "d = []" using parse_addr_path r Some x by blast+
    show ?thesis using 3 r Some x w by (auto simp: nat_public_def no_nat_match [symmetric] split: option.splits if_splits)
  qed (use 3 r in simp)
next
  case (5 loc src tgt raw entry ends)
  obtain d r where r: "parse_listener_host loc raw = (d, r)" by force
  show ?case
    using 5 r parse_listener_host_cases(1) [of loc raw d] by (cases r) (auto simp: nat_public_def no_nat_match [symmetric] split: option.splits)
qed (auto simp: unreachable_def dest: dial_overlay_ok(1) dialable_outside_nat split: option.splits)

text \<open>
  The path a dial asks for, and what its address has to be: a dial by family names an address of
  the target in front of any NAT, a written address is none the target holds behind one.
\<close>

fun dial_path :: "relay_dial_ref \<Rightarrow> hop_path" where
  "dial_path (ForwardDial DialOverlay) = PathOverlay"
| "dial_path (ListenerDial ListenOverlay) = PathOverlay"
| "dial_path (ForwardDial (DialReverse _)) = PathReverse"
| "dial_path _ = PathDirect"

definition edge_path :: "forward_action_ref \<Rightarrow> string \<Rightarrow> string \<Rightarrow> hop_path" where
  "edge_path f from to = (if fa_reused f \<and> from = to then PathLocal else dial_path (fa_dial f))"

fun address_ok :: "relay_dial_ref \<Rightarrow> ir_hop_in \<Rightarrow> hop_endpoints \<Rightarrow> string \<Rightarrow> u16 \<Rightarrow> bool" where
  "address_ok (ListenerDial (ListenPublic _)) entry ends address port \<longleftrightarrow>
     port = ih_port entry \<and> (\<exists>n. he_target ends = Some n \<and> outside_nat n address)"
| "address_ok (ListenerDial (ListenAddr _)) entry ends address port \<longleftrightarrow>
     port = ih_port entry \<and> (\<forall>n. he_target ends = Some n \<longrightarrow> \<not> behind_nat n address)"
| "address_ok (ForwardDial (DialAddr _)) entry ends address port \<longleftrightarrow>
     (\<forall>n. he_target ends = Some n \<longrightarrow> \<not> behind_nat n address)"
| "address_ok dial entry ends address port \<longleftrightarrow> port = ih_port entry"

lemma dial_overlay_path:
  "dial_overlay at from to entry ends = (ds, Some (a, p, path)) \<Longrightarrow> path = PathOverlay \<and> p = ih_port entry"
  by (auto simp: dial_overlay_def unreachable_def split: option.splits if_splits)

lemma dial_target_path:
  "dial_target at from to dial entry ends = (ds, Some (a, p, path)) \<Longrightarrow> path = dial_path dial \<and> address_ok dial entry ends a p"
proof (induction "at" "from" "to" dial entry ends rule: dial_target.induct)
  case (3 loc src tgt raw entry ends)
  then show ?case
    by (auto simp: nat_public_def no_nat_match [symmetric] dest: parse_addr_path split: prod.splits option.splits if_splits)
next
  case (5 loc src tgt raw entry ends)
  then show ?case
    by (auto simp: nat_public_def no_nat_match [symmetric] split: prod.splits option.splits)
qed (auto simp: unreachable_def dest: dial_overlay_path dialable_outside_nat split: option.splits)

lemma dial_target_reports:
  "dial_target at from to dial entry ends = (ds, None) \<Longrightarrow> ds \<noteq> []"
proof (induction "at" "from" "to" dial entry ends rule: dial_target.induct)
  case (3 loc src tgt raw entry ends)
  then show ?case
    by (auto simp: nat_public_def dest: parse_addr_reports split: prod.splits option.splits if_splits)
next
  case (5 loc src tgt raw entry ends)
  then show ?case
    by (auto simp: nat_public_def dest: parse_listener_host_cases(2) split: prod.splits option.splits)
qed (auto simp: unreachable_def dest: dial_overlay_ok(2) split: option.splits)

section \<open>One hop\<close>

definition edge_key :: "ir_step \<Rightarrow> forward_action_ref \<Rightarrow> hop_key" where
  "edge_key s f = (is_chain s, is_node s, fa_target_chain f, fa_target_node f)"

definition key_of_hop :: "hop \<Rightarrow> hop_key" where
  "key_of_hop h = (hop_chain h, hop_from h, hop_target_chain h, hop_to h)"

text \<open>
  A hop of the edge \<open>(s, f)\<close>: into the target's step with the target's credential, over
  the wire of the end that listens, on the path the rule asks for and at an address that meets the
  contract of that path and of the rule's dial.
\<close>

definition hop_of_edge ::
  "app_ir \<Rightarrow> ir_step list \<Rightarrow> system_ir \<Rightarrow> ir_step \<Rightarrow> forward_action_ref \<Rightarrow> hop \<Rightarrow> bool" where
  "hop_of_edge app targets sys s f h \<longleftrightarrow>
     key_of_hop h = edge_key s f \<and>
     (\<exists>t \<in> set targets. is_chain t = hop_target_chain h \<and> is_node t = hop_to h \<and>
        (\<exists>a entry. is_accept t = Some a \<and> hop_credential h = credential_of a \<and>
           is_hop_in (if is_reverse (fa_dial f) then s else t) = Some entry \<and>
           hop_security h = dial_wire (ih_security entry) \<and>
           dial_ok (hop_from h) (hop_to h) entry (hop_ends app sys (hop_from h) (hop_to h)) (hop_address h) (hop_port h) (hop_path h) \<and>
           (hop_path h \<noteq> PathLocal \<longrightarrow>
              address_ok (fa_dial f) entry (hop_ends app sys (hop_from h) (hop_to h)) (hop_address h) (hop_port h)))) \<and>
     hop_path h = edge_path f (hop_from h) (hop_to h) \<and>
     (is_reverse (fa_dial f) \<longrightarrow> hop_pool h = NoPool)"

lemma compile_hop_new:
  assumes "compile_hop app targets sys s f hops = (ds, hops')"
  shows "hops' = hops \<and> (ds \<noteq> [] \<or> map_of hops (edge_key s f) \<noteq> None) \<or>
    (\<exists>h. hops' = bput (edge_key s f) h hops \<and> hop_of_edge app targets sys s f h)"
proof (cases "find (\<lambda>c. is_chain c = fa_target_chain f \<and> is_node c = fa_target_node f) targets")
  case None
  then show ?thesis using assms by (auto simp: compile_hop_def Let_def)
next
  case (Some t)
  have t: "t \<in> set targets" "is_chain t = fa_target_chain f" "is_node t = fa_target_node f"
    using find_SomeD [OF Some] by auto
  show ?thesis
  proof (cases "is_accept t")
    case None
    then show ?thesis using assms Some by (auto simp: compile_hop_def Let_def)
  next
    case acc: (Some a)
    show ?thesis
    proof (cases "is_hop_in (if is_reverse (fa_dial f) then s else t)")
      case None
      then show ?thesis using assms Some acc by (auto simp: compile_hop_def Let_def)
    next
      case entry: (Some entry)
      let ?at = "hop_location s f" and ?to = "fa_target_node f"
      define resolved where "resolved = (if fa_reused f \<and> is_node s = ?to
        then ([], Some (''127.0.0.1'', ih_port entry, PathLocal))
        else dial_target ?at (is_node s) ?to (fa_dial f) entry (hop_ends app sys (is_node s) ?to))"
      show ?thesis
      proof (cases "map_of hops (edge_key s f)")
        case (Some old)
        then show ?thesis using assms \<open>find _ _ = Some t\<close> acc entry by (auto simp: compile_hop_def Let_def edge_key_def)
      next
        case fresh: None
        obtain d r where r: "resolved = (d, r)" by force
        show ?thesis
        proof (cases r)
          case None
          then have "d \<noteq> []" using r dial_target_reports by (auto simp: resolved_def split: if_splits)
          moreover have "hops' = hops" "ds = d"
            using assms \<open>find _ _ = Some t\<close> acc entry fresh r None
            by (simp_all add: compile_hop_def Let_def edge_key_def resolved_def [symmetric])
          ultimately show ?thesis by simp
        next
          case hit: (Some x)
          obtain address port path where x: "x = (address, port, path)" by (cases x)
          have ok: "dial_ok (is_node s) ?to entry (hop_ends app sys (is_node s) ?to) address port path"
            using r hit x dial_target_ok [of ?at "is_node s" ?to "fa_dial f" entry "hop_ends app sys (is_node s) ?to" d address port path]
            by (auto simp: resolved_def split: if_splits)
          have path: "path = edge_path f (is_node s) ?to" "path \<noteq> PathLocal \<longrightarrow>
              address_ok (fa_dial f) entry (hop_ends app sys (is_node s) ?to) address port"
            using r hit x dial_target_path [of ?at "is_node s" ?to "fa_dial f" entry "hop_ends app sys (is_node s) ?to" d address port path]
            by (auto simp: resolved_def edge_path_def split: if_splits)
          have "\<exists>h. hops' = bput (edge_key s f) h hops \<and> key_of_hop h = edge_key s f \<and> hop_credential h = credential_of a \<and>
              hop_security h = dial_wire (ih_security entry) \<and> hop_address h = address \<and> hop_port h = port \<and>
              hop_path h = path \<and> (is_reverse (fa_dial f) \<longrightarrow> hop_pool h = NoPool)"
            using assms \<open>find _ _ = Some t\<close> acc entry fresh r hit x
            by (auto simp: compile_hop_def Let_def edge_key_def key_of_hop_def resolved_def [symmetric])
          then obtain h where h: "hops' = bput (edge_key s f) h hops" "key_of_hop h = edge_key s f"
            "hop_credential h = credential_of a" "hop_security h = dial_wire (ih_security entry)"
            "hop_address h = address" "hop_port h = port" "hop_path h = path"
            "is_reverse (fa_dial f) \<longrightarrow> hop_pool h = NoPool" by blast
          have fields: "hop_from h = is_node s" "hop_to h = ?to" "hop_target_chain h = fa_target_chain f"
            using h(2) by (simp_all add: key_of_hop_def edge_key_def)
          have "hop_of_edge app targets sys s f h"
            unfolding hop_of_edge_def fields using h t acc entry ok path by auto
          with h(1) show ?thesis by blast
        qed
      qed
    qed
  qed
qed

section \<open>The table of hops\<close>

definition hop_table_ok ::
  "app_ir \<Rightarrow> ir_step list \<Rightarrow> system_ir \<Rightarrow> (ir_step \<times> forward_action_ref) set \<Rightarrow> (hop_key, hop) bmap \<Rightarrow> bool" where
  "hop_table_ok app targets sys done hops \<longleftrightarrow> bmap_ok hops \<and>
     (\<forall>k h. map_of hops k = Some h \<longrightarrow> key_of_hop h = k \<and> (\<exists>(s, f) \<in> done. hop_of_edge app targets sys s f h))"

lemma compile_edges_table:
  assumes "compile_edges app targets sys es (ds, hops) = (ds', hops')" and "hop_table_ok app targets sys done hops"
  shows "hop_table_ok app targets sys (done \<union> set es) hops' \<and> dom (map_of hops) \<subseteq> dom (map_of hops') \<and>
    set ds \<subseteq> set ds' \<and> (ds' = [] \<longrightarrow> (\<forall>(s, f) \<in> set es. edge_key s f \<in> dom (map_of hops')))"
  using assms
proof (induction es arbitrary: ds hops "done")
  case (Cons e es)
  obtain s f where e: "e = (s, f)" by force
  obtain d1 hops1 where step: "compile_hop app targets sys s f hops = (d1, hops1)" by force
  have next1: "compile_edges app targets sys es (ds @ d1, hops1) = (ds', hops')"
    using Cons.prems(1) e step by simp
  consider (same) "hops1 = hops" "d1 \<noteq> [] \<or> edge_key s f \<in> dom (map_of hops)"
    | (new) h where "hops1 = bput (edge_key s f) h hops" "hop_of_edge app targets sys s f h"
    using compile_hop_new [OF step] by blast
  then have one: "hop_table_ok app targets sys (insert e done) hops1 \<and> dom (map_of hops) \<subseteq> dom (map_of hops1) \<and>
      (d1 \<noteq> [] \<or> edge_key s f \<in> dom (map_of hops1))"
  proof cases
    case same
    then show ?thesis using Cons.prems(2) by (auto simp: hop_table_ok_def)
  next
    case new
    moreover have "key_of_hop h = edge_key s f" using new(2) by (simp add: hop_of_edge_def)
    ultimately show ?thesis using Cons.prems(2) e by (auto simp: hop_table_ok_def split: if_splits)
  qed
  note rest = Cons.IH [OF next1, of "insert e done"]
  have ok: "hop_table_ok app targets sys (insert e done \<union> set es) hops'" and grow: "dom (map_of hops1) \<subseteq> dom (map_of hops')"
    and ds: "set (ds @ d1) \<subseteq> set ds'"
    and keys: "ds' = [] \<longrightarrow> (\<forall>(s, f) \<in> set es. edge_key s f \<in> dom (map_of hops'))" using rest one by blast+
  have "insert e done \<union> set es = done \<union> set (e # es)" by auto
  moreover have "dom (map_of hops) \<subseteq> dom (map_of hops')" using one grow by blast
  moreover have "ds' = [] \<longrightarrow> edge_key s f \<in> dom (map_of hops')" using ds one grow by force
  ultimately show ?case using ok ds keys e by simp
qed auto


lemma local_address_fields [simp]:
  "key_of_hop (local_address ls h) = key_of_hop h" "hop_credential (local_address ls h) = hop_credential h"
  "hop_security (local_address ls h) = hop_security h" "hop_port (local_address ls h) = hop_port h"
  "hop_path (local_address ls h) = hop_path h" "hop_pool (local_address ls h) = hop_pool h"
  "hop_from (local_address ls h) = hop_from h" "hop_to (local_address ls h) = hop_to h"
  "hop_target_chain (local_address ls h) = hop_target_chain h"
  by (simp_all add: local_address_def key_of_hop_def)

lemma local_address_ok:
  "dial_ok from to entry ends (hop_address h) port (hop_path h) \<Longrightarrow>
     dial_ok from to entry ends (hop_address (local_address ls h)) port (hop_path h)"
  by (cases "hop_path h") (auto simp: local_address_def)

lemma local_address_same: "hop_path h \<noteq> PathLocal \<Longrightarrow> hop_address (local_address ls h) = hop_address h"
  by (simp add: local_address_def)

lemma hop_of_edge_local:
  assumes "hop_of_edge app targets sys s f h"
  shows "hop_of_edge app targets sys s f (local_address ls h)"
proof -
  let ?ends = "hop_ends app sys (hop_from h) (hop_to h)"
  obtain t a entry where "t \<in> set targets" "is_chain t = hop_target_chain h" "is_node t = hop_to h"
    "is_accept t = Some a" "hop_credential h = credential_of a"
    "is_hop_in (if is_reverse (fa_dial f) then s else t) = Some entry" "hop_security h = dial_wire (ih_security entry)"
    and ok: "dial_ok (hop_from h) (hop_to h) entry ?ends (hop_address h) (hop_port h) (hop_path h)"
    and addr: "hop_path h \<noteq> PathLocal \<longrightarrow> address_ok (fa_dial f) entry ?ends (hop_address h) (hop_port h)"
    and "key_of_hop h = edge_key s f" "hop_path h = edge_path f (hop_from h) (hop_to h)"
      "is_reverse (fa_dial f) \<longrightarrow> hop_pool h = NoPool"
    using assms unfolding hop_of_edge_def by blast
  moreover have "hop_path h \<noteq> PathLocal \<longrightarrow>
      address_ok (fa_dial f) entry ?ends (hop_address (local_address ls h)) (hop_port h)"
    using addr local_address_same [of h ls] by simp
  ultimately show ?thesis
    unfolding hop_of_edge_def local_address_fields using local_address_ok [OF ok, of ls] by blast
qed

lemma compiled_hops:
  obtains ds table where "compile_edges app targets sys (hop_edges (ai_steps app)) ([], []) = (ds, table)"
    "hop_table_ok app targets sys (set (hop_edges (ai_steps app))) table"
    "ds = [] \<longrightarrow> (\<forall>(s, f) \<in> set (hop_edges (ai_steps app)). edge_key s f \<in> dom (map_of table))"
    "fst (compile_hops_with_targets app targets sys) = ds"
    "ai_hops (snd (compile_hops_with_targets app targets sys)) =
       map (local_address (ipv6_public_listeners (map snd table))) (map snd table)"
proof -
  obtain ds table where run: "compile_edges app targets sys (hop_edges (ai_steps app)) ([], []) = (ds, table)" by force
  have "hop_table_ok app targets sys {} []" by (simp add: hop_table_ok_def)
  from compile_edges_table [OF run this] run that [of ds table] show thesis
    by (simp add: compile_hops_with_targets_def)
qed

lemma table_entry:
  assumes "hop_table_ok app targets sys done table" and "(k, h) \<in> set table"
  shows "map_of table k = Some h" and "key_of_hop h = k" and "\<exists>(s, f) \<in> done. hop_of_edge app targets sys s f h"
proof -
  show look: "map_of table k = Some h" using assms by (simp add: hop_table_ok_def)
  show "key_of_hop h = k" and "\<exists>(s, f) \<in> done. hop_of_edge app targets sys s f h"
    using assms(1) look unfolding hop_table_ok_def by blast+
qed

lemma hop_sound:
  assumes "h \<in> set (ai_hops (snd (compile_hops_with_targets app targets sys)))"
  shows "\<exists>(s, f) \<in> set (hop_edges (ai_steps app)). hop_of_edge app targets sys s f h"
proof -
  obtain ds table where ok: "hop_table_ok app targets sys (set (hop_edges (ai_steps app))) table"
    and hops: "ai_hops (snd (compile_hops_with_targets app targets sys)) =
      map (local_address (ipv6_public_listeners (map snd table))) (map snd table)"
    by (rule compiled_hops)
  obtain k h' where h': "(k, h') \<in> set table" "h = local_address (ipv6_public_listeners (map snd table)) h'"
    using assms unfolding hops by auto
  from table_entry(3) [OF ok h'(1)] show ?thesis unfolding h'(2) using hop_of_edge_local by blast
qed

text \<open>C8: every hop the compiler emits comes from a forwarding rule and enters an existing step of the target chain: with exactly that step's accept credential, over the public half of the wire of the end that listens, on the path the rule asks for (a reused listener of the same machine is dialed locally) and at an address the other end can be dialed at. An overlay hop joins two linked machines of the overlay at the target's overlay address and relay port; a direct hop to a public listener dials an address the target holds outside NAT, one to a written address none that the target holds behind NAT; a reverse hop names a public address of the source; a local hop stays on one machine.\<close>

theorem hops_sound:
  assumes "h \<in> set (ai_hops (snd (compile_hops_with_targets app targets sys)))"
  shows "\<exists>(s, f) \<in> set (hop_edges (ai_steps app)). hop_of_edge app targets sys s f h"
  by (rule hop_sound [OF assms])

lemma hop_keys:
  "compile_edges app targets sys (hop_edges (ai_steps app)) ([], []) = (ds, table) \<Longrightarrow>
   hop_table_ok app targets sys (set (hop_edges (ai_steps app))) table \<Longrightarrow>
   ai_hops (snd (compile_hops_with_targets app targets sys)) =
      map (local_address (ipv6_public_listeners (map snd table))) (map snd table) \<Longrightarrow>
   map key_of_hop (ai_hops (snd (compile_hops_with_targets app targets sys))) = map fst table"
  using table_entry(2) by (auto simp: comp_def)

lemma hop_keys_exact:
  assumes "fst (compile_hops_with_targets app targets sys) = []"
  shows "distinct (map key_of_hop (ai_hops (snd (compile_hops_with_targets app targets sys)))) \<and>
    key_of_hop ` set (ai_hops (snd (compile_hops_with_targets app targets sys))) =
      (\<lambda>(s, f). edge_key s f) ` set (hop_edges (ai_steps app))"
proof -
  obtain ds table where run: "compile_edges app targets sys (hop_edges (ai_steps app)) ([], []) = (ds, table)"
    and ok: "hop_table_ok app targets sys (set (hop_edges (ai_steps app))) table"
    and all: "ds = [] \<longrightarrow> (\<forall>(s, f) \<in> set (hop_edges (ai_steps app)). edge_key s f \<in> dom (map_of table))"
    and ds: "fst (compile_hops_with_targets app targets sys) = ds"
    and hops: "ai_hops (snd (compile_hops_with_targets app targets sys)) =
      map (local_address (ipv6_public_listeners (map snd table))) (map snd table)"
    by (rule compiled_hops)
  note keys = hop_keys [OF run ok hops]
  have "distinct (map fst table)" using ok by (simp add: hop_table_ok_def)
  moreover have "set (map fst table) = (\<lambda>(s, f). edge_key s f) ` set (hop_edges (ai_steps app))"
  proof
    show "set (map fst table) \<subseteq> (\<lambda>(s, f). edge_key s f) ` set (hop_edges (ai_steps app))"
    proof
      fix k assume "k \<in> set (map fst table)"
      then obtain h where h: "(k, h) \<in> set table" by auto
      obtain s f where "(s, f) \<in> set (hop_edges (ai_steps app))" "hop_of_edge app targets sys s f h"
        using table_entry(3) [OF ok h] by blast
      moreover from this(2) have "edge_key s f = k" using table_entry(2) [OF ok h] by (simp add: hop_of_edge_def)
      ultimately show "k \<in> (\<lambda>(s, f). edge_key s f) ` set (hop_edges (ai_steps app))" by force
    qed
    show "(\<lambda>(s, f). edge_key s f) ` set (hop_edges (ai_steps app)) \<subseteq> set (map fst table)"
      using all ds assms by (force simp: dom_map_of_conv_image_fst)
  qed
  ultimately show ?thesis unfolding keys [symmetric] by simp
qed

lemma hop_keys_of_edges:
  assumes "fst (compile_hops_with_targets app targets sys) = []"
  shows "key_of_hop ` set (ai_hops (snd (compile_hops_with_targets app targets sys))) =
    (\<lambda>(s, f). edge_key s f) ` set (hop_edges (ai_steps app))"
  using hop_keys_exact [OF assms] by blast

text \<open>C18: when the hop stage reports nothing, there is exactly one hop for every distinct forwarding edge of the project: none is dropped silently, none is emitted twice and none is invented.\<close>

theorem hops_complete:
  assumes "fst (compile_hops_with_targets app targets sys) = []"
  shows "distinct (map key_of_hop (ai_hops (snd (compile_hops_with_targets app targets sys)))) \<and>
    key_of_hop ` set (ai_hops (snd (compile_hops_with_targets app targets sys))) =
      (\<lambda>(s, f). edge_key s f) ` set (hop_edges (ai_steps app))"
  by (rule hop_keys_exact [OF assms])

section \<open>A hop to a reused listener\<close>

text \<open>The step of chain \<open>c\<close> in the project with the reused listener, among all its steps.\<close>

definition reuse_ir :: app_ir where
  "reuse_ir = snd (compile_app_with_listener_roots reuse_doc reuse_app reuse_roots)"

definition entry_ir :: app_ir where
  "entry_ir = reuse_ir\<lparr>ai_steps := filter (\<lambda>s. is_chain s = ''c'') (ai_steps reuse_ir)\<rparr>"

definition no_mesh :: system_ir where
  "no_mesh = \<lparr>si_revision = 1, si_overlay_cidr = sn_overlay_cidr reuse_doc, si_settings = sn_settings reuse_doc,
     si_node_count = 0, si_nodes = [], si_links = []\<rparr>"

definition entry_step :: ir_step where
  "entry_step = \<lparr>is_id = ''s-c-a'', is_app_id = Some ''p'', is_chain = ''c'', is_node = ''a'', is_accept = None,
     is_hop_in = None, is_rules = [\<lparr>ir_match = MatchAny,
       ir_action = ReuseListener \<lparr>lr_chain = ''d'', lr_node = ''b''\<rparr> (ListenPublic V4) NoPool\<rparr>]\<rparr>"

lemma entry_ir_steps: "ai_steps entry_ir = [entry_step]"
  by code_simp

lemma listener_step:
  "map_option (\<lambda>t. (is_accept t, is_hop_in t)) (find (\<lambda>t. is_chain t = ''d'' \<and> is_node t = ''b'') (ai_steps reuse_ir)) =
     Some (Some \<lparr>ia_uuid = ''u'', ia_label = ''l''\<rparr>, Some \<lparr>ih_port = 7000, ih_security = HopPlain\<rparr>)"
  by code_simp

lemma listener_host:
  "map_option (\<lambda>n. dialable_public_host n V4) (find (\<lambda>n. an_id n = ''b'') (ai_nodes entry_ir)) = Some (Some ''h'')"
  by code_simp

lemma entry_ir_hop:
  "fst (compile_hops_with_targets entry_ir (ai_steps reuse_ir) no_mesh) = []"
  "map (\<lambda>h. (hop_to h, hop_address h, hop_path h)) (ai_hops (snd (compile_hops_with_targets entry_ir (ai_steps reuse_ir) no_mesh))) =
     [(''b'', ''h'', PathDirect)]"
proof -
  obtain t where t: "find (\<lambda>t. is_chain t = ''d'' \<and> is_node t = ''b'') (ai_steps reuse_ir) = Some t"
    "is_accept t = Some \<lparr>ia_uuid = ''u'', ia_label = ''l''\<rparr>" "is_hop_in t = Some \<lparr>ih_port = 7000, ih_security = HopPlain\<rparr>"
    using listener_step by auto
  obtain n where n: "find (\<lambda>n. an_id n = ''b'') (ai_nodes entry_ir) = Some n" "dialable_public_host n V4 = Some ''h''"
    using listener_host by auto
  have edges: "hop_edges (ai_steps entry_ir) = [(entry_step, \<lparr>fa_target_chain = ''d'', fa_target_node = ''b'',
      fa_dial = ListenerDial (ListenPublic V4), fa_pool = NoPool, fa_reused = True\<rparr>)]"
    unfolding entry_ir_steps by (simp add: hop_edges_def entry_step_def List.map_filter_simps)
  have ends: "he_target (hop_ends entry_ir no_mesh ''a'' ''b'') = Some n" using n(1) by (simp add: hop_ends_def)
  show "fst (compile_hops_with_targets entry_ir (ai_steps reuse_ir) no_mesh) = []"
    "map (\<lambda>h. (hop_to h, hop_address h, hop_path h)) (ai_hops (snd (compile_hops_with_targets entry_ir (ai_steps reuse_ir) no_mesh))) =
     [(''b'', ''h'', PathDirect)]"
    using t n(2) ends
    by (simp_all add: compile_hops_with_targets_def edges compile_hop_def Let_def entry_step_def local_address_def)
qed

theorem hops_sound_witness:
  "\<exists>h s f. h \<in> set (ai_hops (snd (compile_hops_with_targets entry_ir (ai_steps reuse_ir) no_mesh))) \<and>
     hop_path h = PathDirect \<and> hop_of_edge entry_ir (ai_steps reuse_ir) no_mesh s f h"
proof -
  have "(''b'', ''h'', PathDirect) \<in> set (map (\<lambda>h. (hop_to h, hop_address h, hop_path h))
      (ai_hops (snd (compile_hops_with_targets entry_ir (ai_steps reuse_ir) no_mesh))))"
    unfolding entry_ir_hop by simp
  then obtain h where h: "h \<in> set (ai_hops (snd (compile_hops_with_targets entry_ir (ai_steps reuse_ir) no_mesh)))"
    "hop_path h = PathDirect" by auto
  with hops_sound [OF h(1)] show ?thesis by blast
qed

theorem hops_complete_witness:
  "card ((\<lambda>(s, f). edge_key s f) ` set (hop_edges (ai_steps entry_ir))) = 1"
proof -
  have "length (map (\<lambda>h. (hop_to h, hop_address h, hop_path h))
      (ai_hops (snd (compile_hops_with_targets entry_ir (ai_steps reuse_ir) no_mesh)))) = 1"
    unfolding entry_ir_hop by simp
  then have one: "length (map key_of_hop (ai_hops (snd (compile_hops_with_targets entry_ir (ai_steps reuse_ir) no_mesh)))) = 1"
    by simp
  note complete = hops_complete [OF entry_ir_hop(1)]
  show ?thesis using distinct_card [OF complete [THEN conjunct1]] one
    unfolding complete [THEN conjunct2, symmetric] by simp
qed

end
