(* ===== verification/Graph_Cycles.thy ===== *)
theory Graph_Cycles
  imports Prelude
begin

text \<open>
  The two depth-first searches of the validator, over a successor function. A node is visited
  once; \<open>fuel\<close> bounds the depth of the recursion, which a list \<open>N\<close> of the nodes with
  successors bounds in turn. \<open>cycle_walk\<close> finds the back edges, \<open>reach_walk\<close> looks for
  one node and stops when it meets it.
\<close>

fun cycle_walk ::
  "nat \<Rightarrow> ('a \<Rightarrow> 'a list) \<Rightarrow> 'a list \<Rightarrow> 'a list \<Rightarrow> 'a list \<times> 'a list \<Rightarrow> ('a list \<times> 'a list) option" where
  "cycle_walk fuel succ stack [] acc = Some acc"
| "cycle_walk fuel succ stack (x # xs) (visited, found) =
     (if x \<in> set stack then cycle_walk fuel succ stack xs (visited, found @ [x])
      else if x \<in> set visited then cycle_walk fuel succ stack xs (visited, found)
      else case fuel of
        0 \<Rightarrow> None
      | Suc depth \<Rightarrow>
          (case cycle_walk depth succ (x # stack) (succ x) (x # visited, found) of
             None \<Rightarrow> None
           | Some acc \<Rightarrow> cycle_walk fuel succ stack xs acc))"

fun reach_walk ::
  "nat \<Rightarrow> ('a \<Rightarrow> 'a list) \<Rightarrow> 'a \<Rightarrow> 'a list \<Rightarrow> 'a list \<Rightarrow> (bool \<times> 'a list) option" where
  "reach_walk fuel succ wanted [] seen = Some (False, seen)"
| "reach_walk fuel succ wanted (x # xs) seen =
     (if x = wanted then Some (True, seen)
      else if x \<in> set seen then reach_walk fuel succ wanted xs seen
      else case fuel of
        0 \<Rightarrow> None
      | Suc depth \<Rightarrow>
          (case reach_walk depth succ wanted (succ x) (x # seen) of
             None \<Rightarrow> None
           | Some (True, seen') \<Rightarrow> Some (True, seen')
           | Some (False, seen') \<Rightarrow> reach_walk fuel succ wanted xs seen'))"

section \<open>Enough fuel\<close>

lemma card_rest_insert:
  "finite N \<Longrightarrow> x \<in> N \<Longrightarrow> x \<notin> S \<Longrightarrow> Suc (card (N - insert x S)) = card (N - S)"
  by (metis Diff_insert card_Suc_Diff1 finite_Diff insert_Diff Diff_iff)

lemma card_rest_mono: "finite N \<Longrightarrow> S \<subseteq> T \<Longrightarrow> card (N - T) \<le> card (N - S)"
  by (intro card_mono) auto

lemma cycle_walk_Cons:
  assumes "cycle_walk fuel succ stack (x # xs) (visited, found) = Some r"
  obtains (back_edge) "x \<in> set stack" "cycle_walk fuel succ stack xs (visited, found @ [x]) = Some r"
    | (old) "x \<notin> set stack" "x \<in> set visited" "cycle_walk fuel succ stack xs (visited, found) = Some r"
    | (new) depth v f where "x \<notin> set stack" "x \<notin> set visited" "fuel = Suc depth"
        "cycle_walk depth succ (x # stack) (succ x) (x # visited, found) = Some (v, f)"
        "cycle_walk fuel succ stack xs (v, f) = Some r"
  using assms by (cases fuel) (auto split: if_splits option.splits)

lemma reach_walk_Cons:
  assumes "reach_walk fuel succ wanted (x # xs) seen = Some (b, seen')"
  obtains (hit) "x = wanted" "b" "seen' = seen"
    | (old) "x \<noteq> wanted" "x \<in> set seen" "reach_walk fuel succ wanted xs seen = Some (b, seen')"
    | (inside) depth where "x \<noteq> wanted" "x \<notin> set seen" "fuel = Suc depth" "b"
        "reach_walk depth succ wanted (succ x) (x # seen) = Some (True, seen')"
    | (after) depth s where "x \<noteq> wanted" "x \<notin> set seen" "fuel = Suc depth"
        "reach_walk depth succ wanted (succ x) (x # seen) = Some (False, s)"
        "reach_walk fuel succ wanted xs s = Some (b, seen')"
  using assms by (cases fuel) (auto split: if_splits option.splits bool.splits prod.splits)

lemma cycle_walk_grows:
  "cycle_walk fuel succ stack xs (visited, found) = Some (visited', found') \<Longrightarrow>
     set visited \<subseteq> set visited' \<and> set found \<subseteq> set found'"
proof (induction fuel succ stack xs "(visited, found)" arbitrary: visited found visited' found' rule: cycle_walk.induct)
  case (2 fuel succ stack x xs visited found)
  from "2.prems" show ?case
  proof (cases rule: cycle_walk_Cons)
    case back_edge
    then show ?thesis using "2.hyps"(1) by fastforce
  next
    case old
    then show ?thesis using "2.hyps"(2) by fastforce
  next
    case (new depth v f)
    then show ?thesis using "2.hyps"(3) [OF new(1-4)] "2.hyps"(4) [OF new(1-5)] by auto
  qed
qed simp

lemma reach_walk_grows:
  "reach_walk fuel succ wanted xs seen = Some (b, seen') \<Longrightarrow> set seen \<subseteq> set seen'"
proof (induction fuel succ wanted xs seen arbitrary: b seen' rule: reach_walk.induct)
  case (2 fuel succ wanted x xs seen)
  from "2.prems" show ?case
  proof (cases rule: reach_walk_Cons)
    case (after depth s)
    then show ?thesis using "2.IH"(2) [OF after(1-4)] "2.IH"(3) [OF after(1-4) refl refl after(5)] by auto
  qed (use "2.IH" in auto)
qed simp

lemma cycle_walk_returns:
  assumes "finite N" and "\<And>x. x \<notin> N \<Longrightarrow> succ x = []" and "card (N - set visited) < fuel \<or> xs = []"
  shows "cycle_walk fuel succ stack xs (visited, found) \<noteq> None"
  using assms(2,3)
proof (induction fuel succ stack xs "(visited, found)" arbitrary: visited found rule: cycle_walk.induct)
  case (2 fuel succ stack x xs visited found)
  show ?case
  proof (cases "x \<in> set stack \<or> x \<in> set visited")
    case True
    then show ?thesis using 2 by auto
  next
    case False
    obtain depth where fuel: "fuel = Suc depth" using "2.prems"(2) by (cases fuel) auto
    have "cycle_walk depth succ (x # stack) (succ x) (x # visited, found) \<noteq> None"
    proof (rule "2.hyps"(3) [OF _ _ fuel])
      show "card (N - set (x # visited)) < depth \<or> succ x = []"
        using False "2.prems" fuel card_rest_insert [OF assms(1), of x "set visited"] by (cases "x \<in> N") auto
    qed (use False "2.prems"(1) in auto)
    then obtain v f where inner: "cycle_walk depth succ (x # stack) (succ x) (x # visited, found) = Some (v, f)" by auto
    have "set visited \<subseteq> set v" using cycle_walk_grows [OF inner] by auto
    then have "card (N - set v) < fuel" using card_rest_mono [OF assms(1)] "2.prems"(2) by (meson le_less_trans list.discI)
    then have "cycle_walk fuel succ stack xs (v, f) \<noteq> None"
      using "2.hyps"(4) [OF _ _ fuel inner] False "2.prems"(1) by auto
    then show ?thesis using False fuel inner by simp
  qed
qed simp

lemma reach_walk_returns:
  assumes "finite N" and "\<And>x. x \<notin> N \<Longrightarrow> succ x = []" and "card (N - set seen) < fuel \<or> xs = []"
  shows "reach_walk fuel succ wanted xs seen \<noteq> None"
  using assms(2,3)
proof (induction fuel succ wanted xs seen rule: reach_walk.induct)
  case (2 fuel succ wanted x xs seen)
  show ?case
  proof (cases "x = wanted \<or> x \<in> set seen")
    case True
    then show ?thesis using 2 by auto
  next
    case False
    obtain depth where fuel: "fuel = Suc depth" using "2.prems"(2) by (cases fuel) auto
    have "reach_walk depth succ wanted (succ x) (x # seen) \<noteq> None"
    proof (rule "2.IH"(2) [OF _ _ fuel])
      show "card (N - set (x # seen)) < depth \<or> succ x = []"
        using False "2.prems" fuel card_rest_insert [OF assms(1), of x "set seen"] by (cases "x \<in> N") auto
    qed (use False "2.prems"(1) in auto)
    then obtain b s where inner: "reach_walk depth succ wanted (succ x) (x # seen) = Some (b, s)" by auto
    have "set seen \<subseteq> set s" using reach_walk_grows [OF inner] by auto
    then have "card (N - set s) < fuel" using card_rest_mono [OF assms(1)] "2.prems"(2) by (meson le_less_trans list.discI)
    then have "b \<or> reach_walk fuel succ wanted xs s \<noteq> None"
      using "2.IH"(3) [OF _ _ fuel inner refl _] False "2.prems"(1) by (cases b) auto
    then show ?thesis using False fuel inner by (auto split: bool.split)
  qed
qed simp

section \<open>What the search for one node finds\<close>

lemma reach_walk_True:
  "reach_walk fuel succ wanted xs seen = Some (True, seen') \<Longrightarrow> wanted \<in> reach_set succ (set xs)"
proof (induction fuel succ wanted xs seen arbitrary: seen' rule: reach_walk.induct)
  case (2 fuel succ wanted x xs seen)
  have sub: "reach_set succ (set xs) \<subseteq> reach_set succ (set (x # xs))" by (rule reach_set_mono) auto
  have step: "reach_set succ (set (succ x)) \<subseteq> reach_set succ (set (x # xs))" by (rule reach_set_least) auto
  show ?case
    using 2 sub step by (auto split: if_splits nat.splits option.splits bool.splits prod.splits)
qed simp

lemma reach_walk_False:
  "reach_walk fuel succ wanted xs seen = Some (False, seen') \<Longrightarrow> wanted \<notin> set seen \<Longrightarrow>
     wanted \<notin> set seen' \<and> set xs \<subseteq> set seen' \<and> (\<forall>x \<in> set seen' - set seen. set (succ x) \<subseteq> set seen')"
proof (induction fuel succ wanted xs seen arbitrary: seen' rule: reach_walk.induct)
  case (2 fuel succ wanted x xs seen)
  have ne: "x \<noteq> wanted" using "2.prems"(1) by auto
  show ?case
  proof (cases "x \<in> set seen")
    case True
    then have "reach_walk fuel succ wanted xs seen = Some (False, seen')" using "2.prems"(1) ne by simp
    with "2.IH"(1) [OF ne True this "2.prems"(2)] reach_walk_grows [OF this] True show ?thesis by auto
  next
    case False
    obtain depth s where fuel: "fuel = Suc depth"
      and inner: "reach_walk depth succ wanted (succ x) (x # seen) = Some (False, s)"
      and rest: "reach_walk fuel succ wanted xs s = Some (False, seen')"
      using "2.prems"(1) ne False by (auto split: nat.splits option.splits bool.splits prod.splits)
    have i: "wanted \<notin> set s \<and> set (succ x) \<subseteq> set s \<and> (\<forall>y \<in> set s - set (x # seen). set (succ y) \<subseteq> set s)"
      using "2.IH"(2) [OF ne False fuel inner] ne "2.prems"(2) by simp
    have r: "wanted \<notin> set seen' \<and> set xs \<subseteq> set seen' \<and> (\<forall>y \<in> set seen' - set s. set (succ y) \<subseteq> set seen')"
      using "2.IH"(3) [OF ne False fuel inner refl refl rest] i by auto
    have g: "set (x # seen) \<subseteq> set s" "set s \<subseteq> set seen'" using reach_walk_grows [OF inner] reach_walk_grows [OF rest] by auto
    show ?thesis using i r g by (auto; blast)
  qed
qed simp

lemma reach_walk_exact:
  assumes "finite N" and "\<And>x. x \<notin> N \<Longrightarrow> succ x = []" and "card N < fuel"
  shows "\<exists>seen. reach_walk fuel succ wanted xs [] = Some (wanted \<in> reach_set succ (set xs), seen)"
proof -
  have "reach_walk fuel succ wanted xs [] \<noteq> None"
    by (rule reach_walk_returns [OF assms(1,2)]) (use assms(3) in auto)
  then obtain b seen where r: "reach_walk fuel succ wanted xs [] = Some (b, seen)" by auto
  have "b \<longleftrightarrow> wanted \<in> reach_set succ (set xs)"
  proof (cases b)
    case True
    then show ?thesis using reach_walk_True r by force
  next
    case False
    then have f: "wanted \<notin> set seen" "set xs \<subseteq> set seen" "\<forall>x \<in> set seen. set (succ x) \<subseteq> set seen"
      using reach_walk_False [of fuel succ wanted xs "[]" seen] r by auto
    then have "reach_set succ (set xs) \<subseteq> set seen" by (intro reach_set_least) auto
    with f(1) False show ?thesis by auto
  qed
  with r show ?thesis by blast
qed

section \<open>What the search for cycles finds\<close>

definition edges_of :: "('a \<Rightarrow> 'a list) \<Rightarrow> ('a \<times> 'a) set" where
  "edges_of succ = {(x, y). y \<in> set (succ x)}"

lemma cycle_walk_sound:
  "cycle_walk fuel succ stack xs (visited, found) = Some (visited', found') \<Longrightarrow>
     \<forall>y \<in> set stack. \<forall>x \<in> set xs. (y, x) \<in> (edges_of succ)\<^sup>+ \<Longrightarrow>
     x \<in> set found' \<Longrightarrow> x \<in> set found \<or> (x, x) \<in> (edges_of succ)\<^sup>+ \<and> x \<in> reach_set succ (set xs)"
proof (induction fuel succ stack xs "(visited, found)" arbitrary: visited found visited' found' rule: cycle_walk.induct)
  case (2 fuel succ stack z zs visited found)
  have sub: "reach_set succ (set zs) \<subseteq> reach_set succ (set (z # zs))" by (rule reach_set_mono) auto
  have down: "reach_set succ (set (succ z)) \<subseteq> reach_set succ (set (z # zs))" by (rule reach_set_least) auto
  have rest: "\<forall>y \<in> set stack. \<forall>x \<in> set zs. (y, x) \<in> (edges_of succ)\<^sup>+" using "2.prems"(2) by auto
  from "2.prems"(1) show ?case
  proof (cases rule: cycle_walk_Cons)
    case back_edge
    then have "(z, z) \<in> (edges_of succ)\<^sup>+" using "2.prems"(2) by auto
    moreover have "z \<in> reach_set succ (set (z # zs))" by auto
    ultimately show ?thesis using "2.hyps"(1) [OF back_edge rest "2.prems"(3)] sub by auto
  next
    case old
    then show ?thesis using "2.hyps"(2) [OF old(1,2,3) rest "2.prems"(3)] sub by auto
  next
    case (new depth v f)
    have "\<forall>y \<in> set (z # stack). \<forall>x \<in> set (succ z). (y, x) \<in> (edges_of succ)\<^sup>+"
    proof (intro ballI)
      fix y x assume y: "y \<in> set (z # stack)" and x: "x \<in> set (succ z)"
      then have zx: "(z, x) \<in> edges_of succ" by (simp add: edges_of_def)
      show "(y, x) \<in> (edges_of succ)\<^sup>+"
      proof (cases "y = z")
        case False
        then have "(y, z) \<in> (edges_of succ)\<^sup>+" using y "2.prems"(2) by auto
        then show ?thesis using zx by (rule trancl_into_trancl)
      qed (use zx in auto)
    qed
    note inner = "2.hyps"(3) [OF new(1-4) this]
    show ?thesis using "2.hyps"(4) [OF new(1-5) rest "2.prems"(3)] inner sub down by auto
  qed
qed simp

text \<open>A rank that falls along every edge: the certificate of a finished search.\<close>

definition ranked :: "('a \<Rightarrow> 'a list) \<Rightarrow> 'a set \<Rightarrow> bool" where
  "ranked succ S \<longleftrightarrow> (\<exists>rank :: 'a \<Rightarrow> nat. \<forall>x \<in> S. \<forall>y \<in> set (succ x). y \<in> S \<and> rank y < rank x)"

lemma ranked_empty [simp]: "ranked succ {}"
  by (simp add: ranked_def)

lemma ranked_insert:
  assumes "ranked succ S" and "set (succ x) \<subseteq> S" and "x \<notin> S"
  shows "ranked succ (insert x S)"
proof -
  obtain rank :: "'a \<Rightarrow> nat" where rank: "\<forall>x \<in> S. \<forall>y \<in> set (succ x). y \<in> S \<and> rank y < rank x"
    using assms(1) unfolding ranked_def by blast
  let ?rank = "rank(x := Suc (sum_list (map rank (succ x))))"
  have new: "rank y < Suc (sum_list (map rank (succ x)))" if "y \<in> set (succ x)" for y
    using member_le_sum_list [of "rank y" "map rank (succ x)"] that by auto
  have "y \<in> insert x S \<and> ?rank y < ?rank z" if z: "z \<in> insert x S" and y: "y \<in> set (succ z)" for z y
  proof (cases "z = x")
    case True
    then have "y \<in> S" using y assms(2) by auto
    moreover from this have "y \<noteq> x" using assms(3) by auto
    ultimately show ?thesis using True y new by simp
  next
    case False
    then have "y \<in> S" "rank y < rank z" using z y rank by auto
    moreover from this have "y \<noteq> x" using assms(3) by auto
    ultimately show ?thesis using False by simp
  qed
  then have "\<forall>z \<in> insert x S. \<forall>y \<in> set (succ z). y \<in> insert x S \<and> ?rank y < ?rank z" by blast
  then show ?thesis unfolding ranked_def by blast
qed

lemma ranked_no_cycle:
  assumes "ranked succ S" and "x \<in> S"
  shows "(x, x) \<notin> (edges_of succ)\<^sup>+"
proof
  obtain rank :: "'a \<Rightarrow> nat" where rank: "\<forall>x \<in> S. \<forall>y \<in> set (succ x). y \<in> S \<and> rank y < rank x"
    using assms(1) unfolding ranked_def by blast
  have falls: "y \<in> S \<and> rank y < rank x" if "(x, y) \<in> (edges_of succ)\<^sup>+" for y
    using that
  proof (induction rule: trancl_induct)
    case (base y)
    then show ?case using assms(2) rank by (auto simp: edges_of_def)
  next
    case (step y z)
    then have "z \<in> S" "rank z < rank y" using rank by (auto simp: edges_of_def)
    with step.IH show ?case by simp
  qed
  assume "(x, x) \<in> (edges_of succ)\<^sup>+"
  then show False using falls by blast
qed

lemma cycle_walk_complete:
  "cycle_walk fuel succ stack xs (visited, found) = Some (visited', []) \<Longrightarrow> set stack \<subseteq> set visited \<Longrightarrow>
     ranked succ (set visited - set stack) \<Longrightarrow>
     ranked succ (set visited' - set stack) \<and> set xs \<subseteq> set visited' - set stack"
proof (induction fuel succ stack xs "(visited, found)" arbitrary: visited found visited' rule: cycle_walk.induct)
  case (2 fuel succ stack x xs visited found)
  from "2.prems"(1) show ?case
  proof (cases rule: cycle_walk_Cons)
    case back_edge
    then show ?thesis using cycle_walk_grows [OF back_edge(2)] by auto
  next
    case old
    then show ?thesis using "2.hyps"(2) [OF old "2.prems"(2,3)] cycle_walk_grows [OF old(3)] by auto
  next
    case (new depth v f)
    have f: "f = []" using cycle_walk_grows [OF new(5)] by auto
    have "set (x # visited) - set (x # stack) = set visited - set stack" using new(2) by auto
    then have "ranked succ (set v - set (x # stack)) \<and> set (succ x) \<subseteq> set v - set (x # stack)"
      using "2.hyps"(3) [OF new(1-3) new(4) [unfolded f]] "2.prems"(2,3) by auto
    then have "ranked succ (insert x (set v - set (x # stack)))" by (intro ranked_insert) auto
    moreover have grown: "set (x # visited) \<subseteq> set v" using cycle_walk_grows [OF new(4)] by auto
    then have "insert x (set v - set (x # stack)) = set v - set stack" using new(1) by auto
    ultimately have "ranked succ (set v - set stack)" by simp
    moreover have "set stack \<subseteq> set v" using "2.prems"(2) grown by auto
    ultimately have "ranked succ (set visited' - set stack) \<and> set xs \<subseteq> set visited' - set stack"
      using "2.hyps"(4) [OF new(1-5)] by blast
    moreover have "x \<in> set visited' - set stack" using grown cycle_walk_grows [OF new(5)] new(1) by auto
    ultimately show ?thesis by auto
  qed
qed simp

lemma cycle_walk_exact:
  assumes "finite N" and "\<And>x. x \<notin> N \<Longrightarrow> succ x = []" and "card N < fuel"
  shows "\<exists>visited found. cycle_walk fuel succ [] xs ([], []) = Some (visited, found) \<and>
    (found = [] \<longleftrightarrow> (\<forall>x \<in> reach_set succ (set xs). (x, x) \<notin> (edges_of succ)\<^sup>+))"
proof -
  have "cycle_walk fuel succ [] xs ([], []) \<noteq> None"
    by (rule cycle_walk_returns [OF assms(1,2)]) (use assms(3) in auto)
  then obtain visited found where w: "cycle_walk fuel succ [] xs ([], []) = Some (visited, found)" by auto
  have "\<forall>x \<in> reach_set succ (set xs). (x, x) \<notin> (edges_of succ)\<^sup>+" if "found = []"
  proof
    fix x assume x: "x \<in> reach_set succ (set xs)"
    have r: "ranked succ (set visited)" "set xs \<subseteq> set visited"
      using cycle_walk_complete [of fuel succ "[]" xs "[]" "[]" visited] w that by auto
    then have "reach_set succ (set xs) \<subseteq> set visited" by (intro reach_set_least) (auto simp: ranked_def)
    with x show "(x, x) \<notin> (edges_of succ)\<^sup>+" by (intro ranked_no_cycle [OF r(1)]) auto
  qed
  moreover have "\<exists>x \<in> reach_set succ (set xs). (x, x) \<in> (edges_of succ)\<^sup>+" if "found \<noteq> []"
    using cycle_walk_sound [OF w, of "hd found"] hd_in_set [OF that] by auto
  ultimately show ?thesis using w by blast
qed

end
