(* ===== verification/Validate_Rules.thy ===== *)
theory Validate_Rules
  imports Hops Graph_Cycles
begin

text \<open>
  The structural passes of brocade-core/src/ir/validate.rs over one compiled project: identities,
  slugs, rule tables, the topology of the chains, tenants and resolvers. A pass is a function to
  the diagnostics it pushes, in their order.
\<close>

section \<open>Identities and slugs\<close>

fun report_repeats :: "string \<Rightarrow> string \<Rightarrow> string list \<Rightarrow> string list \<Rightarrow> diagnostic list" where
  "report_repeats code location seen [] = []"
| "report_repeats code location seen (v # vs) =
     (if v \<in> set seen
      then diagnostic_error code location (Msg ''repeated'' [v]) # report_repeats code location seen vs
      else report_repeats code location (v # seen) vs)"

definition unique_by :: "string list \<Rightarrow> string \<Rightarrow> string \<Rightarrow> diagnostic list" where
  "unique_by values code location = report_repeats code location [] values"

definition validate_unique_ids :: "app_ir \<Rightarrow> diagnostic list" where
  "validate_unique_ids app =
     unique_by (map an_id (ai_nodes app)) ''id.dup'' ''AppIr.nodes'' @
     unique_by (map ic_id (ai_chains app)) ''id.dup'' ''AppIr.chains'' @
     unique_by (map ii_id (ai_ingresses app)) ''id.dup'' ''AppIr.ingresses'' @
     unique_by (map if_id (ai_fronts app)) ''id.dup'' ''AppIr.fronts'' @
     unique_by (map is_id (ai_steps app)) ''id.dup'' ''AppIr.steps'' @
     unique_by (map ig_id (ai_grants app)) ''id.dup'' ''AppIr.grants'' @
     unique_by (map (\<lambda>u. iu_tenant u @ ''/'' @ iu_id u) (ai_users app)) ''user.dup'' ''AppIr.users'' @
     unique_by (map eo_id (ai_external_outbounds app)) ''external-outbound.dup'' ''AppIr.external_outbounds''"

definition validate_slug :: "string \<Rightarrow> string \<Rightarrow> diagnostic list" where
  "validate_slug value location =
     (if is_valid_slug value then []
      else [diagnostic_error ''label.charset'' location (Msg ''not a slug'' [value])])"

definition validate_tenant_segments :: "string \<Rightarrow> diagnostic list" where
  "validate_tenant_segments tenant =
     concat (map (\<lambda>segment. validate_slug segment (''tenant segment '' @ segment @ '' in '' @ tenant))
       (split_char (CHR ''.'') tenant))"

definition validate_slugs :: "app_ir \<Rightarrow> diagnostic list" where
  "validate_slugs app =
     (case ai_app_id app of None \<Rightarrow> [] | Some i \<Rightarrow> validate_slug i (''app '' @ i)) @
     concat (map (\<lambda>n. validate_slug (an_id n) (''node '' @ an_id n)) (ai_nodes app)) @
     concat (map (\<lambda>u. validate_slug (iu_id u) (''user '' @ iu_tenant u @ ''/'' @ iu_id u) @
        validate_tenant_segments (iu_tenant u)) (ai_users app)) @
     concat (map (\<lambda>c. validate_slug (ic_id c) (''chain '' @ ic_id c) @ validate_tenant_segments (ic_tenant c)) (ai_chains app)) @
     concat (map (\<lambda>i. validate_slug (ii_id i) (''ingress '' @ ii_id i)) (ai_ingresses app)) @
     concat (map (\<lambda>f. validate_slug (if_id f) (''front '' @ if_id f) @ validate_tenant_segments (if_tenant f)) (ai_fronts app))"

section \<open>Rule tables\<close>

definition blank :: "string \<Rightarrow> bool" where
  "blank s \<longleftrightarrow> trim s = []"

definition blank_values :: "string list \<Rightarrow> bool" where
  "blank_values values \<longleftrightarrow> list_ex blank values \<or> values = []"

fun has_empty_match :: "dest_match \<Rightarrow> bool" where
  "has_empty_match MatchAny = False"
| "has_empty_match SniffingFailed = False"
| "has_empty_match (DomainSuffix values) = blank_values values"
| "has_empty_match (DomainKeyword values) = blank_values values"
| "has_empty_match (Geosite values) = blank_values values"
| "has_empty_match (IpCidr values) = blank_values values"
| "has_empty_match (Geoip values) = blank_values values"
| "has_empty_match (Protocol values) = blank_values values"
| "has_empty_match (Port values) = blank_values values"
| "has_empty_match (DomainRegex value) = blank value"
| "has_empty_match (PortExcept values) = (values = [])"
| "has_empty_match (Network _) = False"
| "has_empty_match (MatchAll values) = (values = [] \<or> list_ex has_empty_match values)"

datatype match_slot = SlotDomain | SlotIp | SlotPort | SlotNetwork | SlotProtocol | SlotAttribute

type_synonym match_slots = "match_slot list"

definition put_slot :: "match_slot \<Rightarrow> match_slots \<Rightarrow> bool \<times> match_slots" where
  "put_slot slot slots = (if slot \<in> set slots then (False, slots) else (True, slot # slots))"

text \<open>\<open>collect_match_slots\<close>, and its \<open>all\<close> over a list, which stops at the first refusal.\<close>

fun collect_match_slots :: "dest_match \<Rightarrow> match_slots \<Rightarrow> bool \<times> match_slots"
  and collect_all_slots :: "dest_match list \<Rightarrow> match_slots \<Rightarrow> bool \<times> match_slots" where
  "collect_match_slots MatchAny slots = (True, slots)"
| "collect_match_slots SniffingFailed slots = put_slot SlotAttribute slots"
| "collect_match_slots (DomainSuffix _) slots = put_slot SlotDomain slots"
| "collect_match_slots (DomainKeyword _) slots = put_slot SlotDomain slots"
| "collect_match_slots (DomainRegex _) slots = put_slot SlotDomain slots"
| "collect_match_slots (Geosite _) slots = put_slot SlotDomain slots"
| "collect_match_slots (IpCidr _) slots = put_slot SlotIp slots"
| "collect_match_slots (Geoip _) slots = put_slot SlotIp slots"
| "collect_match_slots (Port _) slots = put_slot SlotPort slots"
| "collect_match_slots (PortExcept _) slots = put_slot SlotPort slots"
| "collect_match_slots (Network _) slots = put_slot SlotNetwork slots"
| "collect_match_slots (Protocol _) slots = put_slot SlotProtocol slots"
| "collect_match_slots (MatchAll values) slots =
     (if \<not> fst (collect_all_slots values []) then (False, slots) else collect_all_slots values slots)"
| "collect_all_slots [] slots = (True, slots)"
| "collect_all_slots (v # vs) slots =
     (case collect_match_slots v slots of
        (False, slots') \<Rightarrow> (False, slots')
      | (True, slots') \<Rightarrow> collect_all_slots vs slots')"

fun has_unrepresentable_all_match :: "dest_match \<Rightarrow> bool" where
  "has_unrepresentable_all_match (MatchAll values) = (\<not> fst (collect_all_slots values []))"
| "has_unrepresentable_all_match _ = False"

definition step_at :: "ir_step \<Rightarrow> string" where
  "step_at s = is_chain s @ ''/'' @ is_node s"

definition validate_sniffing_fallback :: "ir_step \<Rightarrow> diagnostic list" where
  "validate_sniffing_fallback s =
     (let rules = is_rules s; at = step_at s;
          positions = filter (\<lambda>i. ir_match (rules ! i) = SniffingFailed) [0..<length rules]
      in (if positions = [] \<and> list_ex (\<lambda>r. depends_on_sniffing (ir_match r)) rules
          then [diagnostic_warn ''rule.sniffing-fallback-missing'' at (Msg ''no rule for failed sniffing'' [])] else []) @
         (if 1 < length positions
          then [diagnostic_error ''rule.sniffing-fallback-duplicate'' at (Msg ''only one such rule'' [])] else []) @
         (case positions of
            [] \<Rightarrow> []
          | position # _ \<Rightarrow>
              if rules \<noteq> [] \<and> ir_match (last rules) = MatchAny \<and> position + 2 \<noteq> length rules
              then [diagnostic_error ''rule.sniffing-fallback-position'' at (Msg ''right before the final Any'' [])] else []))"

definition HOP_MUX_CONCURRENCY_MIN :: u16 where "HOP_MUX_CONCURRENCY_MIN = 1"
definition HOP_MUX_CONCURRENCY_MAX :: u16 where "HOP_MUX_CONCURRENCY_MAX = 128"
definition REUSE_THRESHOLD_MIN :: u32 where "REUSE_THRESHOLD_MIN = 1"
definition PROBE_INTERVAL_MIN_MS :: u32 where "PROBE_INTERVAL_MIN_MS = 2000"
definition PROBE_INTERVAL_MAX_MS :: u32 where "PROBE_INTERVAL_MAX_MS = 60000"
definition PROBE_TIMEOUT_MIN_MS :: u32 where "PROBE_TIMEOUT_MIN_MS = 200"
definition PROBE_TIMEOUT_MAX_MS :: u32 where "PROBE_TIMEOUT_MAX_MS = 10000"
definition IDLE_TTL_MIN_MS :: u32 where "IDLE_TTL_MIN_MS = 1000"
definition MAX_REQUESTS_MIN :: u16 where "MAX_REQUESTS_MIN = 1"
definition MAX_REQUESTS_MAX :: u16 where "MAX_REQUESTS_MAX = - 1"

definition saturating_add32 :: "u32 \<Rightarrow> u32 \<Rightarrow> u32" where
  "saturating_add32 a b = (if unat a + unat b < 2 ^ 32 then a + b else - 1)"

definition validate_hop_mux :: "hop_mux \<Rightarrow> string \<Rightarrow> diagnostic list" where
  "validate_hop_mux mux location =
     (let invalid = (\<lambda>field why. [diagnostic_error ''mux.worker-pool'' (location @ ''.'' @ field) (Msg why [])])
      in (if \<not> (HOP_MUX_CONCURRENCY_MIN \<le> mux_concurrency mux \<and> mux_concurrency mux \<le> HOP_MUX_CONCURRENCY_MAX)
          then invalid ''concurrency'' ''1 to 128'' else []) @
         (if mux_reuse_threshold mux < REUSE_THRESHOLD_MIN then invalid ''reuse_threshold'' ''at least 1'' else []) @
         (if mux_reuse_threshold mux < mux_prewarm_workers mux then invalid ''prewarm_workers'' ''at most the threshold'' else []) @
         (if mux_max_probing_workers mux = 0 \<or> mux_reuse_threshold mux < mux_max_probing_workers mux
          then invalid ''max_probing_workers'' ''1 to the threshold'' else []) @
         (if \<not> (PROBE_INTERVAL_MIN_MS \<le> mux_probe_interval_ms mux \<and> mux_probe_interval_ms mux \<le> PROBE_INTERVAL_MAX_MS)
          then invalid ''probe_interval_ms'' ''2000 to 60000'' else []) @
         (if \<not> (PROBE_TIMEOUT_MIN_MS \<le> mux_probe_timeout_ms mux \<and> mux_probe_timeout_ms mux \<le> PROBE_TIMEOUT_MAX_MS) \<or>
             mux_probe_interval_ms mux \<le> mux_probe_timeout_ms mux
          then invalid ''probe_timeout_ms'' ''200 to 10000 and below the interval'' else []) @
         (if mux_idle_ttl_ms mux < IDLE_TTL_MIN_MS then invalid ''idle_ttl_ms'' ''at least 1000'' else []) @
         (if mux_idle_ttl_ms mux < saturating_add32 (mux_probe_interval_ms mux) (mux_probe_timeout_ms mux)
          then invalid ''idle_ttl_ms'' ''covers one probe'' else []) @
         (if \<not> (MAX_REQUESTS_MIN \<le> mux_max_requests_per_worker mux \<and> mux_max_requests_per_worker mux \<le> MAX_REQUESTS_MAX)
          then invalid ''max_requests_per_worker'' ''1 to 65535'' else []))"

definition forward_at :: "ir_step \<Rightarrow> forward_action_ref \<Rightarrow> string" where
  "forward_at s f =
     (if fa_reused f then step_at s @ ''->listener:'' @ fa_target_chain f @ ''/'' @ fa_target_node f
      else step_at s @ ''->'' @ fa_target_node f)"

definition forward_settings :: "ir_step \<Rightarrow> forward_action_ref \<Rightarrow> diagnostic list" where
  "forward_settings s f =
     (if is_reverse (fa_dial f) \<and> fa_pool f \<noteq> NoPool
      then [diagnostic_error ''rule.pool-on-reverse'' (forward_at s f) (Msg ''reverse opens no connection'' [fa_target_node f])]
      else []) @
     (case fa_pool f of Mux (Some mux) \<Rightarrow> validate_hop_mux mux (forward_at s f @ ''.pool.v'') | _ \<Rightarrow> [])"

text \<open>\<open>by_target\<close> keeps the last dial and pool seen for each target.\<close>

fun validate_dials ::
  "ir_step \<Rightarrow> ((string \<times> string) \<times> relay_dial_ref \<times> hop_pool) list \<Rightarrow> forward_action_ref list \<Rightarrow> diagnostic list" where
  "validate_dials s by_target [] = []"
| "validate_dials s by_target (f # fs) =
     (let key = (fa_target_chain f, fa_target_node f)
      in forward_settings s f @
         (case map_of by_target key of
            None \<Rightarrow> []
          | Some (previous_dial, previous_pool) \<Rightarrow>
              (if previous_dial \<noteq> fa_dial f
               then [diagnostic_error ''rule.forward-dial-conflict'' (forward_at s f) (Msg ''one dial per edge'' [fa_target_node f])] else []) @
              (if previous_pool \<noteq> fa_pool f
               then [diagnostic_error ''rule.forward-pool-conflict'' (forward_at s f) (Msg ''one pool per edge'' [fa_target_node f])] else [])) @
         validate_dials s ((key, fa_dial f, fa_pool f) # by_target) fs)"

definition step_forwards :: "ir_step \<Rightarrow> forward_action_ref list" where
  "step_forwards s = List.map_filter (\<lambda>r. forward_ref (ir_action r) (is_chain s)) (is_rules s)"

definition validate_forward_dials :: "ir_step \<Rightarrow> diagnostic list" where
  "validate_forward_dials s = validate_dials s [] (step_forwards s)"

definition leaves_here :: "action \<Rightarrow> bool" where
  "leaves_here a = (case a of Egress _ \<Rightarrow> True | Proxy _ \<Rightarrow> True | _ \<Rightarrow> False)"

definition validate_rule :: "ir_step \<Rightarrow> app_node \<Rightarrow> ir_rule \<Rightarrow> diagnostic list" where
  "validate_rule s n r =
     (if has_empty_match (ir_match r) then [diagnostic_error ''rule.empty-match'' (step_at s) (Msg ''no value to match'' [])] else []) @
     (if has_unrepresentable_all_match (ir_match r)
      then [diagnostic_error ''rule.all-unrepresentable'' (step_at s) (Msg ''two conditions in one field'' [])] else []) @
     (if leaves_here (ir_action r) \<and> \<not> an_egress_allowed n
      then [diagnostic_error ''step.egress-denied'' (step_at s) (Msg ''this machine may not go out'' [is_node s])] else [])"

definition validate_step :: "system_ir \<Rightarrow> app_ir \<Rightarrow> ir_step \<Rightarrow> diagnostic list" where
  "validate_step sys app s =
     validate_forward_dials s @
     (if is_rules s = [] then [diagnostic_error ''rule.no-default'' (step_at s) (Msg ''empty rule table'' [])]
      else
        (if ir_match (last (is_rules s)) \<noteq> MatchAny
         then [diagnostic_error ''rule.no-default'' (step_at s) (Msg ''the last rule is not Any'' [])] else []) @
        validate_sniffing_fallback s @
        (let reverse_downstream = list_ex (\<lambda>h. hop_chain h = is_chain s \<and> hop_to h = is_node s \<and> hop_path h = PathReverse) (ai_hops app)
         in if is_accept s \<noteq> None \<and> \<not> reverse_downstream \<and> \<not> list_ex (\<lambda>n. sys_id n = is_node s) (si_nodes sys)
            then [diagnostic_error ''step.accept-unreachable'' (step_at s) (Msg ''cannot be reached as a relay'' [is_node s])]
            else []) @
        (case find (\<lambda>n. an_id n = is_node s) (ai_nodes app) of
           None \<Rightarrow> []
         | Some n \<Rightarrow> concat (map (validate_rule s n) (is_rules s))))"

definition validate_steps :: "system_ir \<Rightarrow> app_ir \<Rightarrow> diagnostic list" where
  "validate_steps sys app = concat (map (validate_step sys app) (ai_steps app))"

section \<open>Topology\<close>

fun reused_listener :: "action \<Rightarrow> (string \<times> string) option" where
  "reused_listener (ReuseListener listener _ _) = Some (lr_chain listener, lr_node listener)"
| "reused_listener _ = None"

definition topology_roots :: "app_ir \<Rightarrow> (string \<times> string) list" where
  "topology_roots app =
     bset (List.map_filter (\<lambda>r. reused_listener (ir_action r)) (concat (map is_rules (ai_steps app))) @ ai_listener_roots app)"

definition steps_of_chain :: "app_ir \<Rightarrow> string \<Rightarrow> ir_step list" where
  "steps_of_chain app chain = filter (\<lambda>s. is_chain s = chain) (ai_steps app)"

definition chain_unreachable :: "string \<Rightarrow> string \<Rightarrow> (string \<times> string) list \<Rightarrow> ir_step list \<Rightarrow> diagnostic list" where
  "chain_unreachable chain root roots steps =
     concat (map (\<lambda>n.
       if n = root \<or> (chain, n) \<in> set roots then []
       else if list_ex (\<lambda>s. n \<in> set (step_targets s)) steps then []
       else [diagnostic_error ''chain.unreachable'' (chain @ ''/'' @ n) (Msg ''nothing forwards here'' [n])])
       (bset (concat (map (\<lambda>s. is_node s # step_targets s) steps))))"

definition chain_succ :: "ir_step list \<Rightarrow> string \<Rightarrow> string list" where
  "chain_succ steps n = (case find (\<lambda>s. is_node s = n) steps of None \<Rightarrow> [] | Some s \<Rightarrow> step_targets s)"

text \<open>\<open>detect_cycle\<close> from each root in turn; the bound on its depth is the number of steps.\<close>

definition detect_cycles :: "string \<Rightarrow> string list \<Rightarrow> ir_step list \<Rightarrow> diagnostic list" where
  "detect_cycles chain roots steps =
     (case cycle_walk (Suc (length steps)) (chain_succ steps) [] roots ([], []) of
        None \<Rightarrow> []
      | Some (visited, found) \<Rightarrow>
          map (\<lambda>n. diagnostic_error ''chain.cycle'' (chain @ ''/'' @ n) (Msg ''a cycle on this chain'' [n, chain])) found)"

definition dead_leaf :: "string \<Rightarrow> ir_step \<Rightarrow> diagnostic list" where
  "dead_leaf chain s =
     (if step_forwards s = [] \<and>
         \<not> list_ex (\<lambda>r. case ir_action r of Egress _ \<Rightarrow> True | Proxy _ \<Rightarrow> True | Block \<Rightarrow> True | _ \<Rightarrow> False) (is_rules s)
      then [diagnostic_error ''step.dead-leaf'' (chain @ ''/'' @ is_node s) (Msg ''neither forwards nor goes out'' [is_node s])]
      else [])"

definition validate_chain_topology :: "app_ir \<Rightarrow> (string \<times> string) list \<Rightarrow> ir_chain \<Rightarrow> diagnostic list" where
  "validate_chain_topology app roots c =
     (case ic_root c of
        None \<Rightarrow> []
      | Some root \<Rightarrow>
          (let steps = steps_of_chain app (ic_id c)
           in chain_unreachable (ic_id c) root roots steps @
              detect_cycles (ic_id c) (bset (root # map snd (filter (\<lambda>l. fst l = ic_id c) roots))) steps @
              concat (map (dead_leaf (ic_id c)) steps)))"

definition listener_succ :: "ir_step list \<Rightarrow> string \<times> string \<Rightarrow> (string \<times> string) list" where
  "listener_succ steps at =
     (case find (\<lambda>s. (is_chain s, is_node s) = at) steps of
        None \<Rightarrow> []
      | Some s \<Rightarrow> map (\<lambda>f. (fa_target_chain f, fa_target_node f)) (step_forwards s))"

definition listener_reaches :: "ir_step list \<Rightarrow> string \<times> string \<Rightarrow> string \<times> string \<Rightarrow> bool" where
  "listener_reaches steps at wanted =
     (case reach_walk (Suc (length steps)) (listener_succ steps) wanted [at] [] of
        None \<Rightarrow> False
      | Some (found, seen) \<Rightarrow> found)"

definition listener_location :: "ir_step \<Rightarrow> string \<times> string \<Rightarrow> string" where
  "listener_location s l = step_at s @ ''->listener:'' @ fst l @ ''/'' @ snd l"

text \<open>The reused listeners, each with the step that refers to it, in order.\<close>

definition listener_edges :: "ir_step list \<Rightarrow> (ir_step \<times> (string \<times> string)) list" where
  "listener_edges steps =
     concat (map (\<lambda>s. List.map_filter (\<lambda>r. map_option (Pair s) (reused_listener (ir_action r))) (is_rules s)) steps)"

fun report_listener_cycles :: "ir_step list \<Rightarrow> string list \<Rightarrow> (ir_step \<times> (string \<times> string)) list \<Rightarrow> diagnostic list" where
  "report_listener_cycles steps reported [] = []"
| "report_listener_cycles steps reported ((s, l) # es) =
     (if \<not> listener_reaches steps l (is_chain s, is_node s) then report_listener_cycles steps reported es
      else if listener_location s l \<in> set reported then report_listener_cycles steps reported es
      else diagnostic_error ''listener.cycle'' (listener_location s l) (Msg ''the listener leads back here'' []) #
           report_listener_cycles steps (listener_location s l # reported) es)"

definition validate_listener_reference_cycles :: "app_ir \<Rightarrow> diagnostic list" where
  "validate_listener_reference_cycles app = report_listener_cycles (ai_steps app) [] (listener_edges (ai_steps app))"

definition validate_topology :: "app_ir \<Rightarrow> diagnostic list" where
  "validate_topology app =
     concat (map (validate_chain_topology app (topology_roots app)) (ai_chains app)) @
     validate_listener_reference_cycles app"

section \<open>Tenants\<close>

definition under :: "string \<Rightarrow> string \<Rightarrow> bool" where
  "under child parent \<longleftrightarrow> child = parent \<or> starts_with child (parent @ ''.'')"

definition tenant_scope :: "string \<Rightarrow> string \<Rightarrow> string \<Rightarrow> diagnostic list" where
  "tenant_scope child parent location =
     (if under child parent then []
      else [diagnostic_error ''tenant.scope'' location (Msg ''outside the visible scope'' [child, parent])])"

definition validate_step_tenants :: "app_ir \<Rightarrow> ir_chain \<Rightarrow> ir_step \<Rightarrow> diagnostic list" where
  "validate_step_tenants app c s =
     (case find (\<lambda>n. an_id n = is_node s) (ai_nodes app) of
        None \<Rightarrow> []
      | Some n \<Rightarrow>
          tenant_scope (ic_tenant c) (an_tenant n) (ic_id c @ ''/'' @ an_id n) @
          concat (map (\<lambda>r. case reused_listener (ir_action r) of
              None \<Rightarrow> []
            | Some l \<Rightarrow>
                (case find (\<lambda>owner. ic_id owner = fst l) (ai_chains app) of
                   None \<Rightarrow> []
                 | Some owner \<Rightarrow> tenant_scope (ic_tenant c) (ic_tenant owner)
                     (ic_id c @ ''/'' @ is_node s @ ''->listener:'' @ fst l @ ''/'' @ snd l))) (is_rules s)))"

definition validate_tenants :: "app_ir \<Rightarrow> diagnostic list" where
  "validate_tenants app =
     concat (map (\<lambda>c. concat (map (validate_step_tenants app c) (steps_of_chain app (ic_id c)))) (ai_chains app)) @
     concat (map (\<lambda>f. concat (map (\<lambda>via.
         case find (\<lambda>i. ii_id i = via) (ai_ingresses app) of
           None \<Rightarrow> []
         | Some i \<Rightarrow> tenant_scope (if_tenant f) (ii_tenant i) (if_id f @ ''/'' @ ii_id i)) (if_via f))) (ai_fronts app)) @
     concat (map (\<lambda>i.
         case Option.bind (ii_front i) (\<lambda>front. find (\<lambda>f. if_id f = front) (ai_fronts app)) of
           None \<Rightarrow> []
         | Some f \<Rightarrow> tenant_scope (if_tenant f) (ii_tenant i) (if_id f @ ''/'' @ ii_id i)) (ai_ingresses app)) @
     concat (map (\<lambda>g.
         case find (\<lambda>u. iu_tenant u = ig_tenant g \<and> iu_id u = ig_user g) (ai_users app) of
           None \<Rightarrow> []
         | Some u \<Rightarrow>
             (case find (\<lambda>i. ii_id i = ig_ingress g) (ai_ingresses app) of
                None \<Rightarrow> []
              | Some i \<Rightarrow>
                  if ig_tenant g \<noteq> iu_tenant u \<or> \<not> under (ig_tenant g) (ii_tenant i)
                  then [diagnostic_error ''tenant.scope'' (ig_id g)
                     (Msg ''grant outside the visible scope'' [ig_tenant g, iu_tenant u, ii_tenant i])]
                  else [])) (ai_grants app))"

section \<open>Resolvers, reverse ports and the security of hops\<close>

definition starts_with_dns_scheme :: "string \<Rightarrow> bool" where
  "starts_with_dns_scheme value =
     list_ex (starts_with value)
       [''tcp://'', ''udp://'', ''https://'', ''quic://'', ''h2c://'', ''tcp+local://'', ''udp+local://'']"

definition is_dns_server_form :: "string \<Rightarrow> bool" where
  "is_dns_server_form value0 =
     (let value = trim value0
      in value = ''localhost'' \<or> value = ''fakedns'' \<or> parse_ipv4 value \<noteq> None \<or> contains_str value '':'' \<or>
         starts_with_dns_scheme value)"

definition validate_dns :: "app_ir \<Rightarrow> diagnostic list" where
  "validate_dns app =
     concat (map (\<lambda>n. case an_dns n of
        DnsSystem \<Rightarrow> []
      | DnsServers servers \<Rightarrow>
          map (\<lambda>server. diagnostic_error ''node.dns-form'' (an_id n) (Msg ''not a resolver'' [server]))
            (filter (\<lambda>server. \<not> is_dns_server_form server) servers)) (ai_nodes app))"

definition validate_reverse_needs_vless :: "app_ir \<Rightarrow> diagnostic list" where
  "validate_reverse_needs_vless app =
     concat (map (\<lambda>h.
       case Option.bind (find (\<lambda>s. is_chain s = hop_chain h \<and> is_node s = hop_from h) (ai_steps app)) is_hop_in of
         None \<Rightarrow> []
       | Some entry \<Rightarrow>
           (case ih_security entry of
              HopShadowsocks2022 _ _ \<Rightarrow>
                [diagnostic_error ''hop.reverse-needs-vless'' (hop_chain h @ ''/'' @ hop_from h)
                  (Msg ''a reverse tunnel needs VLESS'' [hop_from h, hop_to h])]
            | _ \<Rightarrow> []))
       (filter (\<lambda>h. hop_path h = PathReverse) (ai_hops app)))"

definition validate_hop_security :: "app_ir \<Rightarrow> diagnostic list" where
  "validate_hop_security app =
     concat (map (\<lambda>h.
       if hop_path h = PathOverlay \<or> hop_path h = PathLocal then []
       else let at = hop_chain h @ ''/'' @ hop_from h @ ''->'' @ hop_to h
            in case hop_security h of
                 HdwPlain \<Rightarrow> [diagnostic_info ''hop.plaintext'' at
                   (Msg (if hop_path h = PathReverse then ''comes in unencrypted'' else ''dials unencrypted'')
                     [hop_to h, hop_address h, show_nat (unat (hop_port h))])]
               | HdwReality _ _ _ _ \<Rightarrow>
                   if hop_port h \<noteq> 443
                   then [diagnostic_warn ''hop.reality-port'' at (Msg ''REALITY on a port other than 443'' [show_nat (unat (hop_port h))])]
                   else []
               | _ \<Rightarrow> []) (ai_hops app))"

end
