(* ===== verification/Validate_Fleet.thy ===== *)
theory Validate_Fleet
  imports Validate_Rules
begin

text \<open>
  The passes of brocade-core/src/ir/validate.rs that look across machines and projects: settings,
  the system layer, the sockets and labels of every machine, references between projects. The
  \<open>serde_json\<close> text of a selector and \<open>ipnet\<close>'s membership test are arguments.
\<close>

section \<open>Settings and the snapshot\<close>

fun validate_disabled_links ::
  "string list \<Rightarrow> (string \<times> string) list \<Rightarrow> disabled_wire_guard_link list \<Rightarrow> diagnostic list" where
  "validate_disabled_links nodes seen [] = []"
| "validate_disabled_links nodes seen (l # ls) =
     (let location = dl_a l @ ''|'' @ dl_b l;
          pair = (if dl_a l \<le> dl_b l then (dl_a l, dl_b l) else (dl_b l, dl_a l))
      in if blank (dl_a l) \<or> blank (dl_b l) \<or> dl_a l = dl_b l
         then diagnostic_error ''link.disabled-invalid'' location (Msg ''two different machines'' []) #
              validate_disabled_links nodes seen ls
         else
           map (\<lambda>n. diagnostic_warn ''link.disabled-node-missing'' location (Msg ''no such machine'' [n]))
             (filter (\<lambda>n. n \<notin> set nodes) [dl_a l, dl_b l]) @
           (if pair \<in> set seen then [diagnostic_warn ''link.disabled-dup'' location (Msg ''disabled twice'' [])] else []) @
           validate_disabled_links nodes (pair # seen) ls)"

definition validate_reality_client_version :: "string option \<Rightarrow> string \<Rightarrow> diagnostic list \<times> (nat \<times> nat \<times> nat) option" where
  "validate_reality_client_version value location =
     (case value of
        None \<Rightarrow> ([], None)
      | Some v \<Rightarrow>
          (case parse_semver3 v of
             None \<Rightarrow> ([diagnostic_error ''reality.client-ver'' location (Msg ''not x.y.z'' [v])], None)
           | Some (a, b, c) \<Rightarrow>
               if a \<le> 255 \<and> b \<le> 255 \<and> c \<le> 255 then ([], Some (a, b, c))
               else ([diagnostic_error ''reality.client-ver'' location (Msg ''a part above 255'' [v])], None)))"

definition MAX_REALITY_TIME_DIFF_MS :: u64 where "MAX_REALITY_TIME_DIFF_MS = 9223372036854"

definition validate_settings :: "model_snapshot \<Rightarrow> diagnostic list" where
  "validate_settings snapshot =
     (let settings = sn_settings snapshot; policy = ms_reality_client settings;
          (d1, low) = validate_reality_client_version (rc_min_client_ver policy) ''settings.reality_client.min_client_ver'';
          (d2, high) = validate_reality_client_version (rc_max_client_ver policy) ''settings.reality_client.max_client_ver''
      in (case validate_reverse_health settings of
            Inl why \<Rightarrow> [diagnostic_error ''reverse.health-invalid'' ''settings.reverse_health'' (Msg why [])]
          | Inr _ \<Rightarrow> []) @
         validate_hop_mux (ms_relay_mux settings) ''settings.relay_mux'' @
         validate_disabled_links (map node_id (sn_nodes snapshot)) [] (ov_disabled_links (ms_overlay settings)) @
         d1 @ d2 @
         (case (low, high) of
            (Some a, Some b) \<Rightarrow>
              if b < a then [diagnostic_error ''reality.client-ver-range'' ''settings.reality_client'' (Msg ''min above max'' [])] else []
          | _ \<Rightarrow> []) @
         (case rc_max_time_diff_ms policy of
            None \<Rightarrow> []
          | Some v \<Rightarrow>
              if MAX_REALITY_TIME_DIFF_MS < v
              then [diagnostic_error ''reality.max-time-diff'' ''settings.reality_client.max_time_diff_ms'' (Msg ''too large'' [])]
              else []))"

definition override_matches :: "model_snapshot \<Rightarrow> reverse_health_override \<Rightarrow> bool" where
  "override_matches snapshot policy \<longleftrightarrow>
     list_ex (\<lambda>s. step_chain s = ro_chain policy \<and> step_node s = ro_from policy \<and>
         list_ex (\<lambda>r. case rule_action r of Forward to (DialReverse _) _ \<Rightarrow> to = ro_to policy | _ \<Rightarrow> False) (step_rules s))
       (concat (map app_steps (sn_apps snapshot)))"

definition vpngate_pools :: "model_snapshot \<Rightarrow> string list" where
  "vpngate_pools snapshot =
     map eo_id (filter (\<lambda>o'. case eo_protocol o' of ExtVpngate _ _ _ _ _ _ \<Rightarrow> True | _ \<Rightarrow> False) (sn_external_outbounds snapshot))"

definition referenced_pools :: "model_snapshot \<Rightarrow> string \<Rightarrow> string list" where
  "referenced_pools snapshot nid =
     bset (List.map_filter (\<lambda>r. case rule_action r of
           Proxy outbound \<Rightarrow> if outbound \<in> set (vpngate_pools snapshot) then Some outbound else None
         | _ \<Rightarrow> None)
       (concat (map step_rules (filter (\<lambda>s. step_node s = nid) (concat (map app_steps (sn_apps snapshot)))))))"

definition validate_dns_policy :: "model_snapshot \<Rightarrow> node_egress_dns_policy \<Rightarrow> diagnostic list" where
  "validate_dns_policy snapshot p =
     (let path = ed_node p @ ''/'' @ show_nat (unat (ed_position p))
      in (if list_ex (\<lambda>n. node_id n = ed_node p) (sn_nodes snapshot) then []
          else [diagnostic_error ''dns.node-missing'' path (Msg ''no such machine'' [ed_node p])]) @
         (if canonical_egress_dns_selector (ed_selector p) = None
          then [diagnostic_error ''dns.selector-unsupported'' path (Msg ''not a domain selector'' [])] else []) @
         (if egress_dns_addresses_valid parse_ip (er_address (ed_resolution p)) then []
          else [diagnostic_error ''dns.address'' path (Msg ''1 to 16 addresses'' [])]) @
         (if er_port (ed_resolution p) = 0 then [diagnostic_error ''dns.port'' path (Msg ''1 to 65535'' [])] else []))"

text \<open>The maps that remember who took a key: \<open>insert\<close> hands back the previous owner.\<close>

fun report_clashes ::
  "('k \<Rightarrow> string \<Rightarrow> string \<Rightarrow> diagnostic) \<Rightarrow> ('k \<times> string) list \<Rightarrow> ('k \<times> string) list \<Rightarrow> diagnostic list" where
  "report_clashes report used [] = []"
| "report_clashes report used ((k, what) # cs) =
     (case map_of used k of None \<Rightarrow> [] | Some previous \<Rightarrow> [report k previous what]) @
     report_clashes report ((k, what) # used) cs"

definition validate_model_snapshot :: "(dest_match \<Rightarrow> string) \<Rightarrow> model_snapshot \<Rightarrow> diagnostic list" where
  "validate_model_snapshot selector_json snapshot =
     validate_settings snapshot @
     map (\<lambda>p. diagnostic_warn ''reverse.health-link-missing'' (ro_chain p @ ''/'' @ ro_from p @ ''/'' @ ro_to p)
         (Msg ''no such reverse link'' []))
       (filter (\<lambda>p. \<not> override_matches snapshot p) (ms_reverse_health_overrides (sn_settings snapshot))) @
     unique_by (map node_id (sn_nodes snapshot)) ''id.dup'' ''ModelSnapshot.nodes'' @
     map (\<lambda>n. diagnostic_error ''external-outbound.vpngate-pool-limit'' (''node '' @ node_id n)
         (Msg ''too many pools'' [node_id n, show_nat (length (referenced_pools snapshot (node_id n)))]))
       (filter (\<lambda>n. VPNGATE_RUNTIME_MAX_POOLS_PER_NODE < length (referenced_pools snapshot (node_id n))) (sn_nodes snapshot)) @
     unique_by (map app_id (sn_apps snapshot)) ''id.dup'' ''ModelSnapshot.apps'' @
     unique_by (concat (map (\<lambda>a. map chain_id (app_chains a)) (sn_apps snapshot))) ''id.dup'' ''ModelSnapshot.chains'' @
     concat (map (\<lambda>a. validate_slug (app_id a) (''app '' @ app_id a)) (sn_apps snapshot)) @
     unique_by (map (\<lambda>u. user_tenant u @ ''/'' @ user_id u) (sn_users snapshot)) ''user.dup'' ''ModelSnapshot.users'' @
     unique_by (map eo_id (sn_external_outbounds snapshot)) ''external-outbound.dup'' ''ModelSnapshot.external_outbounds'' @
     unique_by (map (\<lambda>p. ed_node p @ '':'' @ show_nat (unat (ed_position p))) (sn_node_egress_dns snapshot))
       ''dns.position-dup'' ''ModelSnapshot.node_egress_dns'' @
     unique_by (map (\<lambda>p. ed_node p @ '':'' @ selector_json
           (case canonical_egress_dns_selector (ed_selector p) of Some s \<Rightarrow> s | None \<Rightarrow> ed_selector p))
         (sn_node_egress_dns snapshot)) ''dns.selector-dup'' ''ModelSnapshot.node_egress_dns'' @
     concat (map (validate_dns_policy snapshot) (sn_node_egress_dns snapshot)) @
     report_clashes (\<lambda>uuid previous owner. diagnostic_error ''user.uuid-dup'' owner (Msg ''same uuid'' [previous])) []
       (map (\<lambda>u. (user_uuid u, user_tenant u @ ''/'' @ user_id u)) (sn_users snapshot))"

section \<open>The system layer\<close>

fun validate_overlay :: "(ipv4_net \<Rightarrow> u32 \<Rightarrow> bool) \<Rightarrow> ipv4_net \<Rightarrow> (u32 \<times> string) list \<Rightarrow> system_node list \<Rightarrow> diagnostic list" where
  "validate_overlay net_contains cidr seen [] = []"
| "validate_overlay net_contains cidr seen (n # ns) =
     (case sys_overlay_addr n of
        None \<Rightarrow> validate_overlay net_contains cidr seen ns
      | Some addr \<Rightarrow>
          (case map_of seen addr of
             None \<Rightarrow> []
           | Some previous \<Rightarrow> [diagnostic_error ''node.overlay-dup'' (sys_id n) (Msg ''same address'' [show_ipv4 addr, previous])]) @
          (if net_contains cidr addr then []
           else [diagnostic_error ''node.overlay-out'' (sys_id n) (Msg ''outside the range'' [show_ipv4 addr])]) @
          validate_overlay net_contains cidr ((addr, sys_id n) # seen) ns)"

definition validate_system :: "(ipv4_net \<Rightarrow> u32 \<Rightarrow> bool) \<Rightarrow> system_ir \<Rightarrow> diagnostic list" where
  "validate_system net_contains sys =
     unique_by (map sys_id (si_nodes sys)) ''id.dup'' ''SystemIr.nodes'' @
     unique_by (map link_id (si_links sys)) ''id.dup'' ''SystemIr.links'' @
     validate_overlay net_contains (si_overlay_cidr sys) [] (si_nodes sys)"

section \<open>Sockets\<close>

datatype proto = ProtoTcp | ProtoUdp

fun proto_str :: "proto \<Rightarrow> string" where
  "proto_str ProtoTcp = ''TCP''"
| "proto_str ProtoUdp = ''UDP''"

type_synonym socket = "proto \<times> u16"

definition hop_range :: "hysteria_port_hop \<Rightarrow> u16 list" where
  "hop_range h = map of_nat [unat (hp_start h)..<Suc (unat (hp_end h))]"

definition download_ports :: "ingress_wires \<Rightarrow> u16 list" where
  "download_ports w =
     (case wires_vless w of
        Some (VlessRealityXhttp _) \<Rightarrow>
          (case Option.bind (wires_xhttp w) xh_download of
             None \<Rightarrow> []
           | Some d \<Rightarrow> bset (map node_port (List.map_filter id [xd_v4 d, xd_v6 d])))
      | _ \<Rightarrow> [])"

text \<open>Every socket of one ingress, with what its owner adds to the ingress' name.\<close>

definition occupied_ingress_ports :: "ir_ingress \<Rightarrow> (socket \<times> string) list" where
  "occupied_ingress_ports i =
     (let w = ii_wires i
      in (if wires_vless w \<noteq> None then [((ProtoTcp, ii_port i), [])] else []) @
         (case wires_vless_encryption w of None \<Rightarrow> [] | Some e \<Rightarrow> [((ProtoTcp, vl_port e), '' VLESS Encryption'')]) @
         (case wires_anytls w of None \<Rightarrow> [] | Some a \<Rightarrow> [((ProtoTcp, at_port a), '' AnyTLS'')]) @
         (case wires_mtproto w of None \<Rightarrow> [] | Some m \<Rightarrow> [((ProtoTcp, mt_port m), '' MTProxy'')]) @
         (case wires_hysteria2 w of
            None \<Rightarrow> []
          | Some h \<Rightarrow> ((ProtoUdp, hy_port h), '' Hysteria 2'') #
              (case hy_hop h of
                 None \<Rightarrow> []
               | Some hop \<Rightarrow> map (\<lambda>p. ((ProtoUdp, p), '' port hopping'')) (filter (\<lambda>p. p \<noteq> hy_port h) (hop_range hop)))) @
         map (\<lambda>p. ((ProtoTcp, p), '' TLS download front'')) (download_ports w))"

definition ingress_port_owner :: "string \<Rightarrow> string \<Rightarrow> string" where
  "ingress_port_owner ingress suffix = ''ingress '' @ ingress @ suffix"

definition fake_tcp_ports :: "system_ir \<Rightarrow> string \<Rightarrow> u16 list" where
  "fake_tcp_ports sys nid =
     bset (List.map_filter (\<lambda>l. case link_wrap l of
           WrapUdp \<Rightarrow> None
         | WrapFakeTcp servers \<Rightarrow>
             do { endpoint \<leftarrow> map_of servers nid;
                  (_, port) \<leftarrow> rsplit_once (CHR '':'') endpoint;
                  p \<leftarrow> parse_u16 port;
                  Some (of_nat p) }) (si_links sys))"

text \<open>What one machine binds, in the order the pass claims it.\<close>

definition machine_sockets :: "system_ir \<Rightarrow> app_ir \<Rightarrow> app_node \<Rightarrow> (socket \<times> string) list" where
  "machine_sockets sys app n =
     (case find (\<lambda>m. sys_id m = an_id n) (si_nodes sys) of
        None \<Rightarrow> []
      | Some m \<Rightarrow>
          (case Option.bind (sys_wireguard m) wi_listen_port of None \<Rightarrow> [] | Some p \<Rightarrow> [((ProtoUdp, p), ''WireGuard'')]) @
          concat (map (\<lambda>s. case is_hop_in s of
              None \<Rightarrow> []
            | Some h \<Rightarrow> [((ProtoTcp, ih_port h), ''relay inbound of '' @ is_chain s)])
            (filter (\<lambda>s. is_node s = an_id n) (ai_steps app))) @
          map (\<lambda>p. ((ProtoTcp, p), ''phantun'')) (fake_tcp_ports sys (an_id n))) @
     (case an_api_port n of None \<Rightarrow> [] | Some p \<Rightarrow> [((ProtoTcp, p), ''api'')]) @
     concat (map (\<lambda>i. map (\<lambda>(k, suffix). (k, ingress_port_owner (ii_id i) suffix)) (occupied_ingress_ports i))
       (filter (\<lambda>i. ii_node i = an_id n) (ai_ingresses app)))"

definition port_clash :: "string \<Rightarrow> socket \<Rightarrow> string \<Rightarrow> string \<Rightarrow> diagnostic" where
  "port_clash nid k previous what =
     diagnostic_error ''node.port-clash'' nid
       (Msg ''one socket, two owners'' [proto_str (fst k), show_nat (unat (snd k)), previous, what])"

definition validate_ports :: "system_ir \<Rightarrow> app_ir \<Rightarrow> diagnostic list" where
  "validate_ports sys app =
     concat (map (\<lambda>n. report_clashes (port_clash (an_id n)) [] (machine_sockets sys app n)) (ai_nodes app))"

text \<open>Across projects the first owner stays, and only another project clashes with it.\<close>

fun report_cross ::
  "('k \<Rightarrow> string \<Rightarrow> string \<Rightarrow> diagnostic) \<Rightarrow> ('k \<times> nat \<times> string) list \<Rightarrow> ('k \<times> nat \<times> string) list \<Rightarrow> diagnostic list" where
  "report_cross report used [] = []"
| "report_cross report used ((k, index, what) # cs) =
     (case map_of used k of
        None \<Rightarrow> report_cross report ((k, index, what) # used) cs
      | Some (previous_app, previous) \<Rightarrow>
          (if previous_app \<noteq> index then [report k previous what] else []) @ report_cross report used cs)"

definition app_name :: "app_ir \<Rightarrow> nat \<Rightarrow> string" where
  "app_name app index = (case ai_app_id app of Some i \<Rightarrow> i | None \<Rightarrow> ''app#'' @ show_nat index)"

text \<open>The sockets one project claims on all machines.\<close>

definition app_sockets :: "nat \<Rightarrow> app_ir \<Rightarrow> ((string \<times> socket) \<times> nat \<times> string) list" where
  "app_sockets index app =
     concat (map (\<lambda>i. map (\<lambda>(k, suffix). ((ii_node i, k), index, ingress_port_owner (app_name app index @ ''/'' @ ii_id i) suffix))
        (occupied_ingress_ports i)) (ai_ingresses app)) @
     concat (map (\<lambda>s. case is_hop_in s of
         None \<Rightarrow> []
       | Some h \<Rightarrow> [((is_node s, ProtoTcp, ih_port h), index, app_name app index @ '' relay inbound of '' @ is_chain s)]) (ai_steps app))"

definition indexed :: "'a list \<Rightarrow> (nat \<times> 'a) list" where
  "indexed xs = zip [0..<length xs] xs"

definition validate_app_set_ports :: "app_ir list \<Rightarrow> diagnostic list" where
  "validate_app_set_ports apps =
     report_cross (\<lambda>(nid, k) previous what. port_clash nid k previous what) []
       (concat (map (\<lambda>(index, app). app_sockets index app) (indexed apps)))"

section \<open>Labels\<close>

definition label_clash :: "string \<Rightarrow> string \<Rightarrow> string \<Rightarrow> string \<Rightarrow> diagnostic" where
  "label_clash nid label previous what =
     diagnostic_error ''label.duplicate'' nid (Msg ''one label, two owners'' [label, previous, what])"

definition accept_labels :: "app_ir \<Rightarrow> (string \<times> string \<times> string) list" where
  "accept_labels app =
     concat (map (\<lambda>s. case is_accept s of
         None \<Rightarrow> [] | Some a \<Rightarrow> [(is_node s, ia_label a, ''accept of '' @ is_chain s)]) (ai_steps app))"

definition grant_labels :: "app_ir \<Rightarrow> (string \<times> string \<times> string) list" where
  "grant_labels app =
     concat (map (\<lambda>g. case find (\<lambda>i. ii_id i = ig_ingress g) (ai_ingresses app) of
         None \<Rightarrow> [] | Some i \<Rightarrow> [(ii_node i, ig_label g, ''user '' @ ig_tenant g @ ''/'' @ ig_user g)]) (ai_grants app))"

definition validate_labels :: "app_ir \<Rightarrow> diagnostic list" where
  "validate_labels app =
     concat (map (\<lambda>n. report_clashes (label_clash (an_id n)) []
       (map snd (filter (\<lambda>e. fst e = an_id n) (accept_labels app @ grant_labels app)))) (ai_nodes app))"

definition validate_app_set_labels :: "app_ir list \<Rightarrow> diagnostic list" where
  "validate_app_set_labels apps =
     report_cross (\<lambda>(nid, label) previous what. label_clash nid label previous what) []
       (concat (map (\<lambda>(index, app). map (\<lambda>(nid, label, what). ((nid, label), index, app_name app index @ '' '' @ what))
          (accept_labels app @ grant_labels app)) (indexed apps)))"

section \<open>Resolvers across projects\<close>

definition put_dns :: "(string, dns \<times> domain_strategy \<times> bool) bmap \<Rightarrow> app_node \<Rightarrow> (string, dns \<times> domain_strategy \<times> bool) bmap" where
  "put_dns m n =
     (case map_of m (an_id n) of
        Some (d, strategy, policies) \<Rightarrow> bput (an_id n) (d, strategy, policies \<or> an_egress_dns n \<noteq> []) m
      | None \<Rightarrow> bput (an_id n) (an_dns n, an_domain_strategy n, an_egress_dns n \<noteq> []) m)"

text \<open>\<open>egress_tag\<close> is injective in the address, so the tags are counted as addresses.\<close>

definition egress_routes :: "app_ir list \<Rightarrow> string \<Rightarrow> ip_addr option list" where
  "egress_routes apps nid =
     remdups (List.map_filter (\<lambda>r. case ir_action r of Egress through \<Rightarrow> Some through | _ \<Rightarrow> None)
       (concat (map is_rules (filter (\<lambda>s. is_node s = nid) (concat (map ai_steps apps))))))"

definition validate_machine_dns :: "app_ir list \<Rightarrow> string \<times> dns \<times> domain_strategy \<times> bool \<Rightarrow> diagnostic list" where
  "validate_machine_dns apps = (\<lambda>(nid, d, strategy, policies).
     (if strategy = AsIs then
        (if dns_needs_route d \<or> policies
         then [diagnostic_warn ''node.dns-bypassed'' nid (Msg ''AsIs asks no resolver'' [nid])] else [])
      else if \<not> dns_needs_route d then []
      else (let count = length (egress_routes apps nid)
            in if count = 0 then [diagnostic_info ''node.dns-unused'' nid (Msg ''no egress carries the queries'' [nid])]
               else if count = 1 then []
               else [diagnostic_error ''dns.route-ambiguous'' nid (Msg ''no single way out'' [nid, show_nat count])])))"

definition validate_app_set_dns :: "app_ir list \<Rightarrow> diagnostic list" where
  "validate_app_set_dns apps =
     concat (map (validate_machine_dns apps) (foldl put_dns [] (concat (map ai_nodes apps))))"

section \<open>Listeners of other projects\<close>

text \<open>\<open>collect\<close> into a map: the last chain, and the last step, of a key wins.\<close>

definition chain_owner :: "app_ir list \<Rightarrow> string \<Rightarrow> (nat \<times> ir_chain) option" where
  "chain_owner apps =
     map_of (rev (concat (map (\<lambda>(index, app). map (\<lambda>c. (ic_id c, index, c)) (ai_chains app)) (indexed apps))))"

definition fleet_succ :: "ir_step list \<Rightarrow> string \<times> string \<Rightarrow> (string \<times> string) list" where
  "fleet_succ steps at =
     (case map_of (rev (map (\<lambda>s. ((is_chain s, is_node s), s)) steps)) at of
        None \<Rightarrow> []
      | Some s \<Rightarrow> map (\<lambda>f. (fa_target_chain f, fa_target_node f)) (step_forwards s))"

definition global_listener_reaches :: "ir_step list \<Rightarrow> string \<times> string \<Rightarrow> string \<times> string \<Rightarrow> bool" where
  "global_listener_reaches steps at wanted =
     (case reach_walk (Suc (length steps)) (fleet_succ steps) wanted [at] [] of
        None \<Rightarrow> False
      | Some (found, seen) \<Rightarrow> found)"

fun report_cross_listeners ::
  "app_ir list \<Rightarrow> ir_step list \<Rightarrow> string list \<Rightarrow> (nat \<times> ir_step \<times> (string \<times> string)) list \<Rightarrow> diagnostic list" where
  "report_cross_listeners apps steps reported [] = []"
| "report_cross_listeners apps steps reported ((index, s, l) # es) =
     (case (chain_owner apps (is_chain s), chain_owner apps (fst l)) of
        (Some (_, source_chain), Some (target_index, target_chain)) \<Rightarrow>
          if target_index = index then report_cross_listeners apps steps reported es
          else
            (let location = listener_location s l
             in tenant_scope (ic_tenant source_chain) (ic_tenant target_chain) location @
                (if global_listener_reaches steps l (is_chain s, is_node s) \<and> location \<notin> set reported
                 then diagnostic_error ''listener.cycle'' location (Msg ''the listener leads back here'' []) #
                      report_cross_listeners apps steps (location # reported) es
                 else report_cross_listeners apps steps reported es))
      | _ \<Rightarrow> report_cross_listeners apps steps reported es)"

definition cross_listener_edges :: "app_ir list \<Rightarrow> (nat \<times> ir_step \<times> (string \<times> string)) list" where
  "cross_listener_edges apps =
     concat (map (\<lambda>(index, app). map (Pair index) (listener_edges (ai_steps app))) (indexed apps))"

definition validate_cross_app_listener_references :: "app_ir list \<Rightarrow> diagnostic list" where
  "validate_cross_app_listener_references apps =
     report_cross_listeners apps (concat (map ai_steps apps)) [] (cross_listener_edges apps)"

end
