(* ===== verification/Validate_Ingress.thy ===== *)
theory Validate_Ingress
  imports Validate_Fleet
begin

text \<open>
  The passes of brocade-core/src/ir/validate.rs over the ingresses of a project: the HTTP layer,
  AnyTLS, Hysteria 2, REALITY, certificates, guard and projection. The base64 decoder is an
  argument, and so is the binary floating point of the bandwidth text: \<open>parse_f64\<close> gives,
  for the digits in front of the unit, whether the number is finite and not negative, and what
  multiplying it and truncating to \<open>u64\<close> yields.
\<close>

type_synonym f64_reader = "string \<Rightarrow> (bool \<times> (nat \<Rightarrow> nat)) option"

definition bad_ingress :: "ir_ingress \<Rightarrow> string \<Rightarrow> string \<Rightarrow> diagnostic" where
  "bad_ingress i code why = diagnostic_error code (ii_id i) (Msg why [ii_id i])"

definition complain :: "bool \<Rightarrow> diagnostic \<Rightarrow> diagnostic list" where
  "complain wrong d = (if wrong then [d] else [])"

section \<open>The HTTP layer\<close>

definition XMUX_CONCURRENCY_MIN :: u16 where "XMUX_CONCURRENCY_MIN = 1"
definition XMUX_CONCURRENCY_MAX :: u16 where "XMUX_CONCURRENCY_MAX = 128"
definition XMUX_VALUE_MAX :: u32 where "XMUX_VALUE_MAX = 2147483647"
definition XHTTP_MUX_MIN :: u16 where "XHTTP_MUX_MIN = 1"
definition XHTTP_MUX_MAX :: u16 where "XHTTP_MUX_MAX = 128"

definition validate_xhttp_xmux_range :: "string \<Rightarrow> string \<Rightarrow> string \<Rightarrow> xhttp_xmux_range \<Rightarrow> diagnostic list" where
  "validate_xhttp_xmux_range at code label r =
     complain (xr_from r = 0 \<or> xr_to r < xr_from r \<or> XMUX_VALUE_MAX < xr_to r)
       (diagnostic_error code at (Msg ''XMUX range'' [label, show_nat (unat (xr_from r)), show_nat (unat (xr_to r))]))"

definition validate_xhttp_range :: "string \<Rightarrow> string \<Rightarrow> string \<Rightarrow> xhttp_xmux_range \<Rightarrow> u32 \<Rightarrow> u32 \<Rightarrow> diagnostic list" where
  "validate_xhttp_range at code label r least most =
     complain (xr_from r < least \<or> xr_to r < xr_from r \<or> most < xr_to r)
       (diagnostic_error code at (Msg ''XHTTP range'' [label, show_nat (unat (xr_from r)), show_nat (unat (xr_to r))]))"

definition xmux_limit :: "ir_ingress \<Rightarrow> string \<Rightarrow> u16 option \<Rightarrow> diagnostic list" where
  "xmux_limit i code v =
     (case v of None \<Rightarrow> [] | Some n \<Rightarrow>
        complain (\<not> (XMUX_CONCURRENCY_MIN \<le> n \<and> n \<le> XMUX_CONCURRENCY_MAX)) (bad_ingress i code ''out of range''))"

definition validate_xmux :: "ir_ingress \<Rightarrow> xhttp_xmux \<Rightarrow> diagnostic list" where
  "validate_xmux i x =
     complain ((xm_max_concurrency x \<noteq> None) = (xm_max_connections x \<noteq> None))
       (bad_ingress i ''ingress.xhttp-xmux-limit'' ''exactly one limit'') @
     xmux_limit i ''ingress.xhttp-xmux-concurrency'' (xm_max_concurrency x) @
     xmux_limit i ''ingress.xhttp-xmux-connections'' (xm_max_connections x) @
     validate_xhttp_xmux_range (ii_id i) ''ingress.xhttp-xmux-request-times'' ''requests'' (xm_h_max_request_times x) @
     validate_xhttp_xmux_range (ii_id i) ''ingress.xhttp-xmux-reusable-secs'' ''reuse'' (xm_h_max_reusable_secs x) @
     (case xm_h_keep_alive_period_secs x of None \<Rightarrow> [] | Some v \<Rightarrow>
        complain (sint v \<noteq> - 1 \<and> \<not> (1 \<le> sint v \<and> sint v \<le> 3600)) (bad_ingress i ''ingress.xhttp-xmux-keepalive'' ''-1 or 1 to 3600''))"

definition validate_download :: "ir_ingress \<Rightarrow> xhttp \<Rightarrow> projection_download_endpoint \<Rightarrow> diagnostic list" where
  "validate_download i x d =
     complain (blank (de_host d)) (bad_ingress i ''ingress.xhttp-download-blank'' ''no address'') @
     complain (de_port d = 0) (bad_ingress i ''ingress.xhttp-download-port'' ''port 0'') @
     complain ((case wires_vless (ii_wires i) of Some (VlessRealityXhttp _) \<Rightarrow> True | _ \<Rightarrow> False) \<and> node_port d = ii_port i)
       (bad_ingress i ''ingress.xhttp-download-port-clash'' ''the upload listens there'') @
     complain (xh_mode x = StreamOne) (bad_ingress i ''ingress.xhttp-download-stream-one'' ''one request carries both ways'') @
     complain (case de_http_host d of None \<Rightarrow> False | Some h \<Rightarrow> blank h) (bad_ingress i ''ingress.xhttp-download-http-host'' ''blank host'') @
     (case de_mux d of None \<Rightarrow> [] | Some m \<Rightarrow>
        complain (\<not> (XHTTP_MUX_MIN \<le> m \<and> m \<le> XHTTP_MUX_MAX)) (bad_ingress i ''ingress.xhttp-download-mux-range'' ''1 to 128''))"

definition validate_ingress_stream :: "ir_ingress \<Rightarrow> diagnostic list" where
  "validate_ingress_stream i =
     (case wires_xhttp (ii_wires i) of
        None \<Rightarrow> []
      | Some x \<Rightarrow>
          complain (case wires_flow (ii_wires i) of None \<Rightarrow> False | Some f \<Rightarrow> f \<noteq> [])
            (bad_ingress i ''ingress.xhttp-flow-conflict'' ''XHTTP and a flow'') @
          complain (\<not> starts_with (xh_path x) ''/'') (bad_ingress i ''ingress.xhttp-path'' ''starts with /'') @
          complain (has_whitespace (xh_path x) \<or> CHR ''?'' \<in> set (xh_path x) \<or> CHR ''#'' \<in> set (xh_path x))
            (bad_ingress i ''ingress.xhttp-path'' ''white space, query or fragment'') @
          (case xh_xmux x of None \<Rightarrow> [] | Some xmux \<Rightarrow> validate_xmux i xmux) @
          (case Option.bind (xh_tuning x) xt_x_padding_bytes of None \<Rightarrow> []
           | Some r \<Rightarrow> validate_xhttp_range (ii_id i) ''ingress.xhttp-padding-bytes'' ''padding'' r 1 4096) @
          complain (case xh_host x of None \<Rightarrow> False | Some h \<Rightarrow> blank h) (bad_ingress i ''ingress.xhttp-host'' ''blank host'') @
          (case xh_download x of None \<Rightarrow> [] | Some d \<Rightarrow>
             concat (map (validate_download i x) (List.map_filter id [xd_v4 d, xd_v6 d]))) @
          (if xh_mode x = PacketUp
           then [diagnostic_warn ''ingress.xhttp-mode-packet-up'' (ii_id i) (Msg ''only this mode is accepted from now on'' [ii_id i])]
           else []))"

section \<open>AnyTLS\<close>

definition decimal_u32 :: "string \<Rightarrow> nat option" where
  "decimal_u32 value =
     (case parse_unsigned 32 value of None \<Rightarrow> None | Some n \<Rightarrow> if value = show_nat n then Some n else None)"

definition padding_token_ok :: "string \<Rightarrow> bool" where
  "padding_token_ok token \<longleftrightarrow>
     token = ''c'' \<or>
     (case split_once ''-'' token of
        None \<Rightarrow> False
      | Some (from, to) \<Rightarrow>
          (case (decimal_u32 (trim from), decimal_u32 (trim to)) of
             (Some a, Some b) \<Rightarrow> 0 < a \<and> 0 < b \<and> a \<le> b \<and> b \<le> 4194304
           | _ \<Rightarrow> False))"

definition bad_padding :: "ir_ingress \<Rightarrow> string \<Rightarrow> string list \<Rightarrow> diagnostic" where
  "bad_padding i why args' = diagnostic_error ''ingress.anytls-padding'' (ii_id i) (Msg why (ii_id i # args'))"

text \<open>The loop over the numbered lines: the keys seen, and whether \<open>stop\<close> was among them.\<close>

fun validate_padding_lines :: "ir_ingress \<Rightarrow> string list \<Rightarrow> bool \<Rightarrow> (nat \<times> string) list \<Rightarrow> diagnostic list \<times> bool" where
  "validate_padding_lines i seen stop_seen [] = ([], stop_seen)"
| "validate_padding_lines i seen stop_seen ((number, line0) # rest) =
     (let line = trim line0
      in if line = [] then validate_padding_lines i seen stop_seen rest
         else case split_once ''='' line of
           None \<Rightarrow>
             (let (ds, stop) = validate_padding_lines i seen stop_seen rest
              in (bad_padding i ''a line without ='' [show_nat (number + 1)] # ds, stop))
         | Some (key0, value0) \<Rightarrow>
             (let key = trim key0; value = trim value0
              in if key = [] \<or> value = [] \<or> key \<in> set seen then
                   (let (ds, stop) = validate_padding_lines i (if key = [] \<or> value = [] then seen else key # seen) stop_seen rest
                    in (bad_padding i ''an invalid or repeated line'' [show_nat (number + 1)] # ds, stop))
                 else if key = ''stop'' then
                   (let (ds, stop) = validate_padding_lines i (key # seen) True rest
                    in (complain (decimal_u32 value = None) (bad_padding i ''stop is not a number'' []) @ ds, stop))
                 else if decimal_u32 key = None then
                   (let (ds, stop) = validate_padding_lines i (key # seen) stop_seen rest
                    in (bad_padding i ''not a packet number'' [key] # ds, stop))
                 else
                   (let (ds, stop) = validate_padding_lines i (key # seen) stop_seen rest
                    in (map (\<lambda>token. bad_padding i ''not a range'' [token])
                          (filter (\<lambda>token. \<not> padding_token_ok token) (map trim (split_char (CHR '','') value))) @ ds, stop))))"

definition header_char :: "char \<Rightarrow> bool" where
  "header_char c \<longleftrightarrow>
     is_ascii_digit c \<or> is_ascii_lowercase c \<or> is_ascii_uppercase c \<or>
     c \<in> set ''!#$%&*+-.^_|~'' \<or> c = CHR 0x27 \<or> c = CHR 0x60"

fun masquerade_headers :: "any_tls_masquerade \<Rightarrow> (string, string) bmap" where
  "masquerade_headers (AnyTlsNotFound headers) = headers"
| "masquerade_headers (AnyTlsString _ headers _) = headers"

definition validate_anytls_masquerade :: "ir_ingress \<Rightarrow> any_tls_masquerade \<Rightarrow> diagnostic list" where
  "validate_anytls_masquerade i m =
     concat (map (\<lambda>(name, value).
        complain (name = [] \<or> \<not> list_all header_char name \<or> CHR 0x0D \<in> set value \<or> CHR 0x0A \<in> set value)
          (bad_ingress i ''ingress.anytls-masquerade'' ''a header'')) (masquerade_headers m)) @
     (case m of
        AnyTlsString _ _ status \<Rightarrow>
          complain (\<not> (200 \<le> status \<and> status \<le> 599)) (bad_ingress i ''ingress.anytls-masquerade'' ''status 200 to 599'')
      | _ \<Rightarrow> [])"

definition validate_anytls :: "ir_ingress \<Rightarrow> any_tls \<Rightarrow> diagnostic list" where
  "validate_anytls i a =
     complain (at_security a = AnyTlsReality \<and> at_reality a = None) (bad_ingress i ''ingress.anytls-reality'' ''unresolved REALITY'') @
     complain (at_port a = 0) (bad_ingress i ''ingress.anytls-port'' ''port 0'') @
     complain (at_idle_session_check_interval_secs a = Some 0 \<or> at_idle_session_timeout_secs a = Some 0)
       (bad_ingress i ''ingress.anytls-session'' ''0 seconds'') @
     (if at_padding_scheme a = [] then []
      else
        (let raw = join_lines (at_padding_scheme a);
             ls = str_lines raw;
             (ds, stop_seen) = validate_padding_lines i [] False (zip [0..<length ls] ls)
         in complain (65535 < length raw) (bad_padding i ''too long'' []) @ ds @
            complain (\<not> stop_seen) (bad_padding i ''no stop'' []))) @
     validate_anytls_masquerade i (at_masquerade a)"

section \<open>Hysteria 2\<close>

definition bandwidth_unit :: "string \<Rightarrow> nat option" where
  "bandwidth_unit u =
     (if u \<in> {'''', ''b'', ''bps''} then Some 1
      else if u \<in> {''k'', ''kb'', ''kbps''} then Some 1024
      else if u \<in> {''m'', ''mb'', ''mbps''} then Some (1024 ^ 2)
      else if u \<in> {''g'', ''gb'', ''gbps''} then Some (1024 ^ 3)
      else if u \<in> {''t'', ''tb'', ''tbps''} then Some (1024 ^ 4)
      else None)"

definition hysteria_bandwidth_bytes_per_sec :: "f64_reader \<Rightarrow> string \<Rightarrow> string + nat" where
  "hysteria_bandwidth_bytes_per_sec parse_f64 value0 =
     (let value = to_ascii_lowercase (trim value0);
          numeric = (\<lambda>c. is_ascii_digit c \<or> c = CHR ''.'')
      in case parse_f64 (takeWhile numeric value) of
           None \<Rightarrow> Inl ''not a number''
         | Some (finite_nonneg, scaled) \<Rightarrow>
             if \<not> finite_nonneg then Inl ''not finite or negative''
             else case bandwidth_unit (trim (dropWhile numeric value)) of
               None \<Rightarrow> Inl ''unknown unit''
             | Some multiplier \<Rightarrow> Inr (scaled multiplier div 8))"

definition MIN_RECEIVE_WINDOW :: u64 where "MIN_RECEIVE_WINDOW = 16384"
definition MIN_IDLE_TIMEOUT_SECS :: u32 where "MIN_IDLE_TIMEOUT_SECS = 4"
definition MAX_IDLE_TIMEOUT_SECS :: u32 where "MAX_IDLE_TIMEOUT_SECS = 120"
definition MIN_KEEP_ALIVE_SECS :: u32 where "MIN_KEEP_ALIVE_SECS = 2"
definition MAX_KEEP_ALIVE_SECS :: u32 where "MAX_KEEP_ALIVE_SECS = 60"
definition MIN_INCOMING_STREAMS :: u32 where "MIN_INCOMING_STREAMS = 8"

definition validate_hysteria2_quic :: "ir_ingress \<Rightarrow> hysteria_quic \<Rightarrow> diagnostic list" where
  "validate_hysteria2_quic i q =
     (let reject = bad_ingress i ''ingress.hy2-quic-range'';
          within = (\<lambda>what ok v. case v of None \<Rightarrow> [] | Some n \<Rightarrow> complain (\<not> ok n) (reject what))
      in within ''stream window'' (\<lambda>n. MIN_RECEIVE_WINDOW \<le> n) (hq_init_stream_receive_window q) @
         within ''largest stream window'' (\<lambda>n. MIN_RECEIVE_WINDOW \<le> n) (hq_max_stream_receive_window q) @
         within ''connection window'' (\<lambda>n. MIN_RECEIVE_WINDOW \<le> n) (hq_init_connection_receive_window q) @
         within ''largest connection window'' (\<lambda>n. MIN_RECEIVE_WINDOW \<le> n) (hq_max_connection_receive_window q) @
         (case hq_max_idle_timeout_secs q of None \<Rightarrow> []
          | Some n \<Rightarrow> complain (\<not> (MIN_IDLE_TIMEOUT_SECS \<le> n \<and> n \<le> MAX_IDLE_TIMEOUT_SECS)) (reject ''idle timeout'')) @
         (case hq_keep_alive_period_secs q of None \<Rightarrow> []
          | Some n \<Rightarrow> complain (\<not> (MIN_KEEP_ALIVE_SECS \<le> n \<and> n \<le> MAX_KEEP_ALIVE_SECS)) (reject ''keep alive'')) @
         (case hq_max_incoming_streams q of None \<Rightarrow> []
          | Some n \<Rightarrow> complain (n < MIN_INCOMING_STREAMS) (reject ''streams'')))"

definition bandwidth_text :: "string option \<Rightarrow> string option" where
  "bandwidth_text v = (case v of None \<Rightarrow> None | Some s \<Rightarrow> if blank s then None else Some (trim s))"

definition validate_bandwidth :: "f64_reader \<Rightarrow> ir_ingress \<Rightarrow> string option \<Rightarrow> diagnostic list" where
  "validate_bandwidth parse_f64 i v =
     (case v of
        None \<Rightarrow> []
      | Some s \<Rightarrow>
          (case hysteria_bandwidth_bytes_per_sec parse_f64 s of
             Inr rate \<Rightarrow> complain (rate < 65536) (bad_ingress i ''ingress.hy2-bandwidth'' ''below 65536 B/s'')
           | Inl why \<Rightarrow> [bad_ingress i ''ingress.hy2-bandwidth'' why]))"

definition masquerade_url_ok :: "string \<Rightarrow> bool" where
  "masquerade_url_ok url \<longleftrightarrow>
     (case strip_prefix ''https://'' (trim url) of
        None \<Rightarrow> False
      | Some rest \<Rightarrow>
          (let authority = takeWhile (\<lambda>c. c \<noteq> CHR ''/'') rest in authority \<noteq> [] \<and> \<not> has_whitespace authority))"

definition validate_hysteria2 :: "f64_reader \<Rightarrow> ir_ingress \<Rightarrow> hysteria2 \<Rightarrow> diagnostic list" where
  "validate_hysteria2 parse_f64 i h =
     (let up = bandwidth_text (hb_up (hy_bandwidth h)); down = bandwidth_text (hb_down (hy_bandwidth h))
      in complain (hy_port h = 0) (bad_ingress i ''ingress.hy2-port'' ''port 0'') @
         complain (wires_vless (ii_wires i) \<noteq> None \<and> hy_port h = ii_port i)
           (bad_ingress i ''ingress.hy2-port-shared'' ''the VLESS port'') @
         (case hy_hop h of
            None \<Rightarrow> []
          | Some hop \<Rightarrow>
              if hp_start hop = 0 \<or> hp_end hop < hp_start hop then [bad_ingress i ''ingress.hy2-hop-range'' ''not a range'']
              else complain (\<not> port_hop_contains hop (hy_port h))
                (bad_ingress i ''ingress.hy2-hop-listener'' ''the listener is outside the range'')) @
         complain ((up \<noteq> None) \<noteq> (down \<noteq> None)) (bad_ingress i ''ingress.hy2-bandwidth'' ''both or neither'') @
         validate_bandwidth parse_f64 i up @ validate_bandwidth parse_f64 i down @
         complain (hy_congestion h = ForceBrutal \<and> up = None)
           (bad_ingress i ''ingress.hy2-force-brutal-needs-up'' ''force-brutal needs the upload rate'') @
         validate_hysteria2_quic i (hy_quic h) @
         (case hy_obfs h of
            Some (Salamander password) \<Rightarrow> complain (blank password) (bad_ingress i ''ingress.hy2-obfs-blank'' ''no password'')
          | None \<Rightarrow> []) @
         (case hy_masquerade h of
            MasqueradeProxy url \<Rightarrow> complain (\<not> masquerade_url_ok url) (bad_ingress i ''ingress.hy2-masquerade'' ''a full https address'')
          | _ \<Rightarrow> []))"

section \<open>Certificate, guard, projection\<close>

definition validate_ingress_guard :: "ir_ingress \<Rightarrow> diagnostic list" where
  "validate_ingress_guard i =
     complain (ig_no_bittorrent (ii_guard i) \<and> \<not> ii_sniff i)
       (bad_ingress i ''ingress.guard-needs-sniffing'' ''sniffing is off'')"

definition validate_ingress_certificate :: "ir_ingress \<Rightarrow> diagnostic list" where
  "validate_ingress_certificate i =
     (let split_download = ((case wires_vless (ii_wires i) of Some (VlessRealityXhttp _) \<Rightarrow> True | _ \<Rightarrow> False) \<and>
            (case Option.bind (wires_xhttp (ii_wires i)) xh_download of
               None \<Rightarrow> False | Some d \<Rightarrow> xd_v4 d \<noteq> None \<or> xd_v6 d \<noteq> None))
      in if \<not> wires_need_node_certificate (ii_wires i) \<and> \<not> split_download then []
         else complain (case ii_certificate_name i of None \<Rightarrow> True | Some n \<Rightarrow> blank n)
           (diagnostic_error ''ingress.tls-no-certificate'' (ii_id i) (Msg ''no certificate'' [ii_id i, ii_node i])))"

definition validate_projection_pair ::
  "ir_ingress \<Rightarrow> string \<Rightarrow> projection_endpoint option \<Rightarrow> projection_endpoint option \<Rightarrow> diagnostic list" where
  "validate_projection_pair i protocol v4 v6 =
     concat (map (\<lambda>e.
        complain (blank (pe_host e)) (diagnostic_error ''ingress.projection-blank'' (ii_id i) (Msg ''no address'' [ii_id i, protocol])) @
        complain (pe_port e = 0) (diagnostic_error ''ingress.projection-port'' (ii_id i) (Msg ''port 0'' [ii_id i, protocol])))
       (List.map_filter id [v4, v6]))"

definition validate_projection :: "ir_ingress \<Rightarrow> diagnostic list" where
  "validate_projection i =
     (let p = ii_projection i;
          own = (\<lambda>protocol q. case q of None \<Rightarrow> [] | Some pp \<Rightarrow> validate_projection_pair i protocol (pp_v4 pp) (pp_v6 pp))
      in validate_projection_pair i ''VLESS'' (pr_v4 p) (pr_v6 p) @
         own ''VLESS Encryption'' (pr_vless_encryption p) @ own ''AnyTLS'' (pr_anytls p) @
         own ''Hysteria 2'' (pr_hysteria2 p) @ own ''MTProxy'' (pr_mtproto p))"

section \<open>The whole ingress\<close>

definition validate_vless_encryption :: "(string \<Rightarrow> string option) \<Rightarrow> ir_ingress \<Rightarrow> vless_encryption \<Rightarrow> diagnostic list" where
  "validate_vless_encryption decode i e =
     (case options_validate (vl_options e) of
        Inl why \<Rightarrow> [bad_ingress i ''ingress.vless-encryption-options'' ''options'']
      | Inr _ \<Rightarrow> []) @
     complain (vl_port e = 0) (bad_ingress i ''ingress.vless-encryption-port'' ''port 0'') @
     complain (\<not> is_reality_public_key decode (vl_public_key e) \<or> \<not> is_reality_public_key decode (vl_private_key e))
       (bad_ingress i ''ingress.vless-encryption-key'' ''not a key pair'')"

definition validate_mtproto :: "app_ir \<Rightarrow> ir_ingress \<Rightarrow> mt_proto \<Rightarrow> diagnostic list" where
  "validate_mtproto app i m =
     complain (mt_port m = 0) (bad_ingress i ''ingress.mtproto-port'' ''port 0'') @
     (case find (\<lambda>n. an_id n = ii_node i) (ai_nodes app) of
        None \<Rightarrow> []
      | Some n \<Rightarrow>
          if (case an_public_ipv4 n of None \<Rightarrow> True | Some a \<Rightarrow> blank a)
          then [bad_ingress i ''ingress.mtproto-direct-ipv4'' ''no public IPv4'']
          else complain (an_public_ipv4_nat n) (bad_ingress i ''ingress.mtproto-direct-ipv4'' ''public IPv4 behind NAT''))"

definition validate_ingress :: "(string \<Rightarrow> string option) \<Rightarrow> f64_reader \<Rightarrow> app_ir \<Rightarrow> ir_ingress \<Rightarrow> diagnostic list" where
  "validate_ingress decode parse_f64 app i =
     (let w = ii_wires i
      in validate_ingress_stream i @
         (case wires_vless_encryption w of None \<Rightarrow> [] | Some e \<Rightarrow> validate_vless_encryption decode i e) @
         (case wires_hysteria2 w of None \<Rightarrow> [] | Some h \<Rightarrow> validate_hysteria2 parse_f64 i h) @
         (case wires_anytls w of None \<Rightarrow> [] | Some a \<Rightarrow> validate_anytls i a) @
         (case wires_mtproto w of None \<Rightarrow> [] | Some m \<Rightarrow> validate_mtproto app i m) @
         validate_ingress_certificate i @ validate_ingress_guard i @
         (if \<not> list_ex (\<lambda>c. ic_id c = ii_chain i) (ai_chains app)
          then [diagnostic_error ''ingress.no-chain'' (ii_id i) (Msg ''no such chain'' [ii_chain i])]
          else
            complain (\<not> list_ex (\<lambda>n. an_id n = ii_node i) (ai_nodes app))
              (diagnostic_error ''ingress.no-node'' (ii_id i) (Msg ''no such machine'' [ii_node i])) @
            validate_projection i))"

definition validate_chain_ingresses :: "(string \<Rightarrow> string option) \<Rightarrow> f64_reader \<Rightarrow> app_ir \<Rightarrow> diagnostic list" where
  "validate_chain_ingresses decode parse_f64 app =
     map (\<lambda>c. diagnostic_error ''chain.no-ingress'' (ic_id c) (Msg ''no ingress on this chain'' [ic_id c]))
       (filter (\<lambda>c. ic_root c = None) (ai_chains app)) @
     concat (map (validate_ingress decode parse_f64 app) (ai_ingresses app))"

section \<open>REALITY\<close>

definition validate_fallback_rate :: "ir_ingress \<Rightarrow> string \<Rightarrow> reality_fallback_rate_limit \<Rightarrow> diagnostic list" where
  "validate_fallback_rate i direction rate =
     complain (rl_bytes_per_sec rate = 0 \<or> rl_burst_bytes_per_sec rate = 0 \<or> rl_burst_bytes_per_sec rate < rl_bytes_per_sec rate)
       (bad_ingress i ''reality.fallback-limit'' direction)"

definition validate_reality_site :: "ir_ingress \<Rightarrow> reality_settings \<Rightarrow> diagnostic list" where
  "validate_reality_site i r =
     complain (rt_server_names r = []) (bad_ingress i ''reality.no-sni'' ''no server name'') @
     complain (\<not> is_nonzero_host_port (rt_dest r)) (bad_ingress i ''reality.dest'' (rt_dest r)) @
     map (\<lambda>n. bad_ingress i ''reality.server-name'' n) (filter (\<lambda>n. \<not> is_reality_server_name n) (rt_server_names r)) @
     complain (\<not> is_reality_fingerprint (rt_fingerprint r)) (bad_ingress i ''reality.fingerprint-unsupported'' [])"

definition validate_one_reality ::
  "ir_ingress \<Rightarrow> reality_settings \<times> ingress_identity option \<times> bool \<Rightarrow> diagnostic list" where
  "validate_one_reality i = (\<lambda>(r, identity, is_anytls).
     (case identity of
        None \<Rightarrow> [bad_ingress i ''anytls.reality-identity'' ''no key pair of its own'']
      | Some own \<Rightarrow>
          if is_anytls \<and> uses_node_certificate_fallback r
          then [bad_ingress i ''anytls.reality-target'' ''a global or a custom site'']
          else
            (if uses_node_certificate_fallback r then [] else validate_reality_site i r) @
            (case rt_fallback_limits r of
               FallbackCustom upload download \<Rightarrow>
                 validate_fallback_rate i ''upload'' upload @ validate_fallback_rate i ''download'' download
             | _ \<Rightarrow> []) @
            complain (ii_short_ids own = []) (bad_ingress i ''reality.short-id'' ''none'') @
            map (\<lambda>s. bad_ingress i ''reality.short-id'' s) (filter (\<lambda>s. \<not> is_reality_short_id s) (ii_short_ids own))))"

definition validate_reality :: "app_ir \<Rightarrow> diagnostic list" where
  "validate_reality app =
     concat (map (\<lambda>i. concat (map (validate_one_reality i) (List.map_filter id
        [map_option (\<lambda>r. (r, Some (ii_identity i), False)) (wires_reality (ii_wires i)),
         map_option (\<lambda>r. (r, ii_anytls_identity i, True)) (wires_anytls_reality (ii_wires i))]))) (ai_ingresses app))"

end
