(* ===== verification/Validate_App.thy ===== *)
theory Validate_App
  imports Validate_Ingress
begin

text \<open>
  The entry points of brocade-core/src/ir/validate.rs. The record \<open>outside\<close> holds what the
  passes take from outside the model: the \<open>serde_json\<close> text of a selector, \<open>ipnet\<close>'s membership
  test, the base64 decoder, the reader of decimal fractions, and the passes over external
  tunnels, front groups and subscription names, which read other modules.
\<close>

record outside =
  os_selector_json :: "dest_match \<Rightarrow> string"
  os_net_contains :: "ipv4_net \<Rightarrow> u32 \<Rightarrow> bool"
  os_decode :: "string \<Rightarrow> string option"
  os_parse_f64 :: f64_reader
  os_external_outbounds :: "app_ir \<Rightarrow> diagnostic list"
  os_fronts :: "system_ir \<Rightarrow> app_ir \<Rightarrow> diagnostic list"
  os_subscription_names :: "app_ir list \<Rightarrow> diagnostic list"

definition validate_app :: "outside \<Rightarrow> system_ir \<Rightarrow> app_ir \<Rightarrow> diagnostic list" where
  "validate_app env sys app =
     validate_unique_ids app @
     validate_slugs app @
     validate_chain_ingresses (os_decode env) (os_parse_f64 env) app @
     validate_ports sys app @
     validate_labels app @
     validate_steps sys app @
     os_external_outbounds env app @
     validate_topology app @
     os_fronts env sys app @
     validate_reality app @
     validate_hop_security app @
     validate_reverse_needs_vless app @
     validate_tenants app @
     validate_dns app"

definition validate_app_set :: "outside \<Rightarrow> app_ir list \<Rightarrow> diagnostic list" where
  "validate_app_set env apps =
     validate_app_set_ports apps @
     validate_app_set_labels apps @
     validate_app_set_dns apps @
     validate_cross_app_listener_references apps @
     os_subscription_names env apps"

end
