(* ===== verification/Compile.thy ===== *)
theory Compile
  imports Hop_Guarantees Validate_App
begin

text \<open>
  The pipeline of brocade-core/src/compile.rs: the system layer and the listener index, the
  routing of every project, its hops against the steps of all projects, the passes of the
  validator and the gate of \<open>Diagnostics\<close>. \<open>env\<close> is what the validator takes from outside.
\<close>

record compile_prelude =
  cp_system :: system_ir
  cp_listener_roots :: "(string \<times> string) list"
  cp_diagnostics :: "diagnostic list"

definition compile_prelude_of :: "outside \<Rightarrow> model_snapshot \<Rightarrow> compile_prelude" where
  "compile_prelude_of env snapshot =
     (let (ds, system) = compile_system snapshot
      in \<lparr>cp_system = system, cp_listener_roots = reachable_listener_roots_across_apps snapshot,
          cp_diagnostics = validate_model_snapshot (os_selector_json env) snapshot @ ds @ validate_system (os_net_contains env) system\<rparr>)"

text \<open>A compiled routing project, and a finished one: its layer and what its stage reported.\<close>

type_synonym staged_app = "app_ir \<times> diagnostic list"

definition compile_routing_app_with ::
  "model_snapshot \<Rightarrow> app_view \<Rightarrow> (string \<times> string) list \<Rightarrow> (routing_chain_input \<Rightarrow> routing_chain_compile) \<Rightarrow> staged_app" where
  "compile_routing_app_with snapshot app listener_roots compile_one =
     (let (ds, ir) = compile_app_with_listener_roots_and snapshot app (Some listener_roots) compile_one in (ir, ds))"

definition compile_routing_app ::
  "model_snapshot \<Rightarrow> app_view \<Rightarrow> (string \<times> string) list \<Rightarrow> staged_app" where
  "compile_routing_app snapshot app listener_roots =
     (let (ds, ir) = compile_app_with_listener_roots snapshot app (Some listener_roots) in (ir, ds))"

definition finish_app_compile :: "outside \<Rightarrow> staged_app \<Rightarrow> ir_step list \<Rightarrow> system_ir \<Rightarrow> staged_app" where
  "finish_app_compile env routing target_steps system =
     (let (ds, ir) = compile_hops_with_targets (fst routing) target_steps system
      in (ir, ds @ validate_app env system ir))"

definition compile_snapshot :: "outside \<Rightarrow> model_snapshot \<Rightarrow> (system_ir, app_ir) compile_output" where
  "compile_snapshot env snapshot =
     (let prelude = compile_prelude_of env snapshot;
          routing_apps = map (\<lambda>app. compile_routing_app snapshot app (cp_listener_roots prelude)) (sn_apps snapshot);
          target_steps = concat (map (\<lambda>r. ai_steps (fst r)) routing_apps);
          apps = map (\<lambda>r. finish_app_compile env r target_steps (cp_system prelude)) routing_apps
      in finish_compile (validate_app_set env) (cp_system prelude) (cp_diagnostics prelude) routing_apps apps)"

text \<open>\<open>with_revision\<close> rebinds the provenance of an already compiled value.\<close>

definition with_revision :: "(system_ir, app_ir) compile_output \<Rightarrow> u64 \<Rightarrow> (system_ir, app_ir) compile_output" where
  "with_revision output revision =
     output\<lparr>co_system := (co_system output)\<lparr>si_revision := revision\<rparr>,
       co_apps := map (\<lambda>a. a\<lparr>ai_revision := revision\<rparr>) (co_apps output)\<rparr>"

section \<open>What the pipeline gives\<close>

definition all_steps :: "model_snapshot \<Rightarrow> ir_step list" where
  "all_steps snapshot =
     concat (map (\<lambda>app. ai_steps (snd (compile_app_with_listener_roots snapshot app
       (Some (reachable_listener_roots_across_apps snapshot))))) (sn_apps snapshot))"

lemma compile_snapshot_apps:
  "co_apps (compile_snapshot env snapshot) =
     map (\<lambda>app. snd (compile_hops_with_targets
         (snd (compile_app_with_listener_roots snapshot app (Some (reachable_listener_roots_across_apps snapshot))))
         (all_steps snapshot) (snd (compile_system snapshot)))) (sn_apps snapshot)"
  "co_system (compile_snapshot env snapshot) = snd (compile_system snapshot)"
  by (simp_all add: compile_snapshot_def Let_def finish_compile_def compile_prelude_of_def split_beta
      compile_routing_app_def finish_app_compile_def all_steps_def comp_def)

lemma compiled_app_cases:
  assumes "ir \<in> set (co_apps (compile_snapshot env snapshot))"
  obtains app where "app \<in> set (sn_apps snapshot)"
    "ir = snd (compile_hops_with_targets
       (snd (compile_app_with_listener_roots snapshot app (Some (reachable_listener_roots_across_apps snapshot))))
       (all_steps snapshot) (snd (compile_system snapshot)))"
  using assms unfolding compile_snapshot_apps by auto

text \<open>The hop stage changes the hops only.\<close>

lemma hop_stage_fields:
  "ai_steps (snd (compile_hops_with_targets app targets sys)) = ai_steps app"
  "ai_grants (snd (compile_hops_with_targets app targets sys)) = ai_grants app"
  "ai_users (snd (compile_hops_with_targets app targets sys)) = ai_users app"
  "ai_fronts (snd (compile_hops_with_targets app targets sys)) = ai_fronts app"
  "ai_ingresses (snd (compile_hops_with_targets app targets sys)) = ai_ingresses app"
  "ai_chains (snd (compile_hops_with_targets app targets sys)) = ai_chains app"
  "ai_nodes (snd (compile_hops_with_targets app targets sys)) = ai_nodes app"
  by (simp_all add: compile_hops_with_targets_def split_beta)

lemma linked_members:
  assumes "distinct (map node_id (sn_nodes doc))" and "l \<in> set (si_links (snd (compile_system doc)))"
  shows "\<exists>an bn. live_member doc an \<and> live_member doc bn \<and> node_id an = link_a l \<and> node_id bn = link_b l \<and>
    \<not> link_disabled doc (link_a l) (link_b l) \<and> (can_reach an bn \<or> can_reach bn an)"
  using iffD1 [OF mesh_links_iff [OF assms(1), of "link_a l" "link_b l"]] assms(2) by blast

lemma overlay_hop_link:
  assumes "h \<in> set (ai_hops (snd (compile_hops_with_targets app targets sys)))" and "hop_path h = PathOverlay"
  shows "\<exists>l \<in> set (si_links sys). {link_a l, link_b l} = {hop_from h, hop_to h} \<and>
    (link_a l = hop_from h \<and> link_b l = hop_to h \<or> link_a l = hop_to h \<and> link_b l = hop_from h)"
proof -
  from hop_sound [OF assms(1)] obtain s f where "hop_of_edge app targets sys s f h" by blast
  then obtain entry where "dial_ok (hop_from h) (hop_to h) entry (hop_ends app sys (hop_from h) (hop_to h))
      (hop_address h) (hop_port h) PathOverlay"
    unfolding hop_of_edge_def assms(2) by blast
  then have "he_linked (hop_ends app sys (hop_from h) (hop_to h))" by simp
  then show ?thesis by (auto simp: hop_ends_def list_ex_iff)
qed

lemma link_disabled_sym: "link_disabled doc x y \<longleftrightarrow> link_disabled doc y x"
  by (auto simp: link_disabled_def)


lemma overlay_hop_reach:
  assumes "distinct (map node_id (sn_nodes doc))" and "ir \<in> set (co_apps (compile_snapshot env doc))"
    and "h \<in> set (ai_hops ir)" and "hop_path h = PathOverlay"
  shows "\<exists>an bn. live_member doc an \<and> live_member doc bn \<and> node_id an = hop_from h \<and> node_id bn = hop_to h \<and>
    \<not> link_disabled doc (hop_from h) (hop_to h) \<and> (can_reach an bn \<or> can_reach bn an)"
proof -
  obtain app where "ir = snd (compile_hops_with_targets
      (snd (compile_app_with_listener_roots doc app (Some (reachable_listener_roots_across_apps doc))))
      (all_steps doc) (snd (compile_system doc)))" using assms(2) by (rule compiled_app_cases)
  with overlay_hop_link assms(3,4) obtain l where l: "l \<in> set (si_links (snd (compile_system doc)))"
    "link_a l = hop_from h \<and> link_b l = hop_to h \<or> link_a l = hop_to h \<and> link_b l = hop_from h" by blast
  from linked_members [OF assms(1) l(1)] l(2) show ?thesis using link_disabled_sym by metis
qed

text \<open>C7: in a model whose machines have identities of their own, across the whole pipeline a hop that runs inside the overlay joins two machines that are both in service on the overlay, that the operator has not cut off from each other, and one of which can dial the other; traffic is never sent into a WireGuard tunnel that does not exist.\<close>

theorem compiled_overlay_hops_reach:
  assumes "distinct (map node_id (sn_nodes doc))" and "ir \<in> set (co_apps (compile_snapshot env doc))"
    and "h \<in> set (ai_hops ir)" and "hop_path h = PathOverlay"
  shows "\<exists>an bn. live_member doc an \<and> live_member doc bn \<and> node_id an = hop_from h \<and> node_id bn = hop_to h \<and>
    \<not> link_disabled doc (hop_from h) (hop_to h) \<and> (can_reach an bn \<or> can_reach bn an)"
  by (rule overlay_hop_reach [OF assms])

section \<open>Two machines and one relay\<close>

definition relay_app :: app_view where
  "relay_app =
     \<lparr>app_id = ''p'', app_label = ''p'',
      app_chains = [\<lparr>chain_id = ''c'', chain_tenant = ''t'', chain_name = ''c'', chain_subscription_country = None\<rparr>],
      app_ingresses = [reuse_ingress ''i'' ''c'' ''a''], app_fronts = [],
      app_steps = [reuse_step ''c'' ''a'' (Forward ''b'' DialOverlay NoPool), reuse_step ''c'' ''b'' (Egress None)],
      app_grants = []\<rparr>"

definition relay_doc :: model_snapshot where
  "relay_doc = sample_snapshot [sample_node ''a'' (Some ''h'') WgUdp, sample_node ''b'' (Some ''h'') WgUdp] [relay_app]"

definition relay_ir :: app_ir where
  "relay_ir = snd (compile_app_with_listener_roots relay_doc relay_app (Some (reachable_listener_roots_across_apps relay_doc)))"

lemma relay_steps:
  "map (\<lambda>s. (is_chain s, is_node s, is_accept s \<noteq> None, is_hop_in s \<noteq> None, map ir_action (is_rules s))) (ai_steps relay_ir) =
     [(''c'', ''a'', False, False, [Forward ''b'' DialOverlay NoPool]), (''c'', ''b'', True, True, [Egress None])]"
  by code_simp

lemma relay_ids: "distinct (map node_id (sn_nodes relay_doc))"
  by (simp add: relay_doc_def sample_snapshot_def sample_node_def)

lemma relay_link: "\<exists>l \<in> set (si_links (snd (compile_system relay_doc))). link_a l = ''a'' \<and> link_b l = ''b''"
  unfolding mesh_links_iff [OF relay_ids]
  by (rule exI [where x = "sample_node ''a'' (Some ''h'') WgUdp"], rule exI [where x = "sample_node ''b'' (Some ''h'') WgUdp"])
    (use sample_less in \<open>simp add: live_member_def link_disabled_def can_reach_def relay_doc_def sample_snapshot_def
       sample_node_def model_settings_default_def overlay_settings_default_def open_ipv4_def\<close>)

lemma assign_ports_overlay:
  "map (\<lambda>n. (sys_id n, sys_overlay_addr n)) (assign_server_listen_ports doc links ns) =
     map (\<lambda>n. (sys_id n, sys_overlay_addr n)) ns"
  by (auto simp: assign_server_listen_ports_def Let_def split: option.splits)

lemma relay_members:
  "map (\<lambda>n. (sys_id n, sys_overlay_addr n)) (si_nodes (snd (compile_system relay_doc))) = [(''a'', Some 1), (''b'', Some 1)]"
proof -
  have "sys_id (system_node_of doc n) = node_id n" for doc n by (simp add: system_node_of_def Let_def)
  then have "system_nodes relay_doc =
      [system_node_of relay_doc (sample_node ''a'' (Some ''h'') WgUdp), system_node_of relay_doc (sample_node ''b'' (Some ''h'') WgUdp)]"
    using sample_less by (simp add: system_nodes_def relay_doc_def sample_snapshot_def sample_node_def)
  then show ?thesis
    unfolding compile_system_nodes assign_ports_overlay by (simp add: system_node_of_def sample_node_def Let_def)
qed

lemma relay_ends:
  "he_source_on_overlay (hop_ends relay_ir (snd (compile_system relay_doc)) ''a'' ''b'')"
  "he_target_overlay (hop_ends relay_ir (snd (compile_system relay_doc)) ''a'' ''b'') = Some 1"
  "he_linked (hop_ends relay_ir (snd (compile_system relay_doc)) ''a'' ''b'')"
proof -
  obtain x y where "si_nodes (snd (compile_system relay_doc)) = [x, y]" "sys_id x = ''a''" "sys_overlay_addr x = Some 1"
    "sys_id y = ''b''" "sys_overlay_addr y = Some 1"
    using relay_members by (auto simp: map_eq_Cons_conv)
  then show "he_source_on_overlay (hop_ends relay_ir (snd (compile_system relay_doc)) ''a'' ''b'')"
    "he_target_overlay (hop_ends relay_ir (snd (compile_system relay_doc)) ''a'' ''b'') = Some 1"
    by (simp_all add: hop_ends_def)
  show "he_linked (hop_ends relay_ir (snd (compile_system relay_doc)) ''a'' ''b'')"
    using relay_link by (auto simp: hop_ends_def list_ex_iff)
qed

lemma relay_hop:
  "\<exists>h \<in> set (ai_hops (snd (compile_hops_with_targets relay_ir (ai_steps relay_ir) (snd (compile_system relay_doc))))).
     hop_path h = PathOverlay"
proof -
  obtain s t where st: "ai_steps relay_ir = [s, t]" "is_chain s = ''c''" "is_node s = ''a''"
    "map ir_action (is_rules s) = [Forward ''b'' DialOverlay NoPool]"
    "is_chain t = ''c''" "is_node t = ''b''" "is_accept t \<noteq> None" "is_hop_in t \<noteq> None" "map ir_action (is_rules t) = [Egress None]"
    using relay_steps by (auto simp: map_eq_Cons_conv)
  obtain r q where rules: "is_rules s = [r]" "ir_action r = Forward ''b'' DialOverlay NoPool"
    "is_rules t = [q]" "ir_action q = Egress None"
    using st(4,9) by (auto simp: map_eq_Cons_conv)
  have edges: "hop_edges (ai_steps relay_ir) = [(s, \<lparr>fa_target_chain = ''c'', fa_target_node = ''b'',
      fa_dial = ForwardDial DialOverlay, fa_pool = NoPool, fa_reused = False\<rparr>)]"
    using st rules by (auto simp: hop_edges_def List.map_filter_simps)
  obtain a e where "is_accept t = Some a" "is_hop_in t = Some e" using st(7,8) by blast
  then show ?thesis using st relay_ends
    by (simp add: compile_hops_with_targets_def edges [unfolded st(1)] compile_hop_def Let_def dial_overlay_def local_address_def)
qed

theorem compiled_overlay_hops_reach_witness:
  "\<exists>an bn. live_member relay_doc an \<and> live_member relay_doc bn \<and> node_id an = ''a'' \<and> (can_reach an bn \<or> can_reach bn an)"
proof -
  let ?env = "undefined :: outside"
  let ?ir = "snd (compile_hops_with_targets relay_ir (ai_steps relay_ir) (snd (compile_system relay_doc)))"
  have "?ir \<in> set (co_apps (compile_snapshot ?env relay_doc))"
    unfolding compile_snapshot_apps all_steps_def
    by (simp add: relay_ir_def relay_doc_def sample_snapshot_def)
  moreover obtain h where h: "h \<in> set (ai_hops ?ir)" "hop_path h = PathOverlay" using relay_hop by blast
  ultimately have "\<exists>an bn. live_member relay_doc an \<and> live_member relay_doc bn \<and> node_id an = hop_from h \<and> node_id bn = hop_to h \<and>
    \<not> link_disabled relay_doc (hop_from h) (hop_to h) \<and> (can_reach an bn \<or> can_reach bn an)"
    using compiled_overlay_hops_reach [OF relay_ids _ h] by blast
  moreover have "hop_from h = ''a''"
  proof -
    obtain s f where "(s, f) \<in> set (hop_edges (ai_steps relay_ir))" "hop_of_edge relay_ir (ai_steps relay_ir) (snd (compile_system relay_doc)) s f h"
      using hop_sound [OF h(1)] by blast
    moreover have "is_node s' = ''a''" if "(s', f') \<in> set (hop_edges (ai_steps relay_ir))" for s' f'
      using that relay_steps by (auto simp: hop_edges_def map_eq_Cons_conv List.map_filter_def)
    ultimately show ?thesis by (auto simp: hop_of_edge_def key_of_hop_def edge_key_def)
  qed
  ultimately show ?thesis by metis
qed

end
