(* ===== verification/Validate_Guarantees.thy ===== *)
theory Validate_Guarantees
  imports Compile
begin

text \<open>
  What the passes of the validator decide: repeated keys, sockets with two owners, and cycles of
  the forwarding graph. Each lemma says exactly when a pass reports no error.
\<close>

definition no_errors :: "diagnostic list \<Rightarrow> bool" where
  "no_errors ds \<longleftrightarrow> (\<forall>d \<in> set ds. dg_level d \<noteq> Error)"

lemma no_errors_simps [simp]:
  "no_errors []"
  "no_errors (d # ds) \<longleftrightarrow> dg_level d \<noteq> Error \<and> no_errors ds"
  "no_errors (xs @ ys) \<longleftrightarrow> no_errors xs \<and> no_errors ys"
  "no_errors (concat dss) \<longleftrightarrow> (\<forall>ds \<in> set dss. no_errors ds)"
  by (auto simp: no_errors_def)

lemma diagnostic_levels [simp]:
  "dg_level (diagnostic_error code location msg) = Error"
  "dg_level (diagnostic_warn code location msg) = Warn"
  "dg_level (diagnostic_info code location msg) = Info"
  by (simp_all add: diagnostic_error_def diagnostic_warn_def diagnostic_info_def)

section \<open>Repeated keys\<close>

lemma report_repeats_exact:
  "no_errors (report_repeats code location seen vs) \<longleftrightarrow> distinct vs \<and> set vs \<inter> set seen = {}"
  by (induction code location seen vs rule: report_repeats.induct) auto

lemma unique_by_exact: "no_errors (unique_by vs code location) \<longleftrightarrow> distinct vs"
  by (simp add: unique_by_def report_repeats_exact)

lemma report_clashes_exact:
  fixes report :: "'k \<Rightarrow> string \<Rightarrow> string \<Rightarrow> diagnostic"
  assumes "\<And>k previous what. dg_level (report k previous what) = Error"
  shows "no_errors (report_clashes report used cs) \<longleftrightarrow> distinct (map fst cs) \<and> set (map fst cs) \<inter> dom (map_of used) = {}"
  using assms
proof (induction report used cs rule: report_clashes.induct)
  case (2 report used k what cs)
  then have report: "\<And>p. dg_level (report k p what) = Error" by simp
  have dom: "dom (map_of ((k, what) # used)) = insert k (dom (map_of used))" by auto
  have "no_errors (report_clashes report ((k, what) # used) cs) \<longleftrightarrow>
      distinct (map fst cs) \<and> set (map fst cs) \<inter> dom (map_of ((k, what) # used)) = {}"
    using 2 by blast
  then have "no_errors (report_clashes report ((k, what) # used) cs) \<longleftrightarrow>
      distinct (map fst cs) \<and> k \<notin> set (map fst cs) \<and> set (map fst cs) \<inter> dom (map_of used) = {}"
    unfolding dom by auto
  with report show ?case by (cases "map_of used k") auto
qed simp

text \<open>Two claims on one key come from one project; the first claim is the one remembered.\<close>

definition one_owner :: "('k \<times> nat \<times> string) list \<Rightarrow> bool" where
  "one_owner cs \<longleftrightarrow> (\<forall>k i what j what'. (k, i, what) \<in> set cs \<longrightarrow> (k, j, what') \<in> set cs \<longrightarrow> i = j)"

lemma report_cross_exact:
  assumes "\<And>k previous what. dg_level (report k previous what) = Error"
  shows "one_owner used \<Longrightarrow> no_errors (report_cross report used cs) \<longleftrightarrow> one_owner (used @ cs)"
  using assms
proof (induction report used cs rule: report_cross.induct)
  case (2 report used k index what cs)
  show ?case
  proof (cases "map_of used k")
    case None
    then have fresh: "\<And>j w. (k, j, w) \<notin> set used" by (metis weak_map_of_SomeI option.distinct(1))
    then have "one_owner ((k, index, what) # used)" 
      using "2.prems" unfolding one_owner_def by (simp only: list.set insert_iff prod.inject) metis
    then have "no_errors (report_cross report ((k, index, what) # used) cs) \<longleftrightarrow> one_owner (((k, index, what) # used) @ cs)"
      by (rule "2.IH"(1) [OF None _ "2.prems"(2)])
    moreover have "one_owner (((k, index, what) # used) @ cs) \<longleftrightarrow> one_owner (used @ (k, index, what) # cs)"
      unfolding one_owner_def by simp
    ultimately show ?thesis using None by simp
  next
    case (Some p)
    obtain j w where p: "p = (j, w)" by (cases p)
    then have "(k, j, w) \<in> set used" using Some map_of_SomeD by fastforce
    then have "one_owner (used @ (k, index, what) # cs) \<longleftrightarrow> j = index \<and> one_owner (used @ cs)"
      by (auto simp: one_owner_def; blast)
    moreover have "no_errors (report_cross report used cs) \<longleftrightarrow> one_owner (used @ cs)"
      by (rule "2.IH"(2) [OF Some p [symmetric] "2.prems"])
    ultimately show ?thesis using Some p "2.prems"(2) by simp
  qed
qed simp

section \<open>Sockets\<close>

lemma validate_ports_exact:
  "no_errors (validate_ports sys app) \<longleftrightarrow> (\<forall>n \<in> set (ai_nodes app). distinct (map fst (machine_sockets sys app n)))"
  by (auto simp: validate_ports_def report_clashes_exact [of "port_clash _"] port_clash_def)

lemma indexed_nth: "(i, x) \<in> set (indexed xs) \<longleftrightarrow> i < length xs \<and> xs ! i = x"
  by (auto simp: indexed_def set_zip intro!: exI [of _ i])

lemma indexed_concat:
  "set (concat (map (\<lambda>(index, x). f index x) (indexed xs))) = (\<Union>i < length xs. set (f i (xs ! i)))"
proof -
  have "indexed xs = map (\<lambda>i. (i, xs ! i)) [0..<length xs]"
    by (rule nth_equalityI) (simp_all add: indexed_def)
  then show ?thesis by (auto simp: comp_def)
qed

text \<open>The claims of the projects, each under its own index, clash exactly when two projects share a key.\<close>

lemma one_owner_apart:
  assumes "\<And>j x k i what. (k, i, what) \<in> set (claims j x) \<Longrightarrow> i = j"
  shows "one_owner (concat (map (\<lambda>(index, x). claims index x) (indexed xs))) \<longleftrightarrow>
    (\<forall>i < length xs. \<forall>j < length xs. i \<noteq> j \<longrightarrow> fst ` set (claims i (xs ! i)) \<inter> fst ` set (claims j (xs ! j)) = {})"
    (is "?one \<longleftrightarrow> ?apart")
proof
  assume one: ?one
  show ?apart
  proof (intro allI impI, rule ccontr)
    fix i j assume ij: "i < length xs" "j < length xs" "i \<noteq> j"
      and "fst ` set (claims i (xs ! i)) \<inter> fst ` set (claims j (xs ! j)) \<noteq> {}"
    then obtain k i' w j' w' where k: "(k, i', w) \<in> set (claims i (xs ! i))" "(k, j', w') \<in> set (claims j (xs ! j))" by fastforce
    then have "i' = i" "j' = j" using assms by blast+
    moreover have "(k, i', w) \<in> set (concat (map (\<lambda>(index, x). claims index x) (indexed xs)))"
      "(k, j', w') \<in> set (concat (map (\<lambda>(index, x). claims index x) (indexed xs)))"
      unfolding indexed_concat using k ij(1,2) by blast+
    ultimately show False using one ij(3) unfolding one_owner_def by blast
  qed
next
  assume apart: ?apart
  show ?one
    unfolding one_owner_def
  proof (intro allI impI)
    fix k i w j w'
    assume "(k, i, w) \<in> set (concat (map (\<lambda>(index, x). claims index x) (indexed xs)))"
      "(k, j, w') \<in> set (concat (map (\<lambda>(index, x). claims index x) (indexed xs)))"
    then obtain i' j' where at: "i' < length xs" "(k, i, w) \<in> set (claims i' (xs ! i'))"
      "j' < length xs" "(k, j, w') \<in> set (claims j' (xs ! j'))"
      unfolding indexed_concat by blast
    then have "i = i'" "j = j'" using assms by blast+
    moreover have "k \<in> fst ` set (claims i' (xs ! i')) \<inter> fst ` set (claims j' (xs ! j'))" using at by force
    ultimately show "i = j" using apart at(1,3) by blast
  qed
qed

lemma validate_app_set_ports_exact:
  "no_errors (validate_app_set_ports apps) \<longleftrightarrow>
     (\<forall>i < length apps. \<forall>j < length apps. i \<noteq> j \<longrightarrow>
        fst ` set (app_sockets i (apps ! i)) \<inter> fst ` set (app_sockets j (apps ! j)) = {})"
proof -
  have "no_errors (validate_app_set_ports apps) \<longleftrightarrow> one_owner (concat (map (\<lambda>(index, app). app_sockets index app) (indexed apps)))"
    unfolding validate_app_set_ports_def
    by (subst report_cross_exact) (auto simp: port_clash_def one_owner_def)
  also have "\<dots> \<longleftrightarrow> (\<forall>i < length apps. \<forall>j < length apps. i \<noteq> j \<longrightarrow>
      fst ` set (app_sockets i (apps ! i)) \<inter> fst ` set (app_sockets j (apps ! j)) = {})"
    by (rule one_owner_apart) (auto simp: app_sockets_def split: option.splits)
  finally show ?thesis .
qed

section \<open>Labels\<close>

text \<open>The machine and label of every account of a project.\<close>

definition app_labels :: "app_ir \<Rightarrow> (string \<times> string) list" where
  "app_labels app = map (\<lambda>(nid, label, what). (nid, label)) (accept_labels app @ grant_labels app)"

lemma validate_labels_exact:
  "no_errors (validate_labels app) \<longleftrightarrow>
     (\<forall>n \<in> set (ai_nodes app). distinct (filter (\<lambda>e. fst e = an_id n) (app_labels app)))"
proof -
  have labels: "distinct (map fst (map snd (filter (\<lambda>e. fst e = nid) es))) \<longleftrightarrow>
      distinct (filter (\<lambda>e. fst e = nid) (map (\<lambda>(nid, label, what). (nid, label)) es))" for nid and es :: "(string \<times> string \<times> string) list"
  proof -
    have "filter (\<lambda>e. fst e = nid) (map (\<lambda>(nid, label, what). (nid, label)) es) =
        map (Pair nid) (map fst (map snd (filter (\<lambda>e. fst e = nid) es)))"
      by (induction es) auto
    then show ?thesis by (simp add: distinct_map inj_on_def)
  qed
  have "no_errors (report_clashes (label_clash nid) [] cs) \<longleftrightarrow> distinct (map fst cs)" for nid cs
    by (simp add: report_clashes_exact [of "label_clash _"] label_clash_def)
  then show ?thesis
    unfolding validate_labels_def app_labels_def labels [symmetric] by (simp del: map_append filter_append)
qed

lemma validate_app_set_labels_exact:
  "no_errors (validate_app_set_labels apps) \<longleftrightarrow>
     (\<forall>i < length apps. \<forall>j < length apps. i \<noteq> j \<longrightarrow> set (app_labels (apps ! i)) \<inter> set (app_labels (apps ! j)) = {})"
proof -
  let ?claims = "\<lambda>index app. map (\<lambda>(nid, label, what). ((nid, label), index, app_name app index @ '' '' @ what))
    (accept_labels app @ grant_labels app)"
  have keys: "fst ` set (?claims i app) = set (app_labels app)" for i app
    unfolding app_labels_def by (force simp: image_image)
  have "no_errors (validate_app_set_labels apps) \<longleftrightarrow> one_owner (concat (map (\<lambda>(index, app). ?claims index app) (indexed apps)))"
    unfolding validate_app_set_labels_def
    by (subst report_cross_exact) (auto simp: label_clash_def one_owner_def)
  also have "\<dots> \<longleftrightarrow> (\<forall>i < length apps. \<forall>j < length apps. i \<noteq> j \<longrightarrow>
      fst ` set (?claims i (apps ! i)) \<inter> fst ` set (?claims j (apps ! j)) = {})"
    by (rule one_owner_apart) auto
  finally show ?thesis unfolding keys .
qed

section \<open>The forwarding graph\<close>

text \<open>From one rule table to the next, over any list of steps.\<close>

definition forwarding :: "ir_step list \<Rightarrow> ((string \<times> string) \<times> (string \<times> string)) set" where
  "forwarding steps =
     {((is_chain s, is_node s), (fa_target_chain f, fa_target_node f)) | s f. s \<in> set steps \<and> f \<in> set (step_forwards s)}"

definition step_key :: "ir_step \<Rightarrow> string \<times> string" where
  "step_key s = (is_chain s, is_node s)"

lemma find_unique:
  assumes "distinct (map f xs)" and "x \<in> set xs"
  shows "find (\<lambda>y. f y = f x) xs = Some x"
proof -
  have "find (\<lambda>y. f y = f x) xs \<noteq> None" using assms(2) by (auto simp: find_None_iff)
  then obtain y where "find (\<lambda>y. f y = f x) xs = Some y" by blast
  moreover from this have "y = x" using find_SomeD [of "\<lambda>y. f y = f x" xs y] assms by (simp add: inj_on_def distinct_map)
  ultimately show ?thesis by simp
qed

text \<open>Whatever map finds a step by its key gives these edges, when the keys are distinct.\<close>

lemma lookup_edges:
  assumes "\<And>k s. look k = Some s \<longleftrightarrow> s \<in> set steps \<and> step_key s = k"
    and "\<And>k. succ k = (case look k of None \<Rightarrow> [] | Some s \<Rightarrow> map (\<lambda>f. (fa_target_chain f, fa_target_node f)) (step_forwards s))"
  shows "edges_of succ = forwarding steps"
proof -
  have "(x, y) \<in> edges_of succ \<longleftrightarrow> (x, y) \<in> forwarding steps" for x y
  proof
    assume "(x, y) \<in> edges_of succ"
    then obtain s where "look x = Some s" "y \<in> (\<lambda>f. (fa_target_chain f, fa_target_node f)) ` set (step_forwards s)"
      by (cases "look x") (auto simp: edges_of_def assms(2))
    then show "(x, y) \<in> forwarding steps" using assms(1) by (auto simp: forwarding_def step_key_def)
  next
    assume "(x, y) \<in> forwarding steps"
    then obtain s f where sf: "s \<in> set steps" "f \<in> set (step_forwards s)" "step_key s = x"
      "y = (fa_target_chain f, fa_target_node f)" by (auto simp: forwarding_def step_key_def)
    then have "look x = Some s" using assms(1) by blast
    then show "(x, y) \<in> edges_of succ" using sf by (simp add: edges_of_def assms(2))
  qed
  then show ?thesis by auto
qed

lemma find_step:
  assumes "distinct (map step_key steps)"
  shows "find (\<lambda>s. (is_chain s, is_node s) = k) steps = Some s \<longleftrightarrow> s \<in> set steps \<and> step_key s = k"
  using find_unique [OF assms, of s] find_SomeD [of "\<lambda>s. (is_chain s, is_node s) = k" steps s] by (auto simp: step_key_def)

lemma map_of_step:
  assumes "distinct (map step_key steps)"
  shows "map_of (rev (map (\<lambda>s. ((is_chain s, is_node s), s)) steps)) k = Some s \<longleftrightarrow> s \<in> set steps \<and> step_key s = k"
proof -
  let ?m = "rev (map (\<lambda>s. ((is_chain s, is_node s), s)) steps)"
  have "map fst ?m = rev (map step_key steps)" by (simp add: rev_map comp_def step_key_def [abs_def])
  then have "distinct (map fst ?m)" using assms by simp
  then show ?thesis by (auto simp: step_key_def)
qed

lemma listener_succ_edges:
  assumes "distinct (map step_key steps)"
  shows "edges_of (listener_succ steps) = forwarding steps"
  by (rule lookup_edges [OF find_step [OF assms]]) (simp add: listener_succ_def)

lemma fleet_succ_edges:
  assumes "distinct (map step_key steps)"
  shows "edges_of (fleet_succ steps) = forwarding steps"
  by (rule lookup_edges [OF map_of_step [OF assms]]) (simp add: fleet_succ_def)

lemma succ_outside:
  assumes "x \<notin> step_key ` set steps"
  shows "listener_succ steps x = []" and "fleet_succ steps x = []"
proof -
  have "find (\<lambda>s. (is_chain s, is_node s) = x) steps = None"
    using assms by (auto simp: find_None_iff step_key_def)
  then show "listener_succ steps x = []" by (simp add: listener_succ_def)
  have "map_of (rev (map (\<lambda>s. ((is_chain s, is_node s), s)) steps)) x = None"
    using assms by (auto simp: map_of_eq_None_iff step_key_def)
  then show "fleet_succ steps x = []" by (simp add: fleet_succ_def)
qed

lemma keys_card: "card (step_key ` set steps) < Suc (length steps)"
  by (metis card_image_le card_length le_imp_less_Suc le_trans List.finite_set)

lemma reach_set_edges: "y \<in> reach_set succ {x} \<longleftrightarrow> (x, y) \<in> (edges_of succ)\<^sup>*"
  by (simp add: reach_set_def edges_of_def)

lemma listener_reaches_iff:
  "listener_reaches steps x wanted \<longleftrightarrow> (x, wanted) \<in> (edges_of (listener_succ steps))\<^sup>*"
proof -
  obtain seen where "reach_walk (Suc (length steps)) (listener_succ steps) wanted [x] [] =
      Some (wanted \<in> reach_set (listener_succ steps) (set [x]), seen)"
    using reach_walk_exact [of "step_key ` set steps" "listener_succ steps" "Suc (length steps)"] succ_outside(1) keys_card by blast
  then show ?thesis by (simp add: listener_reaches_def reach_set_edges)
qed

lemma global_listener_reaches_iff:
  "global_listener_reaches steps x wanted \<longleftrightarrow> (x, wanted) \<in> (edges_of (fleet_succ steps))\<^sup>*"
proof -
  obtain seen where "reach_walk (Suc (length steps)) (fleet_succ steps) wanted [x] [] =
      Some (wanted \<in> reach_set (fleet_succ steps) (set [x]), seen)"
    using reach_walk_exact [of "step_key ` set steps" "fleet_succ steps" "Suc (length steps)"] succ_outside(2) keys_card by blast
  then show ?thesis by (simp add: global_listener_reaches_def reach_set_edges)
qed

lemma detect_cycles_iff:
  "no_errors (detect_cycles chain roots steps) \<longleftrightarrow>
     (\<forall>n \<in> reach_set (chain_succ steps) (set roots). (n, n) \<notin> (edges_of (chain_succ steps))\<^sup>+)"
proof -
  have out: "\<And>n. n \<notin> is_node ` set steps \<Longrightarrow> chain_succ steps n = []"
    by (auto simp: chain_succ_def dest: find_SomeD split: option.splits)
  have "card (is_node ` set steps) < Suc (length steps)"
    by (metis card_image_le card_length le_imp_less_Suc le_trans List.finite_set)
  then obtain visited found where "cycle_walk (Suc (length steps)) (chain_succ steps) [] roots ([], []) = Some (visited, found)"
    "found = [] \<longleftrightarrow> (\<forall>n \<in> reach_set (chain_succ steps) (set roots). (n, n) \<notin> (edges_of (chain_succ steps))\<^sup>+)"
    using cycle_walk_exact [of "is_node ` set steps" "chain_succ steps" "Suc (length steps)" roots] out by blast
  then show ?thesis by (cases found) (auto simp: detect_cycles_def)
qed

text \<open>A machine whose only rule forwards to itself.\<close>

definition loop_step :: ir_step where
  "loop_step =
     \<lparr>is_id = ''s'', is_app_id = None, is_chain = ''c'', is_node = ''a'', is_accept = None, is_hop_in = None,
      is_rules = [\<lparr>ir_match = MatchAny, ir_action = Forward ''a'' DialOverlay NoPool\<rparr>]\<rparr>"

text \<open>C15: the search for cycles reports a cycle exactly when one exists: some machine that the head or a reused listener of the chain leads to lies on a cycle of the chain's forwards. Its recursion is never cut short by the bound, one more than the number of steps.\<close>

theorem chain_cycles_exact:
  "no_errors (detect_cycles chain roots steps) \<longleftrightarrow>
     (\<forall>n \<in> reach_set (chain_succ steps) (set roots). (n, n) \<notin> (edges_of (chain_succ steps))\<^sup>+)"
  by (rule detect_cycles_iff)

theorem chain_cycles_exact_witness:
  "\<not> no_errors (detect_cycles ''c'' [''a''] [loop_step]) \<and> no_errors (detect_cycles ''c'' [''b''] [loop_step])"
proof -
  have "chain_succ [loop_step] ''a'' = [''a'']"
    by (simp add: chain_succ_def loop_step_def step_targets_def forward_to_def List.map_filter_simps)
  then have "(''a'', ''a'') \<in> (edges_of (chain_succ [loop_step]))\<^sup>+" by (auto simp: edges_of_def)
  then have "\<not> no_errors (detect_cycles ''c'' [''a''] [loop_step])"
    using chain_cycles_exact [of "''c''" "[''a'']" "[loop_step]"] by auto
  moreover have "no_errors (detect_cycles ''c'' [''b''] [loop_step])"
    by (simp add: detect_cycles_def chain_succ_def loop_step_def)
  ultimately show ?thesis by simp
qed

end
