(* ===== verification/Published.thy ===== *)
theory Published
  imports Validate_Guarantees "HOL-Library.Multiset"
begin

text \<open>
  What a model that may be published promises: every stage of the pipeline passed without an
  error, so the sockets of a machine have one owner each, every forwarding rule has its hop, and
  traffic that enters anywhere leaves again after finitely many hops.
\<close>

section \<open>The stages\<close>

definition routed :: "model_snapshot \<Rightarrow> app_view \<Rightarrow> app_ir" where
  "routed doc app = snd (compile_app_with_listener_roots doc app (Some (reachable_listener_roots_across_apps doc)))"

definition hopped :: "model_snapshot \<Rightarrow> app_view \<Rightarrow> diagnostic list \<times> app_ir" where
  "hopped doc app = compile_hops_with_targets (routed doc app) (all_steps doc) (snd (compile_system doc))"

lemma published_apps: "co_apps (compile_snapshot env doc) = map (\<lambda>app. snd (hopped doc app)) (sn_apps doc)"
  by (simp add: compile_snapshot_apps hopped_def routed_def)

lemma all_steps_routed: "all_steps doc = concat (map (\<lambda>app. ai_steps (routed doc app)) (sn_apps doc))"
  by (simp add: all_steps_def routed_def)

lemma hopped_steps: "ai_steps (snd (hopped doc app)) = ai_steps (routed doc app)"
  by (simp add: hopped_def hop_stage_fields)

lemma published_steps: "concat (map ai_steps (co_apps (compile_snapshot env doc))) = all_steps doc"
  by (simp add: published_apps all_steps_routed hopped_steps comp_def)

lemma publishable_iff:
  "can_publish (compile_snapshot env doc) \<longleftrightarrow>
     no_errors (validate_model_snapshot (os_selector_json env) doc) \<and> no_errors (fst (compile_system doc)) \<and>
     no_errors (validate_system (os_net_contains env) (snd (compile_system doc))) \<and>
     (\<forall>app \<in> set (sn_apps doc).
        no_errors (fst (compile_app_with_listener_roots doc app (Some (reachable_listener_roots_across_apps doc)))) \<and>
        no_errors (fst (hopped doc app)) \<and>
        no_errors (validate_app env (snd (compile_system doc)) (snd (hopped doc app)))) \<and>
     no_errors (validate_app_set env (map (\<lambda>app. snd (hopped doc app)) (sn_apps doc)))"
proof -
  have "can_publish (compile_snapshot env doc) \<longleftrightarrow> no_errors (co_diagnostics (compile_snapshot env doc))"
    by (simp add: can_publish_def compile_snapshot_def Let_def finish_compile_def summarize_can_publish no_errors_def)
  then show ?thesis
    by (auto simp: compile_snapshot_def Let_def finish_compile_def compile_prelude_of_def split_beta comp_def
        compile_routing_app_def finish_app_compile_def hopped_def all_steps_def routed_def)
qed

lemma published_stages:
  assumes "can_publish (compile_snapshot env doc)"
  shows "no_errors (validate_model_snapshot (os_selector_json env) doc)"
    and "app \<in> set (sn_apps doc) \<Longrightarrow> no_errors (fst (hopped doc app))"
    and "app \<in> set (sn_apps doc) \<Longrightarrow> no_errors (validate_app env (snd (compile_system doc)) (snd (hopped doc app)))"
    and "no_errors (validate_app_set env (map (\<lambda>app. snd (hopped doc app)) (sn_apps doc)))"
  using assms unfolding publishable_iff by blast+

section \<open>Chains and steps of a published fleet\<close>

text \<open>Chain identities are unique over all projects, so the steps are unique by their keys.\<close>

lemma published_chain_ids:
  assumes "can_publish (compile_snapshot env doc)"
  shows "distinct (concat (map (\<lambda>a. map chain_id (app_chains a)) (sn_apps doc)))"
  using published_stages(1) [OF assms] by (simp add: validate_model_snapshot_def unique_by_exact)

definition routed_input :: "model_snapshot \<Rightarrow> app_view \<Rightarrow> chain \<Rightarrow> routing_chain_input" where
  "routed_input doc app c = chain_input doc app (Some (reachable_listener_roots_across_apps doc)) c"

lemma routed_steps:
  "ai_steps (routed doc app) = sort_key is_id (concat (map (\<lambda>c. rcc_steps (compile_chain (routed_input doc app c)))
     (filter (\<lambda>c. chain_id c \<notin> set (dead_chains doc app)) (app_chains app))))"
  "ai_chains (routed doc app) = map (\<lambda>c. rcc_chain (compile_chain (routed_input doc app c)))
     (filter (\<lambda>c. chain_id c \<notin> set (dead_chains doc app)) (app_chains app))"
  by (simp_all add: routed_def compile_app_with_listener_roots_def compile_app_with_listener_roots_and_def
      Let_def split_beta chain_roots_def sort_ir_def collect_tenants_def dead_chains_def own_listeners_def
      chain_input_def routed_input_def comp_def)

lemma routed_step_chain:
  assumes "s \<in> set (rcc_steps (compile_chain (routed_input doc app c)))"
  shows "is_chain s = chain_id c"
  using compiled_step_shape [OF assms] by (auto simp: routed_input_def chain_input_def)

lemma compiled_chain_id: "ic_id (rcc_chain (compile_chain input)) = chain_id (rci_chain input)"
  "ic_root (rcc_chain (compile_chain input)) = rci_root input"
  by (simp_all add: compile_chain_def Let_def split_beta)

lemma compiled_nodes_distinct: "distinct (map is_node (rcc_steps (compile_chain input)))"
proof (cases "rci_root input")
  case None
  then show ?thesis by (simp add: compile_chain_no_root)
next
  case (Some root)
  then show ?thesis using compile_chain_steps_walk(1) by (simp add: compile_chain_def split_beta Let_def)
qed

lemma distinct_concat_keys:
  assumes "distinct (map f xs)" and "\<And>x. x \<in> set xs \<Longrightarrow> distinct (map k (g x))"
    and "\<And>x y. x \<in> set xs \<Longrightarrow> y \<in> set (g x) \<Longrightarrow> fst (k y) = f x"
  shows "distinct (map k (concat (map g xs)))"
  using assms
proof (induction xs)
  case (Cons x xs)
  have "k y \<noteq> k z" if "y \<in> set (g x)" "x' \<in> set xs" "z \<in> set (g x')" for y z x'
  proof
    assume "k y = k z"
    then have "f x = f x'" using Cons.prems(3) [of x y] Cons.prems(3) [of x' z] that by simp
    with Cons.prems(1) that(2) show False by (metis distinct.simps(2) image_eqI list.set_map list.simps(9))
  qed
  moreover have "distinct (map k (concat (map g xs)))" using Cons.IH Cons.prems by simp
  ultimately show ?case using Cons.prems(2) by (simp add: map_concat comp_def) blast
qed simp

definition fleet_chains :: "model_snapshot \<Rightarrow> (app_view \<times> chain) list" where
  "fleet_chains doc = concat (map (\<lambda>app. map (Pair app)
     (filter (\<lambda>c. chain_id c \<notin> set (dead_chains doc app)) (app_chains app))) (sn_apps doc))"

lemma distinct_map_filter_concat:
  "distinct (concat (map (\<lambda>a. map f (g a)) as)) \<Longrightarrow>
     distinct (concat (map (\<lambda>a. map f (filter (P a) (g a))) as))"
proof (induction as)
  case (Cons a as)
  have "set (concat (map (\<lambda>a. map f (filter (P a) (g a))) as)) \<subseteq> set (concat (map (\<lambda>a. map f (g a)) as))" by auto
  moreover have "distinct (map f (filter (P a) (g a)))" using Cons.prems by (simp add: distinct_map_filter)
  ultimately show ?case using Cons by (auto 4 3)
qed simp

lemma fleet_chains_distinct:
  assumes "can_publish (compile_snapshot env doc)"
  shows "distinct (map (\<lambda>e. chain_id (snd e)) (fleet_chains doc))"
  using distinct_map_filter_concat [OF published_chain_ids [OF assms], of "\<lambda>app c. chain_id c \<notin> set (dead_chains doc app)"]
  by (simp add: fleet_chains_def map_concat comp_def)

lemma all_steps_mset:
  "mset (all_steps doc) = mset (concat (map (\<lambda>e. rcc_steps (compile_chain (routed_input doc (fst e) (snd e)))) (fleet_chains doc)))"
proof -
  have "mset (concat (map (\<lambda>app. ai_steps (routed doc app)) as)) =
      mset (concat (map (\<lambda>e. rcc_steps (compile_chain (routed_input doc (fst e) (snd e))))
        (concat (map (\<lambda>app. map (Pair app) (filter (\<lambda>c. chain_id c \<notin> set (dead_chains doc app)) (app_chains app))) as))))" for as
    by (induction as) (simp_all add: routed_steps comp_def)
  then show ?thesis by (simp add: all_steps_routed fleet_chains_def)
qed

lemma all_steps_keys:
  assumes "can_publish (compile_snapshot env doc)"
  shows "distinct (map step_key (all_steps doc))"
proof -
  have "distinct (map step_key (concat (map (\<lambda>e. rcc_steps (compile_chain (routed_input doc (fst e) (snd e)))) (fleet_chains doc))))"
  proof (rule distinct_concat_keys [OF fleet_chains_distinct [OF assms]])
    fix e
    have "map step_key (rcc_steps (compile_chain (routed_input doc (fst e) (snd e)))) =
        map (Pair (chain_id (snd e))) (map is_node (rcc_steps (compile_chain (routed_input doc (fst e) (snd e)))))"
      using routed_step_chain by (simp add: step_key_def)
    then show "distinct (map step_key (rcc_steps (compile_chain (routed_input doc (fst e) (snd e)))))"
      using compiled_nodes_distinct by (simp add: distinct_map inj_on_def)
    show "fst (step_key y) = chain_id (snd e)" if "y \<in> set (rcc_steps (compile_chain (routed_input doc (fst e) (snd e))))" for y
      using routed_step_chain [OF that] by (simp add: step_key_def)
  qed
  moreover have "mset (map step_key (all_steps doc)) =
      mset (map step_key (concat (map (\<lambda>e. rcc_steps (compile_chain (routed_input doc (fst e) (snd e)))) (fleet_chains doc))))"
    using all_steps_mset [of doc] by (simp only: mset_map)
  ultimately show ?thesis by (metis mset_eq_imp_distinct_iff)
qed


section \<open>No way round\<close>

lemma trancl_split:
  assumes "(x, y) \<in> R\<^sup>+" and "R = A \<union> B"
  shows "(x, y) \<in> A\<^sup>+ \<or> (\<exists>(s, l) \<in> B. (x, s) \<in> R\<^sup>* \<and> (l, y) \<in> R\<^sup>*)"
  using assms(1)
proof (induction rule: trancl_induct)
  case (base y)
  then show ?case using assms(2) by blast
next
  case (step y z)
  show ?case
  proof (cases "(y, z) \<in> B")
    case True
    then show ?thesis using step.hyps(1) by (blast dest: trancl_into_rtrancl)
  next
    case False
    then have a: "(y, z) \<in> A" using step.hyps(2) assms(2) by blast
    from step.IH show ?thesis
    proof
      assume "(x, y) \<in> A\<^sup>+"
      then show ?thesis using a by (meson trancl_into_trancl)
    next
      assume "\<exists>(s, l) \<in> B. (x, s) \<in> R\<^sup>* \<and> (l, y) \<in> R\<^sup>*"
      then show ?thesis using step.hyps(2) by (blast intro: rtrancl_into_rtrancl)
    qed
  qed
qed

text \<open>A cycle that uses an edge of \<open>B\<close> returns from the edge's end to its start.\<close>

lemma cycle_split:
  assumes "(x, x) \<in> R\<^sup>+" and "R = A \<union> B" and "\<And>s l. (s, l) \<in> B \<Longrightarrow> (l, s) \<notin> R\<^sup>*"
  shows "(x, x) \<in> A\<^sup>+"
  using trancl_split [OF assms(1,2)] assms(3) by (blast intro: rtrancl_trans)

text \<open>The edges of the reused listeners, and those of the plain forwards.\<close>

definition listener_part :: "ir_step list \<Rightarrow> ((string \<times> string) \<times> (string \<times> string)) set" where
  "listener_part steps = {(step_key s, l) | s l. (s, l) \<in> set (listener_edges steps)}"

definition forward_part :: "ir_step list \<Rightarrow> ((string \<times> string) \<times> (string \<times> string)) set" where
  "forward_part steps = {(step_key s, (is_chain s, n)) | s n. s \<in> set steps \<and> n \<in> set (step_targets s)}"

lemma map_filter_set: "set (List.map_filter f xs) = {y. \<exists>x \<in> set xs. f x = Some y}"
  by (force simp: List.map_filter_def)

lemma forwarding_iff:
  "(x, y) \<in> forwarding steps \<longleftrightarrow>
     (\<exists>s \<in> set steps. step_key s = x \<and> (\<exists>r \<in> set (is_rules s).
        \<exists>f. forward_ref (ir_action r) (is_chain s) = Some f \<and> (fa_target_chain f, fa_target_node f) = y))"
  unfolding forwarding_def step_forwards_def map_filter_set step_key_def by blast

lemma forward_part_iff:
  "(x, y) \<in> forward_part steps \<longleftrightarrow>
     (\<exists>s \<in> set steps. step_key s = x \<and> (\<exists>r \<in> set (is_rules s). \<exists>n. forward_to (ir_action r) = Some n \<and> y = (is_chain s, n)))"
  unfolding forward_part_def step_targets_def map_filter_set by blast

lemma listener_edge_iff:
  "(s, l) \<in> set (listener_edges steps) \<longleftrightarrow> s \<in> set steps \<and> (\<exists>r \<in> set (is_rules s). reused_listener (ir_action r) = Some l)"
  by (cases l) (auto simp: listener_edges_def map_filter_set)

lemma listener_part_iff:
  "(x, y) \<in> listener_part steps \<longleftrightarrow>
     (\<exists>s \<in> set steps. step_key s = x \<and> (\<exists>r \<in> set (is_rules s). reused_listener (ir_action r) = Some y))"
  unfolding listener_part_def listener_edge_iff by blast

lemma forward_ref_cases:
  "(\<exists>f. forward_ref a c = Some f \<and> (fa_target_chain f, fa_target_node f) = y) \<longleftrightarrow>
     (\<exists>n. forward_to a = Some n \<and> y = (c, n)) \<or> reused_listener a = Some y"
  by (cases a) (auto simp: forward_to_def)

lemma forwarding_parts: "forwarding steps = forward_part steps \<union> listener_part steps"
proof -
  have "(x, y) \<in> forwarding steps \<longleftrightarrow> (x, y) \<in> forward_part steps \<union> listener_part steps" for x y
    unfolding Un_iff forwarding_iff forward_part_iff listener_part_iff forward_ref_cases by blast
  then show ?thesis by auto
qed

text \<open>One project: no reused listener leads back to the rule that refers to it.\<close>

lemma report_listener_cycles_exact:
  "no_errors (report_listener_cycles steps reported es) \<Longrightarrow>
     \<forall>(s, l) \<in> set es. listener_reaches steps l (is_chain s, is_node s) \<longrightarrow> listener_location s l \<in> set reported"
proof (induction steps reported es rule: report_listener_cycles.induct)
  case (2 steps reported s l es)
  then show ?case by (auto split: if_splits)
qed simp

lemma listener_part_acyclic:
  assumes "no_errors (validate_listener_reference_cycles app)" and "distinct (map step_key (ai_steps app))"
    and "(x, l) \<in> listener_part (ai_steps app)"
  shows "(l, x) \<notin> (forwarding (ai_steps app))\<^sup>*"
proof -
  have "\<forall>(s, l) \<in> set (listener_edges (ai_steps app)). \<not> listener_reaches (ai_steps app) l (is_chain s, is_node s)"
    using report_listener_cycles_exact [OF assms(1) [unfolded validate_listener_reference_cycles_def]] by auto
  then show ?thesis
    using assms(3) by (auto simp: listener_part_def step_key_def listener_reaches_iff listener_succ_edges [OF assms(2)])
qed

text \<open>One chain: the search for cycles covers every compiled step.\<close>

lemma chain_succ_step:
  assumes "distinct (map is_node steps)" and "s \<in> set steps"
  shows "chain_succ steps (is_node s) = step_targets s"
  using find_unique [OF assms] by (simp add: chain_succ_def)

lemma chain_reach:
  fixes input
  defines "compiled \<equiv> rcc_steps (compile_chain input)"
  assumes "rci_root input = Some root" and "distinct (map is_node steps)" and "set steps = set compiled"
    and "s \<in> set compiled"
  shows "is_node s \<in> reach_set (chain_succ steps) (insert root (set (rci_reused_listener_nodes input)))"
proof -
  let ?R = "insert root (set (rci_reused_listener_nodes input))"
  have made: "compiled = snd (compile_chain_steps input)" by (simp add: compiled_def compile_chain_def split_beta Let_def)
  have walk: "is_node ` set compiled = chain_walk input root"
    unfolding made by (rule compile_chain_steps_walk(2) [OF assms(2)])
  have "n \<in> reach_set (chain_succ steps) ?R" if "n \<in> reach_set (chain_edges input) ?R" for n
    using that
  proof (induction rule: reach_set_induct)
    case (step x y)
    then have "x \<in> chain_machines input" using chain_edges_outside by fastforce
    then have "x \<in> is_node ` set compiled" using step.hyps(1) walk by (simp add: chain_walk_def)
    then obtain t where t: "t \<in> set compiled" "is_node t = x" by blast
    obtain m where m: "find (\<lambda>m. node_id m = is_node t) (rci_nodes input) = Some m"
      using \<open>x \<in> chain_machines input\<close> find_machine t(2) by auto
    obtain primary b where "snd (compile_member input root primary (is_node t)) = Some (t, b)"
      using compile_chain_steps_walk(3) [OF assms(2)] t(1) unfolding made by blast
    then have "step_targets t = chain_edges input x"
      using compile_member_Some [OF m, of root primary] t(2) \<open>x \<in> chain_machines input\<close> by (auto simp: chain_edges_def)
    then have "y \<in> set (chain_succ steps x)"
      using chain_succ_step [OF assms(3), of t] t assms(4) step.hyps(2) by simp
    with step.IH show ?case by (rule reach_set_step)
  qed auto
  moreover have "is_node s \<in> chain_walk input root" using walk assms(5) by blast
  ultimately show ?thesis by (simp add: chain_walk_def)
qed

lemma forward_part_chain:
  assumes "distinct (map step_key (ai_steps app))" and "(x, y) \<in> (forward_part (ai_steps app))\<^sup>+"
  shows "fst y = fst x \<and> (snd x, snd y) \<in> (edges_of (chain_succ (steps_of_chain app (fst x))))\<^sup>+"
  using assms(2)
proof -
  have nodes: "distinct (map is_node (steps_of_chain app c))" for c
  proof -
    have "distinct (map step_key (steps_of_chain app c))"
      using assms(1) by (simp add: steps_of_chain_def distinct_map_filter)
    moreover have "map step_key (steps_of_chain app c) = map (Pair c) (map is_node (steps_of_chain app c))"
      by (simp add: steps_of_chain_def step_key_def)
    ultimately show ?thesis by (simp add: distinct_map inj_on_def)
  qed
  have one: "fst b = fst a \<and> (snd a, snd b) \<in> edges_of (chain_succ (steps_of_chain app (fst a)))"
    if "(a, b) \<in> forward_part (ai_steps app)" for a b
  proof -
    from that obtain s n where s: "s \<in> set (ai_steps app)" "a = step_key s" "b = (is_chain s, n)" "n \<in> set (step_targets s)"
      unfolding forward_part_def by blast
    then have "s \<in> set (steps_of_chain app (fst a))" by (simp add: steps_of_chain_def step_key_def)
    from chain_succ_step [OF nodes this] s show ?thesis by (simp add: edges_of_def step_key_def)
  qed
  from assms(2) show ?thesis
  proof (induction rule: trancl_induct)
    case (base y)
    then show ?case using one by blast
  next
    case (step y z)
    then show ?case using one [OF step.hyps(2)] by (metis trancl_into_trancl)
  qed
qed

text \<open>What a step of a published project belongs to.\<close>

lemma routed_step_of:
  assumes "s \<in> set (ai_steps (routed doc app))"
  obtains c where "c \<in> set (app_chains app)" "chain_id c \<notin> set (dead_chains doc app)"
    "s \<in> set (rcc_steps (compile_chain (routed_input doc app c)))" "is_chain s = chain_id c"
  using assms routed_step_chain by (auto simp: routed_steps)

lemma routed_keys:
  assumes "can_publish (compile_snapshot env doc)" and "app \<in> set (sn_apps doc)"
  shows "distinct (map step_key (ai_steps (snd (hopped doc app))))"
  using all_steps_keys [OF assms(1)] split_list [OF assms(2)] by (auto simp: all_steps_routed hopped_steps)

lemma chain_steps_nodes:
  assumes "distinct (map step_key (ai_steps app))"
  shows "distinct (map is_node (steps_of_chain app c))"
proof -
  have "distinct (map step_key (steps_of_chain app c))"
    using assms by (simp add: steps_of_chain_def distinct_map_filter)
  moreover have "map step_key (steps_of_chain app c) = map (Pair c) (map is_node (steps_of_chain app c))"
    by (simp add: steps_of_chain_def step_key_def)
  ultimately show ?thesis by (simp add: distinct_map inj_on_def)
qed

lemma chain_steps_compiled:
  assumes "can_publish (compile_snapshot env doc)" and "app \<in> set (sn_apps doc)"
    and "c \<in> set (app_chains app)" and "chain_id c \<notin> set (dead_chains doc app)"
  shows "set (steps_of_chain (snd (hopped doc app)) (chain_id c)) = set (rcc_steps (compile_chain (routed_input doc app c)))"
proof -
  have "distinct (map chain_id (app_chains app))"
    using published_chain_ids [OF assms(1)] split_list [OF assms(2)] by auto
  then have one: "c' = c" if "c' \<in> set (app_chains app)" "chain_id c' = chain_id c" for c'
    using that assms(3) by (simp add: distinct_map inj_on_def)
  have "t \<in> set (steps_of_chain (snd (hopped doc app)) (chain_id c)) \<longleftrightarrow>
      (\<exists>c' \<in> set (app_chains app). chain_id c' \<notin> set (dead_chains doc app) \<and>
        t \<in> set (rcc_steps (compile_chain (routed_input doc app c')))) \<and> is_chain t = chain_id c" for t
    by (auto simp: steps_of_chain_def hopped_steps routed_steps)
  then have "t \<in> set (steps_of_chain (snd (hopped doc app)) (chain_id c)) \<longleftrightarrow>
      t \<in> set (rcc_steps (compile_chain (routed_input doc app c)))" for t
    using assms(3,4) one routed_step_chain by metis
  then show ?thesis by blast
qed

lemma listener_roots_searched:
  assumes "c \<in> set (app_chains app)"
  shows "set (rci_reused_listener_nodes (routed_input doc app c)) \<subseteq>
    snd ` {l \<in> set (topology_roots (snd (hopped doc app))). fst l = chain_id c}"
proof
  fix m assume "m \<in> set (rci_reused_listener_nodes (routed_input doc app c))"
  then have "(chain_id c, m) \<in> set (reachable_listener_roots_across_apps doc)"
    by (simp add: routed_input_def chain_input_def own_listeners_def)
  then have "(chain_id c, m) \<in> set (ai_listener_roots (snd (hopped doc app)))"
    using assms by (auto simp: hopped_def compile_hops_with_targets_def split_beta routed_def compile_app_parts own_listeners_def)
  then show "m \<in> snd ` {l \<in> set (topology_roots (snd (hopped doc app))). fst l = chain_id c}"
    by (force simp: topology_roots_def)
qed

lemma forward_part_acyclic:
  assumes "can_publish (compile_snapshot env doc)" and "app \<in> set (sn_apps doc)"
  shows "(x, x) \<notin> (forward_part (ai_steps (routed doc app)))\<^sup>+"
proof
  let ?ir = "snd (hopped doc app)"
  assume cycle: "(x, x) \<in> (forward_part (ai_steps (routed doc app)))\<^sup>+"
  note keys = routed_keys [OF assms]
  have loop: "(snd x, snd x) \<in> (edges_of (chain_succ (steps_of_chain ?ir (fst x))))\<^sup>+"
    using forward_part_chain [OF keys, of x x] cycle by (simp add: hopped_steps)
  obtain y where "(x, y) \<in> forward_part (ai_steps (routed doc app))" using tranclD [OF cycle] by auto
  then obtain s where s: "s \<in> set (ai_steps (routed doc app))" "step_key s = x" unfolding forward_part_iff by blast
  obtain c where c: "c \<in> set (app_chains app)" "chain_id c \<notin> set (dead_chains doc app)"
    "s \<in> set (rcc_steps (compile_chain (routed_input doc app c)))" "is_chain s = chain_id c"
    using routed_step_of [OF s(1)] by blast
  let ?input = "routed_input doc app c" and ?steps = "steps_of_chain ?ir (chain_id c)"
  let ?roots = "bset (the (rci_root ?input) # map snd (filter (\<lambda>l. fst l = chain_id c) (topology_roots ?ir)))"
  have x: "x = (chain_id c, is_node s)" using s(2) c(4) by (auto simp: step_key_def)
  obtain root where root: "rci_root ?input = Some root" using c(3) compile_chain_no_root [of ?input] by fastforce
  have "rci_chain ?input = c" by (simp add: routed_input_def chain_input_def)
  then have ids: "ic_id (rcc_chain (compile_chain ?input)) = chain_id c" "ic_root (rcc_chain (compile_chain ?input)) = Some root"
    by (simp_all add: compiled_chain_id root)
  have "rcc_chain (compile_chain ?input) \<in> set (ai_chains ?ir)"
    using c(1,2) by (simp add: hopped_def hop_stage_fields routed_steps)
  moreover have "no_errors (validate_topology ?ir)"
    using published_stages(3) [OF assms] by (simp add: validate_app_def)
  ultimately have "no_errors (validate_chain_topology ?ir (topology_roots ?ir) (rcc_chain (compile_chain ?input)))"
    by (simp add: validate_topology_def)
  then have none: "no_errors (detect_cycles (chain_id c) ?roots ?steps)"
    by (simp add: validate_chain_topology_def ids Let_def root)
  have "is_node s \<in> reach_set (chain_succ ?steps) (insert root (set (rci_reused_listener_nodes ?input)))"
    by (rule chain_reach [OF root chain_steps_nodes [OF keys] chain_steps_compiled [OF assms c(1,2)] c(3)])
  moreover have "insert root (set (rci_reused_listener_nodes ?input)) \<subseteq> set ?roots"
    using listener_roots_searched [OF c(1), of doc] root by auto
  ultimately have "is_node s \<in> reach_set (chain_succ ?steps) (set ?roots)" using reach_set_mono by blast
  with none loop x show False by (simp add: detect_cycles_iff)
qed

section \<open>Between projects\<close>

definition owns :: "model_snapshot \<Rightarrow> nat \<Rightarrow> string \<Rightarrow> bool" where
  "owns doc i chain \<longleftrightarrow> i < length (sn_apps doc) \<and> chain \<in> ic_id ` set (ai_chains (routed doc (sn_apps doc ! i)))"

lemma distinct_concat_nth:
  assumes "distinct (concat xss)" and "i < length xss" and "j < length xss" and "x \<in> set (xss ! i)" and "x \<in> set (xss ! j)"
  shows "i = j"
  using assms
proof (induction xss arbitrary: i j)
  case (Cons xs xss)
  have apart: "y \<notin> set xs" if "k < length xss" "y \<in> set (xss ! k)" for k y
    using that Cons.prems(1) nth_mem by fastforce
  show ?case using Cons apart by (cases i; cases j) auto
qed simp

lemma owns_one:
  assumes "can_publish (compile_snapshot env doc)" and "owns doc i chain" and "owns doc j chain"
  shows "i = j"
proof -
  let ?ids = "map (\<lambda>a. map chain_id (app_chains a)) (sn_apps doc)"
  have "chain \<in> set (?ids ! k) \<and> k < length ?ids" if "owns doc k chain" for k
    using that by (auto simp: owns_def routed_steps compiled_chain_id routed_input_def chain_input_def)
  then show ?thesis using assms(2,3) distinct_concat_nth [OF published_chain_ids [OF assms(1)]] by blast
qed

lemma step_owned:
  assumes "i < length (sn_apps doc)" and "s \<in> set (ai_steps (routed doc (sn_apps doc ! i)))"
  shows "owns doc i (is_chain s)"
proof -
  let ?app = "sn_apps doc ! i"
  obtain c where c: "c \<in> set (app_chains ?app)" "chain_id c \<notin> set (dead_chains doc ?app)" "is_chain s = chain_id c"
    using routed_step_of [OF assms(2)] by blast
  have "rcc_chain (compile_chain (routed_input doc ?app c)) \<in> set (ai_chains (routed doc ?app))"
    using c by (simp add: routed_steps)
  moreover have "ic_id (rcc_chain (compile_chain (routed_input doc ?app c))) = is_chain s"
    using c(3) by (simp add: compiled_chain_id routed_input_def chain_input_def)
  ultimately show ?thesis using assms(1) unfolding owns_def by (metis image_eqI)
qed

lemma all_steps_home:
  assumes "s \<in> set (all_steps doc)"
  obtains k where "k < length (sn_apps doc)" "s \<in> set (ai_steps (routed doc (sn_apps doc ! k)))" "owns doc k (is_chain s)"
proof -
  obtain app where "app \<in> set (sn_apps doc)" "s \<in> set (ai_steps (routed doc app))"
    using assms by (auto simp: all_steps_routed)
  then obtain k where "k < length (sn_apps doc)" "s \<in> set (ai_steps (routed doc (sn_apps doc ! k)))"
    by (metis in_set_conv_nth)
  with step_owned [OF this] that show thesis by blast
qed

definition fleet :: "model_snapshot \<Rightarrow> app_ir list" where
  "fleet doc = map (\<lambda>app. snd (hopped doc app)) (sn_apps doc)"

lemma fleet_nth: "i < length (sn_apps doc) \<Longrightarrow> fleet doc ! i = snd (hopped doc (sn_apps doc ! i))"
  "length (fleet doc) = length (sn_apps doc)"
  by (simp_all add: fleet_def)

lemma chain_owner_found:
  assumes "chain_owner apps chain = Some (i, ch)"
  shows "i < length apps \<and> ch \<in> set (ai_chains (apps ! i)) \<and> ic_id ch = chain"
proof -
  let ?entries = "concat (map (\<lambda>(index, app). map (\<lambda>c. (ic_id c, index, c)) (ai_chains app)) (indexed apps))"
  have "(chain, i, ch) \<in> set (rev ?entries)"
    by (rule map_of_SomeD) (use assms in \<open>simp only: chain_owner_def\<close>)
  then show ?thesis unfolding set_rev indexed_concat by auto
qed

lemma chain_owner_some:
  assumes "can_publish (compile_snapshot env doc)"
  shows "(\<exists>ch. chain_owner (fleet doc) chain = Some (i, ch)) \<longleftrightarrow> owns doc i chain"
proof -
  let ?entries = "concat (map (\<lambda>(index, app). map (\<lambda>c. (ic_id c, index, c)) (ai_chains app)) (indexed (fleet doc)))"
  have entries: "(\<exists>ch. (chain, i, ch) \<in> set ?entries) \<longleftrightarrow> owns doc i chain" for i
    unfolding indexed_concat by (auto simp: owns_def fleet_nth hopped_def hop_stage_fields)
  have found: "owns doc j chain" if "chain_owner (fleet doc) chain = Some (j, ch)" for j ch
  proof -
    have "(chain, j, ch) \<in> set (rev ?entries)"
      by (rule map_of_SomeD) (use that in \<open>simp only: chain_owner_def\<close>)
    then show ?thesis using entries unfolding set_rev by blast
  qed
  show ?thesis
  proof
    assume own: "owns doc i chain"
    then obtain ch where "(chain, i, ch) \<in> set ?entries" using entries by blast
    then have "chain \<in> fst ` set (rev ?entries)" unfolding set_rev by (rule rev_image_eqI) simp
    then have "map_of (rev ?entries) chain \<noteq> None" unfolding map_of_eq_None_iff by blast
    then obtain j ch' where "chain_owner (fleet doc) chain = Some (j, ch')" unfolding chain_owner_def by auto
    moreover from this have "j = i" using found owns_one [OF assms _ own] by blast
    ultimately show "\<exists>ch. chain_owner (fleet doc) chain = Some (i, ch)" by blast
  qed (use found in blast)
qed

lemma report_cross_listeners_exact:
  "no_errors (report_cross_listeners apps steps reported es) \<Longrightarrow> (i, s, l) \<in> set es \<Longrightarrow>
     chain_owner apps (is_chain s) = Some (k, sc) \<Longrightarrow> chain_owner apps (fst l) = Some (j, tc) \<Longrightarrow> j \<noteq> i \<Longrightarrow>
     under (ic_tenant sc) (ic_tenant tc) \<and>
     (global_listener_reaches steps l (is_chain s, is_node s) \<longrightarrow> listener_location s l \<in> set reported)"
proof (induction es)
  case (Cons e es)
  obtain index t m where e: "e = (index, t, m)" by (cases e)
  show ?case
  proof (cases "(i, s, l) = e")
    case True
    then show ?thesis using Cons.prems(1,3,4,5) by (simp add: e Let_def tenant_scope_def split: if_splits)
  next
    case False
    have "no_errors (report_cross_listeners apps steps reported es)"
      using Cons.prems(1) by (auto simp: e Let_def split: option.splits if_splits prod.splits)
    then show ?thesis using Cons.IH Cons.prems False by simp
  qed
qed simp

lemma cross_edge_acyclic:
  assumes "can_publish (compile_snapshot env doc)" and "(x, l) \<in> forwarding (all_steps doc)"
    and "owns doc i (fst x)" and "owns doc j (fst l)" and "i \<noteq> j"
  shows "(l, x) \<notin> (forwarding (all_steps doc))\<^sup>*"
proof -
  have "(x, l) \<notin> forward_part (all_steps doc)"
    using owns_one [OF assms(1,3)] assms(4,5) by (auto simp: forward_part_iff step_key_def)
  then obtain s where s: "s \<in> set (all_steps doc)" "step_key s = x" "(s, l) \<in> set (listener_edges (all_steps doc))"
    using assms(2) unfolding forwarding_parts Un_iff listener_part_iff listener_edge_iff by blast
  obtain k where k: "k < length (sn_apps doc)" "s \<in> set (ai_steps (routed doc (sn_apps doc ! k)))" "owns doc k (is_chain s)"
    using all_steps_home [OF s(1)] by blast
  have "owns doc i (is_chain s)" using assms(3) s(2) [symmetric] by (simp add: step_key_def)
  then have "k = i" using owns_one [OF assms(1) k(3)] by blast
  have "(s, l) \<in> set (listener_edges (ai_steps (fleet doc ! i)))"
    using s(3) k \<open>k = i\<close> by (simp add: listener_edge_iff fleet_nth hopped_steps)
  then have edge: "(i, s, l) \<in> set (cross_listener_edges (fleet doc))"
    unfolding cross_listener_edges_def indexed_concat using k(1) \<open>k = i\<close> by (auto simp: fleet_nth)
  obtain sc tc where "chain_owner (fleet doc) (is_chain s) = Some (i, sc)" "chain_owner (fleet doc) (fst l) = Some (j, tc)"
    using chain_owner_some [OF assms(1)] \<open>owns doc i (is_chain s)\<close> assms(4) by blast
  moreover have "concat (map ai_steps (fleet doc)) = all_steps doc"
    by (simp add: fleet_def all_steps_routed hopped_steps comp_def)
  moreover have "no_errors (validate_cross_app_listener_references (fleet doc))"
    using published_stages(4) [OF assms(1)] by (simp add: validate_app_set_def fleet_def)
  ultimately have "\<not> global_listener_reaches (all_steps doc) l (is_chain s, is_node s)"
    using report_cross_listeners_exact [OF _ edge] assms(5) unfolding validate_cross_app_listener_references_def by fastforce
  then show ?thesis
    using s(2) by (simp add: global_listener_reaches_iff fleet_succ_edges [OF all_steps_keys [OF assms(1)]] step_key_def)
qed

text \<open>Edges that stay in one project stay in the project they start in.\<close>

definition home_part :: "model_snapshot \<Rightarrow> ((string \<times> string) \<times> (string \<times> string)) set" where
  "home_part doc = {(x, y) \<in> forwarding (all_steps doc). \<forall>i j. owns doc i (fst x) \<longrightarrow> owns doc j (fst y) \<longrightarrow> i = j}"

lemma home_edge:
  assumes "can_publish (compile_snapshot env doc)" and "(x, y) \<in> home_part doc"
    and "\<And>j. owns doc j (fst x) \<Longrightarrow> j = i"
  shows "owns doc i (fst x) \<and> (x, y) \<in> forwarding (ai_steps (routed doc (sn_apps doc ! i))) \<and> (\<forall>j. owns doc j (fst y) \<longrightarrow> j = i)"
proof -
  obtain s where s: "s \<in> set (all_steps doc)" "step_key s = x" "(x, y) \<in> forwarding [s]"
    using assms(2) by (auto simp: home_part_def forwarding_iff)
  obtain k where k: "k < length (sn_apps doc)" "s \<in> set (ai_steps (routed doc (sn_apps doc ! k)))" "owns doc k (is_chain s)"
    using all_steps_home [OF s(1)] by blast
  then have own: "owns doc k (fst x)" using s(2) by (auto simp: step_key_def)
  then have "k = i" using assms(3) by blast
  have "(x, y) \<in> forwarding (ai_steps (routed doc (sn_apps doc ! i)))"
    using s k \<open>k = i\<close> by (auto simp: forwarding_iff)
  with own \<open>k = i\<close> assms(2) show ?thesis by (auto simp: home_part_def)
qed

lemma home_walk:
  assumes "can_publish (compile_snapshot env doc)" and "(x, y) \<in> (home_part doc)\<^sup>+" and "owns doc i (fst x)"
  shows "(x, y) \<in> (forwarding (ai_steps (routed doc (sn_apps doc ! i))))\<^sup>+ \<and> (\<forall>j. owns doc j (fst y) \<longrightarrow> j = i)"
  using assms(2)
proof (induction rule: trancl_induct)
  case (base y)
  then show ?case using home_edge [OF assms(1) base, of i] assms(3) owns_one [OF assms(1)] by blast
next
  case (step y z)
  then have "(y, z) \<in> forwarding (ai_steps (routed doc (sn_apps doc ! i))) \<and> (\<forall>j. owns doc j (fst z) \<longrightarrow> j = i)"
    using home_edge [OF assms(1) step.hyps(2), of i] by blast
  with step.IH show ?case by (meson trancl_into_trancl)
qed

lemma published_acyclic:
  assumes "can_publish (compile_snapshot env doc)"
  shows "acyclic (forwarding (all_steps doc))"
proof (rule acyclicI, intro allI notI)
  fix x assume cycle: "(x, x) \<in> (forwarding (all_steps doc))\<^sup>+"
  let ?cross = "forwarding (all_steps doc) - home_part doc"
  have "(x, x) \<in> (home_part doc)\<^sup>+"
  proof (rule cycle_split [OF cycle])
    show "forwarding (all_steps doc) = home_part doc \<union> ?cross" by (auto simp: home_part_def)
    show "(l, s) \<notin> (forwarding (all_steps doc))\<^sup>*" if cross: "(s, l) \<in> ?cross" for s l
    proof -
      obtain i j where "owns doc i (fst s)" "owns doc j (fst l)" "i \<noteq> j" using cross unfolding home_part_def by blast
      then show ?thesis using cross cross_edge_acyclic [OF assms] by blast
    qed
  qed
  moreover obtain i where i: "owns doc i (fst x)" "i < length (sn_apps doc)"
  proof -
    obtain y where "(x, y) \<in> forwarding (all_steps doc)" using tranclD [OF cycle] by blast
    then obtain s where s: "s \<in> set (all_steps doc)" "step_key s = x" unfolding forwarding_iff by blast
    obtain k where "k < length (sn_apps doc)" "owns doc k (is_chain s)" using all_steps_home [OF s(1)] by blast
    then show thesis using that [of k] s(2) by (auto simp: step_key_def)
  qed
  ultimately have inside: "(x, x) \<in> (forwarding (ai_steps (routed doc (sn_apps doc ! i))))\<^sup>+"
    using home_walk [OF assms] by blast
  let ?app = "sn_apps doc ! i"
  have app: "?app \<in> set (sn_apps doc)" using i(2) by simp
  have "no_errors (validate_listener_reference_cycles (snd (hopped doc ?app)))"
    using published_stages(3) [OF assms app] by (simp add: validate_app_def validate_topology_def)
  note listeners = listener_part_acyclic [OF this routed_keys [OF assms app], unfolded hopped_steps]
  have "(x, x) \<in> (forward_part (ai_steps (routed doc ?app)))\<^sup>+"
    by (rule cycle_split [OF inside forwarding_parts listeners])
  then show False using forward_part_acyclic [OF assms app] by blast
qed

end
