(* ===== verification/Published_Sample.thy ===== *)
theory Published_Sample 
  imports Published
begin

text \<open>
  A fleet of one machine that may be published: chain \<open>c\<close> hands its traffic to the listener
  of chain \<open>d\<close> on the same machine, which lets it out.
\<close>

definition open_env :: outside where
 "open_env = \<lparr>os_selector_json = (\<lambda>_. ''''), os_net_contains = (\<lambda>_ _. True), os_decode = (\<lambda>_. None), os_parse_f64 = (\<lambda>_. None), os_external_outbounds = (\<lambda>_. []), os_fronts = (\<lambda>_ _. []), os_subscription_names = (\<lambda>_. [])\<rparr>"

definition pub_ingress :: "string \<Rightarrow> string \<Rightarrow> u16 \<Rightarrow> ingress" where
  "pub_ingress i c p = (reuse_ingress i c ''a'')\<lparr>ing_port := p, ing_wires := Vless (VlessTls \<lparr>tls_flow = None\<rparr>)\<rparr>"

definition pub_step :: "string \<Rightarrow> action \<Rightarrow> step" where
  "pub_step c act = (reuse_step c ''a'' act)\<lparr>step_hop_in := Some \<lparr>hi_port = 4, hi_security = HopPlain\<rparr>\<rparr>"

definition pub_app :: app_view where
  "pub_app =
     \<lparr>app_id = ''p'', app_label = ''p'',
      app_chains = map (\<lambda>c. \<lparr>chain_id = c, chain_tenant = ''t'', chain_name = c, chain_subscription_country = None\<rparr>) [''c'', ''d''],
      app_ingresses = [pub_ingress ''i'' ''c'' 1, pub_ingress ''j'' ''d'' 2], app_fronts = [],
      app_steps = [pub_step ''c'' (ReuseListener \<lparr>lr_chain = ''d'', lr_node = ''a''\<rparr> (ListenPublic V4) NoPool),
        pub_step ''d'' (Egress None)],
      app_grants = []\<rparr>"

definition pub_node :: node where
  "pub_node = (sample_node ''a'' None WgUdp)
     \<lparr>node_certificate_name := Some ''n'', node_wireguard := \<lparr>wg_private_key = ''k'', wg_public_key = ''p'', wg_listen_port = 3, wg_transport = WgUdp\<rparr>\<rparr>"

definition pub_doc :: model_snapshot where
  "pub_doc = sample_snapshot [pub_node] [pub_app]"

section \<open>Its compiled layers\<close>

definition pub_ir_ingress :: "string \<Rightarrow> string \<Rightarrow> u16 \<Rightarrow> ir_ingress" where
  "pub_ir_ingress i c p =
     \<lparr>ii_id = i, ii_app_id = Some ''p'', ii_tenant = ''t'', ii_chain = c, ii_node = ''a'', ii_bind = IpV4 0, ii_port = p,
      ii_front = None, ii_sniff = True,
      ii_identity = \<lparr>ii_private_key = ''k'', ii_public_key = ''p'', ii_short_ids = []\<rparr>, ii_anytls_identity = None,
      ii_wires = Vless (VlessTls \<lparr>tls_flow = None\<rparr>), ii_certificate_name = Some ''n'', ii_certificate_names = [],
      ii_guard = ingress_guard_default,
      ii_projection = \<lparr>pr_v4 = None, pr_v6 = None, pr_vless_encryption = None, pr_anytls = None, pr_hysteria2 = None, pr_mtproto = None\<rparr>\<rparr>"

definition pub_ir_chain :: "string \<Rightarrow> ir_chain" where
  "pub_ir_chain c = \<lparr>ic_id = c, ic_app_id = Some ''p'', ic_tenant = ''t'', ic_name = c,
     ic_subscription_country = None, ic_root = Some ''a''\<rparr>"

definition pub_steps :: "ir_step list" where
  "pub_steps =
     [\<lparr>is_id = ''s-c-a'', is_app_id = Some ''p'', is_chain = ''c'', is_node = ''a'', is_accept = None, is_hop_in = None,
       is_rules = [\<lparr>ir_match = MatchAny, ir_action = ReuseListener \<lparr>lr_chain = ''d'', lr_node = ''a''\<rparr> (ListenPublic V4) NoPool\<rparr>]\<rparr>,
      \<lparr>is_id = ''s-d-a'', is_app_id = Some ''p'', is_chain = ''d'', is_node = ''a'',
       is_accept = Some \<lparr>ia_uuid = ''u'', ia_label = ''l''\<rparr>, is_hop_in = Some \<lparr>ih_port = 4, ih_security = HopPlain\<rparr>,
       is_rules = [\<lparr>ir_match = MatchAny, ir_action = Egress None\<rparr>]\<rparr>]"

definition pub_hop :: hop where
  "pub_hop =
     \<lparr>hop_chain = ''c'', hop_target_chain = ''d'', hop_app_id = Some ''p'', hop_from = ''a'', hop_to = ''a'', hop_link = ''a|a'',
      hop_address = ''127.0.0.1'', hop_port = 4, hop_path = PathLocal, hop_security = HdwPlain,
      hop_credential = credential_of \<lparr>ia_uuid = ''u'', ia_label = ''l''\<rparr>, hop_pool = NoPool\<rparr>"

definition pub_ir :: app_ir where
  "pub_ir =
     \<lparr>ai_revision = 1, ai_app_id = Some ''p'', ai_tenants = [''t''], ai_nodes = [app_node_of pub_doc pub_node], ai_users = [],
      ai_external_outbounds = [], ai_chains = [pub_ir_chain ''c'', pub_ir_chain ''d''],
      ai_ingresses = [pub_ir_ingress ''i'' ''c'' 1, pub_ir_ingress ''j'' ''d'' 2], ai_fronts = [], ai_steps = pub_steps,
      ai_listener_roots = [(''d'', ''a'')], ai_grants = [], ai_hops = [pub_hop]\<rparr>"

lemma pub_routed: "routed pub_doc pub_app = pub_ir\<lparr>ai_hops := []\<rparr>"
  by code_simp

lemma pub_all_steps: "all_steps pub_doc = pub_steps"
  by (simp add: all_steps_routed pub_doc_def [unfolded sample_snapshot_def] pub_routed [unfolded pub_doc_def sample_snapshot_def] pub_ir_def)

lemma pub_listeners: "ipv6_public_listeners [pub_hop] = []" "local_address ls pub_hop = (if (''d'', ''a'') \<in> set ls then pub_hop\<lparr>hop_address := ''::1''\<rparr> else pub_hop)"
proof -
  have fields: "hop_path pub_hop = PathLocal" "hop_target_chain pub_hop = ''d''" "hop_to pub_hop = ''a''"
    by (simp_all add: pub_hop_def)
  show "ipv6_public_listeners [pub_hop] = []"
    by (cases "parse_ipv6 (hop_address pub_hop) = None") (simp_all add: ipv6_public_listeners_def List.map_filter_simps fields)
  show "local_address ls pub_hop = (if (''d'', ''a'') \<in> set ls then pub_hop\<lparr>hop_address := ''::1''\<rparr> else pub_hop)"
    by (simp add: local_address_def fields)
qed

lemma pub_compile_hop:
  "compile_hop ir pub_steps sys (pub_steps ! 0) \<lparr>fa_target_chain = ''d'', fa_target_node = ''a'',
      fa_dial = ListenerDial (ListenPublic V4), fa_pool = NoPool, fa_reused = True\<rparr> [] =
     ([], [((''c'', ''a'', ''d'', ''a''), pub_hop)])"
  by (simp add: compile_hop_def Let_def pub_steps_def pub_hop_def link_key_def)

lemma pub_hopped: "hopped pub_doc pub_app = ([], pub_ir)"
proof -
  have edges: "hop_edges pub_steps = [(pub_steps ! 0, \<lparr>fa_target_chain = ''d'', fa_target_node = ''a'',
      fa_dial = ListenerDial (ListenPublic V4), fa_pool = NoPool, fa_reused = True\<rparr>)]"
    by (simp add: hop_edges_def pub_steps_def List.map_filter_simps)
  have "ai_steps (pub_ir\<lparr>ai_hops := []\<rparr>) = pub_steps" "pub_ir\<lparr>ai_hops := [pub_hop]\<rparr> = pub_ir" by (simp_all add: pub_ir_def)
  then show ?thesis
    unfolding hopped_def pub_routed pub_all_steps compile_hops_with_targets_def
    by (simp add: edges pub_compile_hop pub_listeners)
qed

lemma pub_app_passes: 
  "validate_unique_ids pub_ir = []"
  "validate_slugs pub_ir = []"
  "validate_chain_ingresses (\<lambda>_. None) (\<lambda>_. None) pub_ir = []"
  "validate_ports (snd (compile_system pub_doc)) pub_ir = []"
  "validate_labels pub_ir = []"
  "validate_steps (snd (compile_system pub_doc)) pub_ir = []"
  "validate_topology pub_ir = []"
  "validate_reality pub_ir = []"
  "validate_reverse_needs_vless pub_ir = []"
  "validate_tenants pub_ir = []"
  "validate_dns pub_ir = []"
  by code_simp+

lemma pub_set_passes:
  "validate_app_set_ports [pub_ir] = []"
  "validate_app_set_labels [pub_ir] = []"
  "validate_app_set_dns [pub_ir] = []"
  "validate_cross_app_listener_references [pub_ir] = []"
  by code_simp+

lemma pub_hop_security: "validate_hop_security pub_ir = []"
  by (simp add: validate_hop_security_def pub_ir_def pub_hop_def)

lemma pub_settings: "validate_settings pub_doc = []"
proof -
  have "validate_reverse_health (sn_settings pub_doc) = Inr ()"
    by (simp add: validate_reverse_health_def reverse_health_validate_def tuning_validate_def pub_doc_def sample_snapshot_def
        model_settings_default_def reverse_health_default_def reverse_health_tuning_default_def least_lease_def saturating_mul32_def)
  moreover have "validate_hop_mux (ms_relay_mux (sn_settings pub_doc)) at' = []" for at'
    by (simp add: validate_hop_mux_def Let_def pub_doc_def sample_snapshot_def model_settings_default_def hop_mux_default_def
       saturating_add32_def HOP_MUX_CONCURRENCY_MIN_def HOP_MUX_CONCURRENCY_MAX_def REUSE_THRESHOLD_MIN_def PROBE_INTERVAL_MIN_MS_def
       PROBE_INTERVAL_MAX_MS_def PROBE_TIMEOUT_MIN_MS_def PROBE_TIMEOUT_MAX_MS_def IDLE_TTL_MIN_MS_def MAX_REQUESTS_MIN_def MAX_REQUESTS_MAX_def)
  ultimately show ?thesis
    by (simp add: validate_settings_def Let_def validate_reality_client_version_def pub_doc_def sample_snapshot_def
        model_settings_default_def overlay_settings_default_def)
qed

lemma pub_model: "validate_model_snapshot j pub_doc = []"
proof -
  have parts: "sn_nodes pub_doc = [pub_node]" "sn_apps pub_doc = [pub_app]" "sn_users pub_doc = []"
    "sn_external_outbounds pub_doc = []" "sn_node_egress_dns pub_doc = []" "ms_reverse_health_overrides (sn_settings pub_doc) = []"
    by (simp_all add: pub_doc_def sample_snapshot_def model_settings_default_def)
  have pools: "referenced_pools pub_doc nid = []" for nid
    by (simp add: referenced_pools_def parts pub_app_def pub_step_def reuse_step_def List.map_filter_simps)
  have slug: "is_valid_slug ''p''" by code_simp
  show ?thesis
    by (simp add: validate_model_snapshot_def pub_settings parts pools unique_by_def pub_app_def validate_slug_def slug)
qed

lemma pub_system: "fst (compile_system pub_doc) = []" "validate_system (\<lambda>_ _. True) (snd (compile_system pub_doc)) = []"
  by code_simp+

lemma pub_routing: "fst (compile_app_with_listener_roots pub_doc pub_app (Some (reachable_listener_roots_across_apps pub_doc))) = []"
  by code_simp

lemma pub_publishable: "can_publish (compile_snapshot open_env pub_doc)"
proof -
  have "sn_apps pub_doc = [pub_app]" by (simp add: pub_doc_def sample_snapshot_def)
  then show ?thesis
    unfolding publishable_iff
    by (simp add: pub_model pub_system pub_routing pub_hopped validate_app_def validate_app_set_def pub_app_passes pub_set_passes
        pub_hop_security open_env_def)
qed

end
