(* ===== verification/Published_Traffic.thy ===== *)
theory Published_Traffic
  imports Published
begin

text \<open>
  Traffic in a published fleet: where a connection that arrives at a rule table goes, and why it
  always leaves the fleet. \<open>hits\<close> is the classification of the connection at each table.
\<close>

section \<open>Every forwarding rule has its hop\<close>

lemma dial_errors:
  "parse_addr loc raw = (ds, r) \<Longrightarrow> \<forall>d \<in> set ds. dg_level d = Error"
  "parse_listener_host loc raw = (ds, r') \<Longrightarrow> \<forall>d \<in> set ds. dg_level d = Error"
  "dial_overlay loc src tgt entry ends = (ds, r) \<Longrightarrow> \<forall>d \<in> set ds. dg_level d = Error"
  by (auto simp: parse_addr_def parse_listener_host_def dial_overlay_def Let_def malformed_def unreachable_def
      split: sum.splits if_splits option.splits)

lemma dial_target_errors:
  "dial_target loc src tgt dial entry ends = (ds, r) \<Longrightarrow> d \<in> set ds \<Longrightarrow> dg_level d = Error"
proof (induction loc src tgt dial entry ends rule: dial_target.induct)
  case (3 loc src tgt raw entry ends)
  then show ?case
    by (auto simp: nat_public_def dest: dial_errors(1) split: prod.splits option.splits if_splits)
next
  case (5 loc src tgt raw entry ends)
  then show ?case
    by (auto simp: nat_public_def dest: dial_errors(2) split: prod.splits option.splits)
qed (auto simp: unreachable_def dest: dial_errors(3) split: option.splits if_splits)

lemma compile_hop_errors:
  "compile_hop app targets sys s f hops = (ds, hops') \<Longrightarrow> d \<in> set ds \<Longrightarrow> dg_level d = Error"
  by (auto simp: compile_hop_def Let_def dest: dial_target_errors split: option.splits if_splits prod.splits)

lemma compile_edges_errors:
  "compile_edges app targets sys es (ds, hops) = (ds', hops') \<Longrightarrow> \<forall>d \<in> set ds. dg_level d = Error \<Longrightarrow>
     d \<in> set ds' \<Longrightarrow> dg_level d = Error"
proof (induction es arbitrary: ds hops)
  case (Cons e es)
  obtain s f where e: "e = (s, f)" by force
  obtain d1 hops1 where step: "compile_hop app targets sys s f hops = (d1, hops1)" by force
  have "compile_edges app targets sys es (ds @ d1, hops1) = (ds', hops')" using Cons.prems(1) e step by simp
  then show ?case using Cons.IH [of "ds @ d1" hops1] Cons.prems(2,3) compile_hop_errors [OF step] by auto
qed simp

lemma hop_stage_silent:
  assumes "no_errors (fst (compile_hops_with_targets app targets sys))"
  shows "fst (compile_hops_with_targets app targets sys) = []"
proof -
  obtain ds table where run: "compile_edges app targets sys (hop_edges (ai_steps app)) ([], []) = (ds, table)" by force
  then have "fst (compile_hops_with_targets app targets sys) = ds" by (simp add: compile_hops_with_targets_def)
  moreover have "\<forall>d \<in> set ds. dg_level d = Error" using compile_edges_errors [OF run] by simp
  ultimately show ?thesis using assms by (cases ds) (auto simp: no_errors_def)
qed

lemma hop_edges_iff:
  "(s, f) \<in> set (hop_edges steps) \<longleftrightarrow> s \<in> set steps \<and> f \<in> set (step_forwards s)"
  by (auto simp: hop_edges_def step_forwards_def map_filter_set)

lemma published_edge_hop:
  assumes "can_publish (compile_snapshot env doc)" and "app \<in> set (sn_apps doc)"
    and "s \<in> set (ai_steps (routed doc app))" and "f \<in> set (step_forwards s)"
  shows "\<exists>h \<in> set (ai_hops (snd (hopped doc app))). key_of_hop h = edge_key s f"
proof -
  have "fst (compile_hops_with_targets (routed doc app) (all_steps doc) (snd (compile_system doc))) = []"
    using hop_stage_silent published_stages(2) [OF assms(1,2)] unfolding hopped_def by blast
  from hop_keys_of_edges [OF this] assms(3,4) show ?thesis
    unfolding hopped_def by (force simp: hop_edges_iff)
qed

lemma published_hop_keys:
  assumes "can_publish (compile_snapshot env doc)" and "app \<in> set (sn_apps doc)"
  shows "distinct (map key_of_hop (ai_hops (snd (hopped doc app))))"
  using hop_keys_exact [OF hop_stage_silent] published_stages(2) [OF assms] unfolding hopped_def by blast

lemma published_target:
  assumes "can_publish (compile_snapshot env doc)" and "(x, y) \<in> forwarding (all_steps doc)"
  shows "y \<in> step_key ` set (all_steps doc)"
proof -
  obtain s f where s: "s \<in> set (all_steps doc)" "f \<in> set (step_forwards s)" "y = (fa_target_chain f, fa_target_node f)"
    using assms(2) unfolding forwarding_def by blast
  then obtain app where app: "app \<in> set (sn_apps doc)" "s \<in> set (ai_steps (routed doc app))"
    by (auto simp: all_steps_routed)
  obtain h where h: "h \<in> set (ai_hops (snd (hopped doc app)))" "key_of_hop h = edge_key s f"
    using published_edge_hop [OF assms(1) app s(2)] by blast
  obtain t where "t \<in> set (all_steps doc)" "is_chain t = hop_target_chain h" "is_node t = hop_to h"
    using hop_sound [OF h(1) [unfolded hopped_def]] unfolding hop_of_edge_def by blast
  moreover have "hop_target_chain h = fa_target_chain f" "hop_to h = fa_target_node f"
    using h(2) by (simp_all add: key_of_hop_def edge_key_def)
  ultimately show ?thesis using s(3) by (metis image_eqI step_key_def)
qed

section \<open>Where a connection goes\<close>

text \<open>
  The first rule whose condition holds decides: it forwards to another rule table or it is where
  the connection leaves (or is blocked). \<open>fuel\<close> bounds the tables a connection passes.
\<close>

fun deliver :: "(string \<times> string \<Rightarrow> dest_match \<Rightarrow> bool) \<Rightarrow> ir_step list \<Rightarrow> nat \<Rightarrow> string \<times> string \<Rightarrow> action option" where
  "deliver hits steps 0 here = None"
| "deliver hits steps (Suc fuel) here =
     (case find (\<lambda>s. (is_chain s, is_node s) = here) steps of
        None \<Rightarrow> None
      | Some s \<Rightarrow>
          (case find (\<lambda>r. hits here (ir_match r)) (is_rules s) of
             None \<Rightarrow> None
           | Some r \<Rightarrow>
               (case forward_ref (ir_action r) (is_chain s) of
                  None \<Rightarrow> Some (ir_action r)
                | Some f \<Rightarrow> deliver hits steps fuel (fa_target_chain f, fa_target_node f))))"

definition leaves :: "action \<Rightarrow> bool" where
  "leaves a \<longleftrightarrow> (case a of Egress _ \<Rightarrow> True | Proxy _ \<Rightarrow> True | Block \<Rightarrow> True | _ \<Rightarrow> False)"

lemma forward_ref_None: "forward_ref a c = None \<longleftrightarrow> leaves a"
  by (cases a) (simp_all add: leaves_def)

lemma step_catches:
  assumes "s \<in> set (all_steps doc)" and "hits MatchAny"
  shows "find (\<lambda>r. hits (ir_match r)) (is_rules s) \<noteq> None"
proof -
  obtain app where "s \<in> set (ai_steps (routed doc app))" using assms(1) by (auto simp: all_steps_routed)
  then obtain m rules where rules: "is_rules s = rules @ default_rule m rules"
    using app_step_shape unfolding routed_def by (metis (no_types, lifting))
  then have "is_rules s \<noteq> []" by (auto simp: default_rule_def)
  then have "last (is_rules s) \<in> set (is_rules s)" "ir_match (last (is_rules s)) = MatchAny"
    using rules default_rule_last last_in_set by metis+
  with assms(2) show ?thesis by (auto simp: find_None_iff)
qed

lemma forwarding_inside:
  assumes "can_publish (compile_snapshot env doc)" and "x \<in> step_key ` set (all_steps doc)"
  shows "(forwarding (all_steps doc))\<^sup>* `` {x} \<subseteq> step_key ` set (all_steps doc)"
proof
  fix y assume "y \<in> (forwarding (all_steps doc))\<^sup>* `` {x}"
  then have "(x, y) \<in> (forwarding (all_steps doc))\<^sup>*" by simp
  then show "y \<in> step_key ` set (all_steps doc)"
    by (induction rule: rtrancl_induct) (use assms(2) published_target [OF assms(1)] in auto)
qed

lemma deliver_bound:
  fixes doc
  defines "R \<equiv> forwarding (all_steps doc)"
  assumes "can_publish (compile_snapshot env doc)" and "\<And>x. hits x MatchAny"
  shows "here \<in> step_key ` set (all_steps doc) \<Longrightarrow> card (R\<^sup>* `` {here}) \<le> fuel \<Longrightarrow>
    \<exists>a. deliver hits (all_steps doc) fuel here = Some a \<and> leaves a"
proof (induction fuel arbitrary: here)
  have fin: "finite (R\<^sup>* `` {x})" if "x \<in> step_key ` set (all_steps doc)" for x
    unfolding R_def by (rule finite_subset [OF forwarding_inside [OF assms(2) that]]) simp
  {
    case 0
    then have "R\<^sup>* `` {here} = {}" using fin by simp
    then show ?case by blast
  next
    case (Suc fuel)
    then obtain s where s: "s \<in> set (all_steps doc)" "step_key s = here" by blast
    have found: "find (\<lambda>t. (is_chain t, is_node t) = here) (all_steps doc) = Some s"
      using find_step [OF all_steps_keys [OF assms(2)]] s by blast
    obtain r where r: "find (\<lambda>r. hits here (ir_match r)) (is_rules s) = Some r"
      using step_catches [OF s(1), of "hits here"] assms(3) by blast
    show ?case
    proof (cases "forward_ref (ir_action r) (is_chain s)")
      case None
      then have "leaves (ir_action r)" using forward_ref_None by blast
      then show ?thesis using None found r by simp
    next
      case (Some f)
      let ?next = "(fa_target_chain f, fa_target_node f)"
      have edge: "(here, ?next) \<in> R"
        unfolding R_def forwarding_iff using s Some find_SomeD [OF r] by blast
      then have target: "?next \<in> step_key ` set (all_steps doc)" using published_target [OF assms(2)] R_def by blast
      have "here \<notin> R\<^sup>* `` {?next}"
        using published_acyclic [OF assms(2)] edge unfolding R_def acyclic_def by (meson Image_singleton_iff rtrancl_into_trancl2)
      moreover have "R\<^sup>* `` {?next} \<subseteq> R\<^sup>* `` {here}" "here \<in> R\<^sup>* `` {here}"
        using edge by (auto intro: converse_rtrancl_into_rtrancl)
      ultimately have "R\<^sup>* `` {?next} \<subset> R\<^sup>* `` {here}" by blast
      then have "card (R\<^sup>* `` {?next}) < card (R\<^sup>* `` {here})"
        using psubset_card_mono [OF fin [OF Suc.prems(1)]] by blast
      then show ?thesis using Suc.IH [OF target] Suc.prems(2) found r Some by simp
    qed
  }
qed

end
