(* ===== verification/Published_Coverage.thy ===== *)
theory Published_Coverage
  imports Published
begin

text \<open>
  What a machine binds and which labels it counts under, stated over the compiled layers
  themselves: the listings of the passes leave nothing out and add nothing.
\<close>

section \<open>The sockets of an ingress\<close>

text \<open>What an ingress binds, protocol by protocol, port ranges by their bounds.\<close>

definition ingress_binds :: "ir_ingress \<Rightarrow> socket \<Rightarrow> bool" where
  "ingress_binds i k \<longleftrightarrow>
     wires_vless (ii_wires i) \<noteq> None \<and> k = (ProtoTcp, ii_port i) \<or>
     (\<exists>e. wires_vless_encryption (ii_wires i) = Some e \<and> k = (ProtoTcp, vl_port e)) \<or>
     (\<exists>a. wires_anytls (ii_wires i) = Some a \<and> k = (ProtoTcp, at_port a)) \<or>
     (\<exists>m. wires_mtproto (ii_wires i) = Some m \<and> k = (ProtoTcp, mt_port m)) \<or>
     (\<exists>h. wires_hysteria2 (ii_wires i) = Some h \<and>
        (k = (ProtoUdp, hy_port h) \<or>
         (\<exists>r p. hy_hop h = Some r \<and> hp_start r \<le> p \<and> p \<le> hp_end r \<and> k = (ProtoUdp, p)))) \<or>
     (\<exists>v d f. wires_vless (ii_wires i) = Some (VlessRealityXhttp v) \<and> xh_download (rx_xhttp v) = Some d \<and>
        (xd_v4 d = Some f \<or> xd_v6 d = Some f) \<and> k = (ProtoTcp, node_port f))"

lemma hop_range_set: "set (hop_range h) = {p. hp_start h \<le> p \<and> p \<le> hp_end h}"
proof -
  have "p \<in> set (hop_range h) \<longleftrightarrow> hp_start h \<le> p \<and> p \<le> hp_end h" for p
  proof
    assume "p \<in> set (hop_range h)"
    then obtain k where k: "p = of_nat k" "unat (hp_start h) \<le> k" "k \<le> unat (hp_end h)"
      by (auto simp: hop_range_def)
    have "unat (hp_end h) < 2 ^ 16" using unsigned_less [of "hp_end h"] by simp
    then have "k < 2 ^ 16" using k(3) by linarith
    then have "unat p = k" using k(1) by (simp add: unsigned_of_nat take_bit_nat_eq_self)
    then show "hp_start h \<le> p \<and> p \<le> hp_end h" using k by (simp add: word_le_nat_alt)
  next
    assume "hp_start h \<le> p \<and> p \<le> hp_end h"
    then show "p \<in> set (hop_range h)"
      by (auto simp: hop_range_def word_le_nat_alt less_Suc_eq_le simp del: upt_Suc intro!: image_eqI [of _ _ "unat p"])
  qed
  then show ?thesis by blast
qed

lemma download_ports_set:
  "p \<in> set (download_ports w) \<longleftrightarrow> (\<exists>v d f. wires_vless w = Some (VlessRealityXhttp v) \<and> xh_download (rx_xhttp v) = Some d \<and>
     (xd_v4 d = Some f \<or> xd_v6 d = Some f) \<and> p = node_port f)"
proof (cases "wires_vless w")
  case (Some v)
  show ?thesis
  proof (cases v)
    case (VlessRealityXhttp s)
    then show ?thesis using Some
      by (cases "xh_download (rx_xhttp s)"; cases "xd_v4 (the (xh_download (rx_xhttp s)))"; cases "xd_v6 (the (xh_download (rx_xhttp s)))")
        (auto simp: download_ports_def wires_xhttp_def map_filter_def)
  qed (use Some in \<open>simp_all add: download_ports_def\<close>)
qed (simp add: download_ports_def)

lemma fst_image_map: "fst ` set (map (\<lambda>p. (f p, w)) xs) = f ` set xs"
  by force

lemma occupied_sockets: "fst ` set (occupied_ingress_ports i) = {k. ingress_binds i k}"
proof -
  have hy: "fst ` set (case wires_hysteria2 w of
            None \<Rightarrow> []
          | Some h \<Rightarrow> ((ProtoUdp, hy_port h), '' Hysteria 2'') #
              (case hy_hop h of
                 None \<Rightarrow> []
               | Some hop \<Rightarrow> map (\<lambda>p. ((ProtoUdp, p), '' port hopping'')) (filter (\<lambda>p. p \<noteq> hy_port h) (hop_range hop)))) =
     {k. \<exists>h. wires_hysteria2 w = Some h \<and>
        (k = (ProtoUdp, hy_port h) \<or>
         (\<exists>r p. hy_hop h = Some r \<and> hp_start r \<le> p \<and> p \<le> hp_end r \<and> k = (ProtoUdp, p)))}" for w
    by (cases "wires_hysteria2 w"; cases "hy_hop (the (wires_hysteria2 w))") (auto simp: hop_range_set image_iff)
  have dl: "fst ` set (map (\<lambda>p. ((ProtoTcp, p), '' TLS download front'')) (download_ports w)) =
     {k. \<exists>v d f. wires_vless w = Some (VlessRealityXhttp v) \<and> xh_download (rx_xhttp v) = Some d \<and>
        (xd_v4 d = Some f \<or> xd_v6 d = Some f) \<and> k = (ProtoTcp, node_port f)}" for w
    by (auto simp: image_iff download_ports_set)
  have opt: "fst ` set (case v of None \<Rightarrow> [] | Some e \<Rightarrow> [(f e, what)]) = {k. \<exists>e. v = Some e \<and> k = f e}"
    for v :: "'x option" and f :: "'x \<Rightarrow> socket" and what :: string
    by (cases v) auto
  show ?thesis
    unfolding occupied_ingress_ports_def Let_def set_append image_Un hy dl opt
    by (auto simp: ingress_binds_def split: if_splits)
qed

section \<open>The sockets of a machine\<close>

text \<open>What a machine binds for a project: WireGuard, relay listeners, fake-TCP servers, the API, ingresses.\<close>

definition machine_binds :: "system_ir \<Rightarrow> app_ir \<Rightarrow> app_node \<Rightarrow> socket \<Rightarrow> bool" where
  "machine_binds sys ir n k \<longleftrightarrow>
     (\<exists>m \<in> set (si_nodes sys). sys_id m = an_id n \<and>
        (\<exists>w p. sys_wireguard m = Some w \<and> wi_listen_port w = Some p \<and> k = (ProtoUdp, p))) \<or>
     (\<exists>s \<in> set (ai_steps ir). is_node s = an_id n \<and> (\<exists>h. is_hop_in s = Some h \<and> k = (ProtoTcp, ih_port h))) \<or>
     (\<exists>l \<in> set (si_links sys). \<exists>servers host port p. link_wrap l = WrapFakeTcp servers \<and>
        map_of servers (an_id n) = Some (host @ CHR '':'' # port) \<and> CHR '':'' \<notin> set port \<and>
        parse_u16 port = Some p \<and> k = (ProtoTcp, of_nat p)) \<or>
     (\<exists>p. an_api_port n = Some p \<and> k = (ProtoTcp, p)) \<or>
     (\<exists>i \<in> set (ai_ingresses ir). ii_node i = an_id n \<and> ingress_binds i k)"

lemma relay_sockets:
  "fst ` set (concat (map (\<lambda>s. case is_hop_in s of None \<Rightarrow> [] | Some h \<Rightarrow> [(at s (ih_port h), f s)]) ss)) =
     {k. \<exists>s \<in> set ss. \<exists>h. is_hop_in s = Some h \<and> k = at s (ih_port h)}"
proof (induction ss)
  case (Cons s ss)
  then show ?case by (cases "is_hop_in s") auto
qed simp

lemma fake_tcp_ports_set:
  "p \<in> set (fake_tcp_ports sys nid) \<longleftrightarrow> (\<exists>l \<in> set (si_links sys). \<exists>servers host port q. link_wrap l = WrapFakeTcp servers \<and>
     map_of servers nid = Some (host @ CHR '':'' # port) \<and> CHR '':'' \<notin> set port \<and> parse_u16 port = Some q \<and> p = of_nat q)"
proof -
  let ?port = "\<lambda>l. case link_wrap l of WrapUdp \<Rightarrow> None
    | WrapFakeTcp servers \<Rightarrow> do { endpoint \<leftarrow> map_of servers nid; (_, port) \<leftarrow> rsplit_once (CHR '':'') endpoint;
        q \<leftarrow> parse_u16 port; Some (of_nat q :: u16) }"
  have port: "?port l = Some p \<longleftrightarrow> (\<exists>servers host port q. link_wrap l = WrapFakeTcp servers \<and>
     map_of servers nid = Some (host @ CHR '':'' # port) \<and> CHR '':'' \<notin> set port \<and> parse_u16 port = Some q \<and> p = of_nat q)" for l
    by (cases "link_wrap l") (auto simp: bind_eq_Some_conv rsplit_once_Some)
  have "p \<in> set (fake_tcp_ports sys nid) \<longleftrightarrow> (\<exists>l \<in> set (si_links sys). ?port l = Some p)"
    unfolding fake_tcp_ports_def set_bset by (simp add: map_filter_def image_iff) (metis option.sel option.distinct(1))
  then show ?thesis unfolding port by blast
qed

lemma ingress_sockets:
  "fst ` set (concat (map (\<lambda>i. map (\<lambda>(k, suffix). (at i k, f i suffix)) (occupied_ingress_ports i)) is)) =
     {x. \<exists>i \<in> set is. \<exists>k. ingress_binds i k \<and> x = at i k}"
proof (induction "is")
  case (Cons i "is")
  have "fst ` set (map (\<lambda>(k, suffix). (at i k, f i suffix)) ps) = at i ` (fst ` set ps)" for ps
    by (induction ps) auto
  from this [of "occupied_ingress_ports i"]
  have "fst ` set (map (\<lambda>(k, suffix). (at i k, f i suffix)) (occupied_ingress_ports i)) = {x. \<exists>k. ingress_binds i k \<and> x = at i k}"
    unfolding occupied_sockets by blast
  with Cons show ?case unfolding list.map concat.simps set_append image_Un by auto
qed simp

lemma machine_sockets_exact:
  assumes "distinct (map sys_id (si_nodes sys))"
    and "\<And>s h. s \<in> set (ai_steps ir) \<Longrightarrow> is_node s = an_id n \<Longrightarrow> is_hop_in s = Some h \<Longrightarrow> an_id n \<in> sys_id ` set (si_nodes sys)"
    and "\<And>l servers. l \<in> set (si_links sys) \<Longrightarrow> link_wrap l = WrapFakeTcp servers \<Longrightarrow> map_of servers (an_id n) \<noteq> None \<Longrightarrow>
      an_id n \<in> sys_id ` set (si_nodes sys)"
  shows "fst ` set (machine_sockets sys ir n) = {k. machine_binds sys ir n k}"
proof -
  let ?m = "find (\<lambda>m. sys_id m = an_id n) (si_nodes sys)"
  let ?wg = "\<lambda>k. \<exists>m \<in> set (si_nodes sys). sys_id m = an_id n \<and>
        (\<exists>w p. sys_wireguard m = Some w \<and> wi_listen_port w = Some p \<and> k = (ProtoUdp, p))"
  let ?relay = "\<lambda>k. \<exists>s \<in> set (ai_steps ir). is_node s = an_id n \<and> (\<exists>h. is_hop_in s = Some h \<and> k = (ProtoTcp, ih_port h))"
  let ?fake = "\<lambda>k. \<exists>p \<in> set (fake_tcp_ports sys (an_id n)). k = (ProtoTcp, p)"
  have system: "fst ` set (case ?m of None \<Rightarrow> []
      | Some m \<Rightarrow>
          (case Option.bind (sys_wireguard m) wi_listen_port of None \<Rightarrow> [] | Some p \<Rightarrow> [((ProtoUdp, p), ''WireGuard'')]) @
          concat (map (\<lambda>s. case is_hop_in s of
              None \<Rightarrow> []
            | Some h \<Rightarrow> [((ProtoTcp, ih_port h), ''relay inbound of '' @ is_chain s)])
            (filter (\<lambda>s. is_node s = an_id n) (ai_steps ir))) @
          map (\<lambda>p. ((ProtoTcp, p), ''phantun'')) (fake_tcp_ports sys (an_id n))) = {k. ?wg k \<or> ?relay k \<or> ?fake k}"
  proof (cases ?m)
    case None
    then have out: "an_id n \<notin> sys_id ` set (si_nodes sys)" by (auto simp: find_None_iff)
    then have "\<not> ?wg k" "\<not> ?relay k" "\<not> ?fake k" for k
      using assms(2,3) by (force simp: fake_tcp_ports_set)+
    then show ?thesis using None by simp
  next
    case (Some m)
    have m: "m \<in> set (si_nodes sys)" "sys_id m = an_id n" using Some by (auto simp: find_Some_iff)
    have wg: "?wg k \<longleftrightarrow> (\<exists>w p. sys_wireguard m = Some w \<and> wi_listen_port w = Some p \<and> k = (ProtoUdp, p))" for k
      using m assms(1) by (auto simp: distinct_map inj_on_def)
    have "fst ` set (case Option.bind (sys_wireguard m) wi_listen_port of None \<Rightarrow> [] | Some p \<Rightarrow> [((ProtoUdp, p), what)]) = {k. ?wg k}"
      for what :: string
      unfolding wg by (cases "sys_wireguard m") (auto split: option.splits)
    moreover have "fst ` set (concat (map (\<lambda>s. case is_hop_in s of None \<Rightarrow> []
        | Some h \<Rightarrow> [((ProtoTcp, ih_port h), what s)]) (filter (\<lambda>s. is_node s = an_id n) (ai_steps ir)))) = {k. ?relay k}"
      for what :: "ir_step \<Rightarrow> string"
      using relay_sockets [of "\<lambda>_ p. (ProtoTcp, p)" what "filter (\<lambda>s. is_node s = an_id n) (ai_steps ir)"] by (simp add: conj_assoc Bex_def)
    ultimately show ?thesis unfolding Some option.case set_append image_Un fst_image_map by auto
  qed
  have api: "fst ` set (case an_api_port n of None \<Rightarrow> [] | Some p \<Rightarrow> [((ProtoTcp, p), what)]) = {k. \<exists>p. an_api_port n = Some p \<and> k = (ProtoTcp, p)}"
    for what :: string by (cases "an_api_port n") auto
  have fake: "?fake k \<longleftrightarrow> (\<exists>l \<in> set (si_links sys). \<exists>servers host port p. link_wrap l = WrapFakeTcp servers \<and>
      map_of servers (an_id n) = Some (host @ CHR '':'' # port) \<and> CHR '':'' \<notin> set port \<and>
      parse_u16 port = Some p \<and> k = (ProtoTcp, of_nat p))" for k
    unfolding Bex_def fake_tcp_ports_set by blast
  have ingress: "{x. \<exists>i \<in> set (filter (\<lambda>i. ii_node i = an_id n) (ai_ingresses ir)). \<exists>k. ingress_binds i k \<and> x = k} =
      {k. \<exists>i \<in> set (ai_ingresses ir). ii_node i = an_id n \<and> ingress_binds i k}" by auto
  show ?thesis
    unfolding machine_sockets_def set_append image_Un system api ingress_sockets ingress fake machine_binds_def
    by blast
qed


section \<open>Relay listeners are on machines of the system layer\<close>

lemma merge_step_field_none: "\<forall>v \<in> set vs. v = None \<Longrightarrow> merge_step_field vs c l f = ([], None)"
proof -
  assume "\<forall>v \<in> set vs. v = None"
  then have e: "concat (map (\<lambda>v. case v of None \<Rightarrow> [] | Some x \<Rightarrow> [x]) vs) = []" by auto
  show ?thesis unfolding merge_step_field_def e by simp
qed

lemma compile_member_hop_in:
  assumes "snd (compile_member input root primary n) = Some (s, p)" and "is_hop_in s \<noteq> None"
  shows "\<exists>x \<in> set (rci_steps input). step_node x = n \<and> step_hop_in x \<noteq> None"
proof (rule ccontr)
  assume "\<not> ?thesis"
  then have "\<forall>v \<in> set (map step_hop_in (steps_at_source (rci_steps input) (chain_id (rci_chain input)) n)). v = None"
    by (auto simp: steps_at_source_def)
  note none = merge_step_field_none [OF this]
  show False using assms unfolding compile_member_def Let_def none
    by (auto simp: split_beta split: option.splits if_splits)
qed

lemma relay_listener_source:
  assumes "s \<in> set (rcc_steps (compile_chain input))" and "is_hop_in s \<noteq> None"
  shows "\<exists>x \<in> set (rci_steps input). step_node x = is_node s \<and> step_hop_in x \<noteq> None"
proof (cases "rci_root input")
  case None
  then show ?thesis using assms compile_chain_no_root by fastforce
next
  case (Some root)
  have s: "s \<in> set (snd (compile_chain_steps input))" using assms(1) by (simp add: compile_chain_def split_beta Let_def)
  obtain primary b where "snd (compile_member input root primary (is_node s)) = Some (s, b)"
    using compile_chain_steps_walk(3) [OF Some s] by blast
  from compile_member_hop_in [OF this assms(2)] show ?thesis .
qed

lemma system_node_ids: "sys_id ` set (si_nodes (snd (compile_system doc))) =
    {node_id n |n. n \<in> set (sn_nodes doc) \<and> \<not> node_retired n \<and> (node_overlay n \<or> node_id n \<in> set (relay_nodes doc))}"
proof -
  have ids: "map sys_id (assign_server_listen_ports doc links ns) = map sys_id ns" for links ns
    by (auto simp: assign_server_listen_ports_def Let_def split: option.splits)
  have "sys_id ` set (si_nodes (snd (compile_system doc))) = set (map sys_id (system_nodes doc))"
    unfolding compile_system_nodes set_map [symmetric] ids ..
  then show ?thesis by (auto simp: system_nodes_def image_image)
qed

lemma relay_machine:
  assumes "app \<in> set (sn_apps doc)" and "s \<in> set (ai_steps (routed doc app))" and "is_hop_in s \<noteq> None"
    and "n \<in> set (ai_nodes (routed doc app))" and "is_node s = an_id n"
  shows "an_id n \<in> sys_id ` set (si_nodes (snd (compile_system doc)))"
proof -
  obtain given c where "s \<in> set (rcc_steps (compile_chain (chain_input doc app given c)))"
    using assms(2) unfolding routed_def compile_app_parts by blast
  then obtain x where "x \<in> set (app_steps app)" "step_node x = an_id n" "step_hop_in x \<noteq> None"
    using relay_listener_source [OF _ assms(3)] assms(5) by (fastforce simp: chain_input_def)
  then have "an_id n \<in> set (relay_nodes doc)" using assms(1) by (force simp: relay_nodes_def)
  moreover obtain m where "m \<in> set (sn_nodes doc)" "\<not> node_retired m" "node_id m = an_id n"
    using assms(4) unfolding routed_def compile_app_parts by (auto simp: app_node_of_def)
  ultimately show ?thesis unfolding system_node_ids by force
qed

lemma published_sockets_listed:
  assumes "can_publish (compile_snapshot env doc)" and "app \<in> set (sn_apps doc)" and "n \<in> set (ai_nodes (snd (hopped doc app)))"
  shows "fst ` set (machine_sockets (snd (compile_system doc)) (snd (hopped doc app)) n) =
    {k. machine_binds (snd (compile_system doc)) (snd (hopped doc app)) n k}"
proof (rule machine_sockets_exact)
  have "no_errors (validate_system (os_net_contains env) (snd (compile_system doc)))"
    using assms(1) unfolding publishable_iff by blast
  then show "distinct (map sys_id (si_nodes (snd (compile_system doc))))"
    by (simp add: validate_system_def unique_by_exact)
next
  fix s h
  assume "s \<in> set (ai_steps (snd (hopped doc app)))" "is_node s = an_id n" "is_hop_in s = Some h"
  then show "an_id n \<in> sys_id ` set (si_nodes (snd (compile_system doc)))"
    using relay_machine [OF assms(2), of s n] assms(3) by (simp add: hopped_def hop_stage_fields)
next
  fix l servers
  assume l: "l \<in> set (si_links (snd (compile_system doc)))" "link_wrap l = WrapFakeTcp servers" "map_of servers (an_id n) \<noteq> None"
  have "distinct (map node_id (sn_nodes doc))"
    using published_stages(1) [OF assms(1)] by (simp add: validate_model_snapshot_def unique_by_exact)
  from server_host_listens [OF this l] show "an_id n \<in> sys_id ` set (si_nodes (snd (compile_system doc)))" by force
qed

section \<open>The sockets of a project\<close>

text \<open>The sockets one project takes on all machines.\<close>

definition project_binds :: "app_ir \<Rightarrow> string \<times> socket \<Rightarrow> bool" where
  "project_binds ir at \<longleftrightarrow>
     (\<exists>i \<in> set (ai_ingresses ir). ii_node i = fst at \<and> ingress_binds i (snd at)) \<or>
     (\<exists>s \<in> set (ai_steps ir). is_node s = fst at \<and> (\<exists>h. is_hop_in s = Some h \<and> snd at = (ProtoTcp, ih_port h)))"

lemma app_sockets_exact: "fst ` set (app_sockets index ir) = {at. project_binds ir at}"
proof -
  have i: "{x. \<exists>i \<in> set (ai_ingresses ir). \<exists>k. ingress_binds i k \<and> x = (ii_node i, k)} =
    {at. \<exists>i \<in> set (ai_ingresses ir). ii_node i = fst at \<and> ingress_binds i (snd at)}" by force
  have r: "fst ` set (concat (map (\<lambda>s. case is_hop_in s of None \<Rightarrow> [] | Some h \<Rightarrow> [((is_node s, ProtoTcp, ih_port h), f s)]) ss)) =
     {k. \<exists>s \<in> set ss. is_node s = fst k \<and> (\<exists>h. is_hop_in s = Some h \<and> snd k = (ProtoTcp, ih_port h))}" for ss and f :: "ir_step \<Rightarrow> nat \<times> string"
    unfolding relay_sockets [of "\<lambda>s p. (is_node s, ProtoTcp, p)"] by force
  have "fst ` set (concat (map (\<lambda>i. map (\<lambda>(k, suffix). ((ii_node i, k), index, ingress_port_owner (app_name ir index @ ''/'' @ ii_id i) suffix))
        (occupied_ingress_ports i)) (ai_ingresses ir))) = {at. \<exists>i \<in> set (ai_ingresses ir). ii_node i = fst at \<and> ingress_binds i (snd at)}"
    using ingress_sockets [of "\<lambda>i k. (ii_node i, k)" "\<lambda>i suffix. (index, ingress_port_owner (app_name ir index @ ''/'' @ ii_id i) suffix)" "ai_ingresses ir"]
    unfolding i .
  then show ?thesis unfolding app_sockets_def set_append image_Un r by (auto simp: project_binds_def)
qed

section \<open>Labels\<close>

text \<open>The accounts of a project: of a chain on the machine of its step, of a user on the machine of the ingress.\<close>

definition account_label :: "app_ir \<Rightarrow> string \<times> string \<Rightarrow> bool" where
  "account_label ir at \<longleftrightarrow>
     (\<exists>s \<in> set (ai_steps ir). \<exists>a. is_accept s = Some a \<and> at = (is_node s, ia_label a)) \<or>
     (\<exists>g \<in> set (ai_grants ir). \<exists>i \<in> set (ai_ingresses ir). ii_id i = ig_ingress g \<and> at = (ii_node i, ig_label g))"

lemma app_labels_exact:
  assumes "distinct (map ii_id (ai_ingresses ir))"
  shows "set (app_labels ir) = {at. account_label ir at}"
proof -
  have accepts: "(\<lambda>(nid, label, what). (nid, label)) ` set (accept_labels ir) =
      {at. \<exists>s \<in> set (ai_steps ir). \<exists>a. is_accept s = Some a \<and> at = (is_node s, ia_label a)}"
    by (force simp: accept_labels_def split: option.splits)
  have found: "find (\<lambda>i. ii_id i = k) (ai_ingresses ir) = Some i \<longleftrightarrow> i \<in> set (ai_ingresses ir) \<and> ii_id i = k" for k i
    using find_unique [OF assms, of i] by (auto simp: find_Some_iff)
  have "(\<lambda>(nid, label, what). (nid, label)) ` set (concat (map (\<lambda>g. case owner g of
      None \<Rightarrow> [] | Some i \<Rightarrow> [(ii_node i, ig_label g, what g)]) gs)) =
      {at. \<exists>g \<in> set gs. \<exists>i. owner g = Some i \<and> at = (ii_node i, ig_label g)}"
    for gs and owner :: "ir_grant \<Rightarrow> ir_ingress option" and what :: "ir_grant \<Rightarrow> string"
  proof (induction gs)
    case (Cons g gs)
    then show ?case by (cases "owner g") auto
  qed simp
  then have grants: "(\<lambda>(nid, label, what). (nid, label)) ` set (grant_labels ir) =
      {at. \<exists>g \<in> set (ai_grants ir). \<exists>i \<in> set (ai_ingresses ir). ii_id i = ig_ingress g \<and> at = (ii_node i, ig_label g)}"
    unfolding grant_labels_def by (simp only: found) blast
  show ?thesis unfolding app_labels_def set_map set_append image_Un accepts grants by (auto simp: account_label_def)
qed

end
