(* ===== verification/Published_Guarantees.thy ===== *)
theory Published_Guarantees
  imports Published_Sample Published_Traffic Published_Coverage
begin

text \<open>
  The promises of a published fleet, over the compiled layers as \<open>compile_snapshot\<close> returns
  them, each applied to the sample fleet.
\<close>

section \<open>Traffic\<close>

text \<open>C1: in a fleet that may be published, a connection that arrives at any rule table always leaves: whatever its classification at each table, following the first matching rule ends at an egress, a tunnel or a block after at most as many tables as the fleet has. No connection circulates, meets a table without a matching rule, or is forwarded to a table that does not exist, also across projects.\<close>

theorem published_traffic_leaves:
  assumes "can_publish (compile_snapshot env doc)"
    and "steps = concat (map ai_steps (co_apps (compile_snapshot env doc)))"
    and "s \<in> set steps" and "\<And>x. hits x MatchAny"
  shows "\<exists>a. deliver hits steps (length steps) (is_chain s, is_node s) = Some a \<and> leaves a"
proof -
  let ?R = "forwarding (all_steps doc)"
  have steps: "steps = all_steps doc" using assms(2) published_steps by simp
  have s: "(is_chain s, is_node s) \<in> step_key ` set (all_steps doc)" using assms(3) steps by (force simp: step_key_def)
  then have "?R\<^sup>* `` {(is_chain s, is_node s)} \<subseteq> step_key ` set (all_steps doc)" by (rule forwarding_inside [OF assms(1)])
  then have "card (?R\<^sup>* `` {(is_chain s, is_node s)}) \<le> length steps"
    using keys_card [of "all_steps doc"] unfolding steps by (meson card_mono finite_imageI List.finite_set le_trans less_Suc_eq_le)
  from deliver_bound [where hits = hits, OF assms(1,4) s this] show ?thesis unfolding steps .
qed

theorem published_traffic_leaves_witness:
  "\<exists>a. deliver (\<lambda>_ m. m = MatchAny) pub_steps (length pub_steps) (''c'', ''a'') = Some a \<and> leaves a"
proof -
  have steps: "pub_steps = concat (map ai_steps (co_apps (compile_snapshot open_env pub_doc)))"
    by (simp only: published_steps pub_all_steps)
  have "pub_steps ! 0 \<in> set pub_steps" by (simp add: pub_steps_def)
  note published_traffic_leaves [OF pub_publishable steps this, of "\<lambda>_ m. m = MatchAny"]
  moreover have "is_chain (pub_steps ! 0) = ''c''" "is_node (pub_steps ! 0) = ''a''" by (simp_all add: pub_steps_def)
  ultimately show ?thesis by simp
qed

text \<open>C19: the forwarding graph of a published fleet, over the rule tables of all projects and including listeners reused within and across projects, has no cycle.\<close>

theorem published_forwarding_acyclic:
  assumes "can_publish (compile_snapshot env doc)"
  shows "acyclic (forwarding (concat (map ai_steps (co_apps (compile_snapshot env doc)))))"
  unfolding published_steps by (rule published_acyclic [OF assms])

theorem published_forwarding_acyclic_witness:
  "acyclic (forwarding pub_steps) \<and> ((''c'', ''a''), (''d'', ''a'')) \<in> forwarding pub_steps"
proof
  show "acyclic (forwarding pub_steps)"
    using published_forwarding_acyclic [OF pub_publishable] unfolding published_steps pub_all_steps .
  show "((''c'', ''a''), (''d'', ''a'')) \<in> forwarding pub_steps"
    by (simp add: forwarding_iff pub_steps_def step_key_def)
qed

lemma hop_of_edge_nodes:
  "ai_nodes app = ai_nodes app' \<Longrightarrow> hop_of_edge app targets sys s f h \<Longrightarrow> hop_of_edge app' targets sys s f h"
proof -
  assume "ai_nodes app = ai_nodes app'" and edge: "hop_of_edge app targets sys s f h"
  then have ends: "hop_ends app' = hop_ends app" by (intro ext) (simp add: hop_ends_def)
  from edge show ?thesis unfolding hop_of_edge_def ends .
qed

text \<open>C14: in a published fleet every forwarding rule of a project has exactly one hop, and every hop of the project carries out one of its rules: it leads into an existing rule table of the fleet with exactly the credential that table accepts, over the public half of the listening end's wire, on the path the rule asks for and at an address that meets the contract of that path (the target's overlay address between two linked machines, an address the target holds in front of its NAT for a dial by family, none it holds behind NAT for a written one, this machine itself for a local hop).\<close>

theorem published_rules_have_hops:
  assumes "can_publish (compile_snapshot env doc)" and "ir \<in> set (co_apps (compile_snapshot env doc))"
  shows "(\<forall>s \<in> set (ai_steps ir). \<forall>f \<in> set (step_forwards s).
      \<exists>h. {h' \<in> set (ai_hops ir). key_of_hop h' = edge_key s f} = {h}) \<and>
    (\<forall>h \<in> set (ai_hops ir). \<exists>s \<in> set (ai_steps ir). \<exists>f \<in> set (step_forwards s).
      hop_of_edge ir (concat (map ai_steps (co_apps (compile_snapshot env doc)))) (co_system (compile_snapshot env doc)) s f h)"
proof -
  obtain app where app: "app \<in> set (sn_apps doc)" "ir = snd (hopped doc app)" using assms(2) unfolding published_apps by auto
  have "\<exists>h. {h' \<in> set (ai_hops ir). key_of_hop h' = edge_key s f} = {h}"
    if s: "s \<in> set (ai_steps ir)" and f: "f \<in> set (step_forwards s)" for s f
  proof -
    have "s \<in> set (ai_steps (routed doc app))" using s app(2) by (simp add: hopped_steps)
    then obtain h where h: "h \<in> set (ai_hops ir)" "key_of_hop h = edge_key s f"
      using published_edge_hop [OF assms(1) app(1) _ f] app(2) by blast
    have "distinct (map key_of_hop (ai_hops ir))" unfolding app(2) by (rule published_hop_keys [OF assms(1) app(1)])
    then have "h' = h" if "h' \<in> set (ai_hops ir)" "key_of_hop h' = edge_key s f" for h'
      using that h by (metis distinct_map inj_onD)
    then show ?thesis using h by blast
  qed
  moreover have "\<exists>s \<in> set (ai_steps ir). \<exists>f \<in> set (step_forwards s). hop_of_edge ir (all_steps doc) (snd (compile_system doc)) s f h"
    if h: "h \<in> set (ai_hops ir)" for h
  proof -
    have "\<exists>(s, f) \<in> set (hop_edges (ai_steps (routed doc app))).
        hop_of_edge (routed doc app) (all_steps doc) (snd (compile_system doc)) s f h"
      by (rule hop_sound [OF h [unfolded app(2) hopped_def]])
    then obtain s f where edge: "s \<in> set (ai_steps (routed doc app))" "f \<in> set (step_forwards s)"
      and hop: "hop_of_edge (routed doc app) (all_steps doc) (snd (compile_system doc)) s f h"
      using hop_edges_iff by blast
    have "ai_nodes (routed doc app) = ai_nodes ir" using app(2) by (simp add: hopped_def hop_stage_fields)
    from hop_of_edge_nodes [OF this hop] edge show ?thesis unfolding app(2) hopped_steps by blast
  qed
  ultimately show ?thesis unfolding published_steps compile_snapshot_apps(2) by blast
qed

theorem published_rules_have_hops_witness:
  "(\<exists>h. {h' \<in> set (ai_hops pub_ir). key_of_hop h' = (''c'', ''a'', ''d'', ''a'')} = {h}) \<and>
   (\<exists>s \<in> set (ai_steps pub_ir). \<exists>f \<in> set (step_forwards s).
      hop_of_edge pub_ir pub_steps (snd (compile_system pub_doc)) s f pub_hop)"
proof
  have ir: "pub_ir \<in> set (co_apps (compile_snapshot open_env pub_doc))"
    by (simp add: published_apps pub_doc_def sample_snapshot_def pub_hopped [unfolded pub_doc_def sample_snapshot_def])
  note hops = published_rules_have_hops [OF pub_publishable ir]
  have edge: "pub_steps ! 0 \<in> set (ai_steps pub_ir)" "\<lparr>fa_target_chain = ''d'', fa_target_node = ''a'',
      fa_dial = ListenerDial (ListenPublic V4), fa_pool = NoPool, fa_reused = True\<rparr> \<in> set (step_forwards (pub_steps ! 0))"
    by (simp_all add: pub_ir_def pub_steps_def step_forwards_def List.map_filter_simps)
  from hops [THEN conjunct1, rule_format, OF edge]
  show "\<exists>h. {h' \<in> set (ai_hops pub_ir). key_of_hop h' = (''c'', ''a'', ''d'', ''a'')} = {h}"
    by (auto simp: edge_key_def pub_steps_def)
  have "pub_hop \<in> set (ai_hops pub_ir)" by (simp add: pub_ir_def)
  from hops [THEN conjunct2, rule_format, OF this]
  show "\<exists>s \<in> set (ai_steps pub_ir). \<exists>f \<in> set (step_forwards s).
      hop_of_edge pub_ir pub_steps (snd (compile_system pub_doc)) s f pub_hop"
    unfolding published_steps pub_all_steps compile_snapshot_apps(2) .
qed

section \<open>Sockets and labels\<close>

lemma published_node_ids:
  assumes "can_publish (compile_snapshot env doc)"
  shows "distinct (map node_id (sn_nodes doc))"
  using published_stages(1) [OF assms] by (simp add: validate_model_snapshot_def unique_by_exact)

lemma published_ids:
  assumes "can_publish (compile_snapshot env doc)" and "app \<in> set (sn_apps doc)"
  shows "distinct (map ii_id (ai_ingresses (snd (hopped doc app))))" and "distinct (map ic_id (ai_chains (snd (hopped doc app))))"
    and "no_errors (validate_tenants (snd (hopped doc app)))"
  using published_stages(3) [OF assms] by (simp_all add: validate_app_def validate_unique_ids_def unique_by_exact)

text \<open>C4: on every machine of a published fleet each socket has one owner. What a machine binds for a project is its WireGuard port, every relay listener on it, the fake-TCP ports of its links, its API port and every port of every ingress on it (port hopping ranges and download fronts included): the listing the pass checks holds exactly these, without a repetition. No two projects bind a relay listener or an ingress at the same socket of the same machine.\<close>

theorem published_sockets_have_one_owner:
  assumes "can_publish (compile_snapshot env doc)"
  shows "(\<forall>ir \<in> set (co_apps (compile_snapshot env doc)). \<forall>n \<in> set (ai_nodes ir).
      distinct (map fst (machine_sockets (co_system (compile_snapshot env doc)) ir n))) \<and>
    (\<forall>i < length (co_apps (compile_snapshot env doc)). \<forall>j < length (co_apps (compile_snapshot env doc)). i \<noteq> j \<longrightarrow>
      fst ` set (app_sockets i (co_apps (compile_snapshot env doc) ! i)) \<inter>
      fst ` set (app_sockets j (co_apps (compile_snapshot env doc) ! j)) = {}) \<and>
    (\<forall>ir \<in> set (co_apps (compile_snapshot env doc)). \<forall>n \<in> set (ai_nodes ir).
      fst ` set (machine_sockets (co_system (compile_snapshot env doc)) ir n) =
        {k. machine_binds (co_system (compile_snapshot env doc)) ir n k}) \<and>
    (\<forall>i < length (co_apps (compile_snapshot env doc)).
      fst ` set (app_sockets i (co_apps (compile_snapshot env doc) ! i)) =
        {at. project_binds (co_apps (compile_snapshot env doc) ! i) at})"
proof (intro conjI)
  have "no_errors (validate_ports (snd (compile_system doc)) (snd (hopped doc app)))" if "app \<in> set (sn_apps doc)" for app
    using published_stages(3) [OF assms that] by (simp add: validate_app_def)
  then show "\<forall>ir \<in> set (co_apps (compile_snapshot env doc)). \<forall>n \<in> set (ai_nodes ir).
      distinct (map fst (machine_sockets (co_system (compile_snapshot env doc)) ir n))"
    by (auto simp: published_apps compile_snapshot_apps(2) validate_ports_exact)
  have "no_errors (validate_app_set_ports (co_apps (compile_snapshot env doc)))"
    using published_stages(4) [OF assms] by (simp add: validate_app_set_def published_apps)
  then show "\<forall>i < length (co_apps (compile_snapshot env doc)). \<forall>j < length (co_apps (compile_snapshot env doc)). i \<noteq> j \<longrightarrow>
      fst ` set (app_sockets i (co_apps (compile_snapshot env doc) ! i)) \<inter>
      fst ` set (app_sockets j (co_apps (compile_snapshot env doc) ! j)) = {}"
    unfolding validate_app_set_ports_exact .
  show "\<forall>ir \<in> set (co_apps (compile_snapshot env doc)). \<forall>n \<in> set (ai_nodes ir).
      fst ` set (machine_sockets (co_system (compile_snapshot env doc)) ir n) =
        {k. machine_binds (co_system (compile_snapshot env doc)) ir n k}"
    unfolding published_apps compile_snapshot_apps(2) using published_sockets_listed [OF assms] by auto
  show "\<forall>i < length (co_apps (compile_snapshot env doc)).
      fst ` set (app_sockets i (co_apps (compile_snapshot env doc) ! i)) =
        {at. project_binds (co_apps (compile_snapshot env doc) ! i) at}"
    using app_sockets_exact by blast
qed

theorem published_sockets_have_one_owner_witness:
  "distinct (map fst (machine_sockets (snd (compile_system pub_doc)) pub_ir (app_node_of pub_doc pub_node)))"
proof -
  have "pub_ir \<in> set (co_apps (compile_snapshot open_env pub_doc))" "app_node_of pub_doc pub_node \<in> set (ai_nodes pub_ir)"
    by (simp_all add: published_apps pub_doc_def sample_snapshot_def pub_hopped [unfolded pub_doc_def sample_snapshot_def] pub_ir_def)
  with published_sockets_have_one_owner [OF pub_publishable, THEN conjunct1] show ?thesis
    unfolding compile_snapshot_apps(2) by blast
qed

text \<open>C20: in a published fleet an account label names one account of its machine: no two accounts of a project on one machine share a label, and no two projects use a label on the same machine, so what a machine counts under a label belongs to one chain or one user. The accounts are exactly the accept accounts of the project's steps, on the machine of the step, and the accounts of its grants, on the machine of the ingress they open.\<close>

theorem published_labels_have_one_owner:
  assumes "can_publish (compile_snapshot env doc)"
  shows "(\<forall>ir \<in> set (co_apps (compile_snapshot env doc)). \<forall>n \<in> set (ai_nodes ir).
      distinct (filter (\<lambda>e. fst e = an_id n) (app_labels ir))) \<and>
    (\<forall>i < length (co_apps (compile_snapshot env doc)). \<forall>j < length (co_apps (compile_snapshot env doc)). i \<noteq> j \<longrightarrow>
      set (app_labels (co_apps (compile_snapshot env doc) ! i)) \<inter> set (app_labels (co_apps (compile_snapshot env doc) ! j)) = {}) \<and>
    (\<forall>ir \<in> set (co_apps (compile_snapshot env doc)). set (app_labels ir) = {at. account_label ir at})"
proof (intro conjI)
  have "no_errors (validate_labels (snd (hopped doc app)))" if "app \<in> set (sn_apps doc)" for app
    using published_stages(3) [OF assms that] by (simp add: validate_app_def)
  then show "\<forall>ir \<in> set (co_apps (compile_snapshot env doc)). \<forall>n \<in> set (ai_nodes ir).
      distinct (filter (\<lambda>e. fst e = an_id n) (app_labels ir))"
    by (auto simp: published_apps validate_labels_exact)
  have "no_errors (validate_app_set_labels (co_apps (compile_snapshot env doc)))"
    using published_stages(4) [OF assms] by (simp add: validate_app_set_def published_apps)
  then show "\<forall>i < length (co_apps (compile_snapshot env doc)). \<forall>j < length (co_apps (compile_snapshot env doc)). i \<noteq> j \<longrightarrow>
      set (app_labels (co_apps (compile_snapshot env doc) ! i)) \<inter> set (app_labels (co_apps (compile_snapshot env doc) ! j)) = {}"
    unfolding validate_app_set_labels_exact .
  show "\<forall>ir \<in> set (co_apps (compile_snapshot env doc)). set (app_labels ir) = {at. account_label ir at}"
    unfolding published_apps using app_labels_exact [OF published_ids(1) [OF assms]] by auto
qed

theorem published_labels_have_one_owner_witness:
  "distinct (filter (\<lambda>e. fst e = ''a'') (app_labels pub_ir)) \<and> app_labels pub_ir = [(''a'', ''l'')]"
proof
  have "pub_ir \<in> set (co_apps (compile_snapshot open_env pub_doc))" "app_node_of pub_doc pub_node \<in> set (ai_nodes pub_ir)"
    by (simp_all add: published_apps pub_doc_def sample_snapshot_def pub_hopped [unfolded pub_doc_def sample_snapshot_def] pub_ir_def)
  moreover have "an_id (app_node_of pub_doc pub_node) = ''a''" by (simp add: app_node_of_def pub_node_def sample_node_def)
  ultimately show "distinct (filter (\<lambda>e. fst e = ''a'') (app_labels pub_ir))"
    using published_labels_have_one_owner [OF pub_publishable, THEN conjunct1] by metis
  show "app_labels pub_ir = [(''a'', ''l'')]"
    by (simp add: app_labels_def accept_labels_def grant_labels_def pub_ir_def pub_steps_def)
qed

section \<open>Tenants\<close>

lemma tenant_scope_exact: "no_errors (tenant_scope child parent location) \<longleftrightarrow> under child parent"
  by (simp add: tenant_scope_def)

lemma grant_in_scope:
  assumes "can_publish (compile_snapshot env doc)" and "app \<in> set (sn_apps doc)" and "g \<in> set (ai_grants (snd (hopped doc app)))"
  shows "\<exists>i \<in> set (ai_ingresses (snd (hopped doc app))). ii_id i = ig_ingress g \<and> under (ig_tenant g) (ii_tenant i)"
proof -
  let ?ir = "snd (hopped doc app)"
  have "refs_ok doc (routed doc app)" unfolding routed_def by (rule compile_app_refs_ok [OF published_node_ids [OF assms(1)]])
  then obtain i u where i: "i \<in> set (ai_ingresses ?ir)" "ii_id i = ig_ingress g"
    and u: "u \<in> set (ai_users ?ir)" "iu_tenant u = ig_tenant g" "iu_id u = ig_user g"
    using assms(3) unfolding refs_ok_def hopped_def hop_stage_fields by fastforce
  have "find (\<lambda>j. ii_id j = ig_ingress g) (ai_ingresses ?ir) = Some i"
    using find_unique [OF published_ids(1) [OF assms(1,2)] i(1)] i(2) by simp
  moreover obtain v where "find (\<lambda>u. iu_tenant u = ig_tenant g \<and> iu_id u = ig_user g) (ai_users ?ir) = Some v"
    using u by (cases "find (\<lambda>u. iu_tenant u = ig_tenant g \<and> iu_id u = ig_user g) (ai_users ?ir)") (auto simp: find_None_iff)
  ultimately have "under (ig_tenant g) (ii_tenant i)"
    using published_ids(3) [OF assms(1,2)] assms(3) by (fastforce simp: validate_tenants_def split: if_splits)
  with i show ?thesis by blast
qed

lemma reuse_in_scope:
  assumes "can_publish (compile_snapshot env doc)" and "i < length (sn_apps doc)" and "j < length (sn_apps doc)"
    and "(s, l) \<in> set (listener_edges (ai_steps (fleet doc ! i)))" and "is_node s \<in> an_id ` set (ai_nodes (fleet doc ! i))"
    and "c \<in> set (ai_chains (fleet doc ! i))" and "ic_id c = is_chain s"
    and "d \<in> set (ai_chains (fleet doc ! j))" and "ic_id d = fst l"
  shows "under (ic_tenant c) (ic_tenant d)"
proof (cases "i = j")
  case True
  let ?ir = "snd (hopped doc (sn_apps doc ! i))"
  have app: "sn_apps doc ! i \<in> set (sn_apps doc)" using assms(2) by simp
  have ir: "fleet doc ! i = ?ir" using fleet_nth(1) [OF assms(2)] .
  obtain r where s: "s \<in> set (ai_steps ?ir)" and r: "r \<in> set (is_rules s)" "reused_listener (ir_action r) = Some l"
    using assms(4) unfolding ir listener_edge_iff by blast
  obtain n where n: "find (\<lambda>n. an_id n = is_node s) (ai_nodes ?ir) = Some n"
    using assms(5) unfolding ir by (cases "find (\<lambda>n. an_id n = is_node s) (ai_nodes ?ir)") (auto simp: find_None_iff)
  have d: "find (\<lambda>o'. ic_id o' = fst l) (ai_chains ?ir) = Some d"
    using find_unique [OF published_ids(2) [OF assms(1) app], of d] assms(8,9) True ir by simp
  have "no_errors (validate_step_tenants ?ir c s)"
    using published_ids(3) [OF assms(1) app] assms(6,7) s unfolding ir by (auto simp: validate_tenants_def steps_of_chain_def)
  then have "no_errors (case reused_listener (ir_action r) of None \<Rightarrow> [] | Some l \<Rightarrow>
      (case find (\<lambda>o'. ic_id o' = fst l) (ai_chains ?ir) of None \<Rightarrow> []
       | Some o' \<Rightarrow> tenant_scope (ic_tenant c) (ic_tenant o') (ic_id c @ ''/'' @ is_node s @ ''->listener:'' @ fst l @ ''/'' @ snd l)))"
    using n r(1) by (simp add: validate_step_tenants_def)
  then show ?thesis by (simp add: r(2) d tenant_scope_exact)
next
  case False
  have one: "ch = e" if "chain_owner (fleet doc) (ic_id e) = Some (k, ch)" "e \<in> set (ai_chains (fleet doc ! k))" "k < length (sn_apps doc)" for k ch e
  proof -
    have app: "sn_apps doc ! k \<in> set (sn_apps doc)" using that(3) by simp
    have "ch \<in> set (ai_chains (fleet doc ! k))" "ic_id ch = ic_id e" using chain_owner_found [OF that(1)] by blast+
    then show ?thesis
      using that(2) published_ids(2) [OF assms(1) app] unfolding fleet_nth(1) [OF that(3)] by (metis distinct_map inj_onD)
  qed
  have "owns doc i (ic_id c)" "owns doc j (ic_id d)"
    using assms(2,3,6,8) by (auto simp: owns_def fleet_nth hopped_def hop_stage_fields)
  then obtain cc dd where cc: "chain_owner (fleet doc) (ic_id c) = Some (i, cc)" and dd: "chain_owner (fleet doc) (ic_id d) = Some (j, dd)"
    using chain_owner_some [OF assms(1)] by blast
  have eq: "cc = c" "dd = d" using one [OF cc assms(6,2)] one [OF dd assms(8,3)] .
  have "(i, s, l) \<in> set (cross_listener_edges (fleet doc))"
    unfolding cross_listener_edges_def indexed_concat using assms(2,4) by (auto simp: fleet_nth)
  moreover have "no_errors (validate_cross_app_listener_references (fleet doc))"
    using published_stages(4) [OF assms(1)] by (simp add: validate_app_set_def fleet_def)
  ultimately show ?thesis
    using report_cross_listeners_exact [of "fleet doc"] cc dd eq assms(7,9) False
    unfolding validate_cross_app_listener_references_def by metis
qed

text \<open>C5: a published fleet keeps the tenants apart. Every grant lets its user into an ingress of a project only where the grant's tenant is the ingress' tenant or below it, and a rule on a machine in service reuses the listener of another chain, of its own or of another project, only where its chain's tenant is the other chain's tenant or below it.\<close>

theorem published_tenants_in_scope:
  assumes "can_publish (compile_snapshot env doc)" and "ir \<in> set (co_apps (compile_snapshot env doc))"
  shows "(\<forall>g \<in> set (ai_grants ir). \<exists>i \<in> set (ai_ingresses ir). ii_id i = ig_ingress g \<and> under (ig_tenant g) (ii_tenant i)) \<and>
    (\<forall>(s, l) \<in> set (listener_edges (ai_steps ir)). \<forall>c \<in> set (ai_chains ir). \<forall>other \<in> set (co_apps (compile_snapshot env doc)).
       \<forall>d \<in> set (ai_chains other). is_node s \<in> an_id ` set (ai_nodes ir) \<and> ic_id c = is_chain s \<and> ic_id d = fst l \<longrightarrow>
         under (ic_tenant c) (ic_tenant d))"
proof -
  have apps: "co_apps (compile_snapshot env doc) = fleet doc" by (simp add: published_apps fleet_def)
  obtain i where i: "i < length (sn_apps doc)" "ir = fleet doc ! i"
    using assms(2) unfolding apps by (metis in_set_conv_nth fleet_nth(2))
  have "\<exists>i \<in> set (ai_ingresses ir). ii_id i = ig_ingress g \<and> under (ig_tenant g) (ii_tenant i)" if "g \<in> set (ai_grants ir)" for g
    using grant_in_scope [OF assms(1), of "sn_apps doc ! i" g] that i by (simp add: fleet_nth)
  moreover have "under (ic_tenant c) (ic_tenant d)"
    if h: "(s, l) \<in> set (listener_edges (ai_steps ir))" "c \<in> set (ai_chains ir)" "other \<in> set (fleet doc)" "d \<in> set (ai_chains other)"
      "is_node s \<in> an_id ` set (ai_nodes ir)" "ic_id c = is_chain s" "ic_id d = fst l" for s l c other d
  proof -
    obtain j where "j < length (sn_apps doc)" "other = fleet doc ! j" using h(3) by (metis in_set_conv_nth fleet_nth(2))
    then show ?thesis using reuse_in_scope [OF assms(1) i(1)] h i(2) by blast
  qed
  ultimately show ?thesis unfolding apps by blast
qed

theorem published_tenants_in_scope_witness:
  "under (ic_tenant (pub_ir_chain ''c'')) (ic_tenant (pub_ir_chain ''d''))"
proof -
  have ir: "pub_ir \<in> set (co_apps (compile_snapshot open_env pub_doc))"
    by (simp add: published_apps pub_doc_def sample_snapshot_def pub_hopped [unfolded pub_doc_def sample_snapshot_def])
  have edge: "(pub_steps ! 0, (''d'', ''a'')) \<in> set (listener_edges (ai_steps pub_ir))"
    by (simp add: listener_edge_iff pub_ir_def pub_steps_def)
  have "is_node (pub_steps ! 0) \<in> an_id ` set (ai_nodes pub_ir)"
    by (simp add: pub_ir_def pub_steps_def app_node_of_def pub_node_def sample_node_def)
  moreover have "pub_ir_chain ''c'' \<in> set (ai_chains pub_ir)" "pub_ir_chain ''d'' \<in> set (ai_chains pub_ir)" by (simp_all add: pub_ir_def)
  moreover have "ic_id (pub_ir_chain c) = c" for c by (simp add: pub_ir_chain_def)
  moreover have "is_chain (pub_steps ! 0) = ''c''" by (simp add: pub_steps_def)
  ultimately show ?thesis
    using published_tenants_in_scope [OF pub_publishable ir, THEN conjunct2] ir edge by fastforce
qed

end
