(* ===== verification/Spec2Isabelle.thy ===== *)
theory Spec2Isabelle
  imports Core_Text Traffic_Period Hot_Swap_Safety Diagnostics Plan_Guarantees Published_Guarantees
begin

text \<open>
  Brocade is a control plane for a fleet of relay machines. An operator describes machines,
  projects, chains of machines with rule tables, ingresses and users; \<open>crates/brocade-core\<close>
  compiles that model to a system layer (the WireGuard mesh), an application layer (the rule table
  of every chain on every machine) and relay hops, validates the result and lets it be published
  only without an error; \<open>crates/brocade-deployment\<close> compares what every machine should run with
  what it reports and plans the actions, their order and whether a running xray can be changed in
  place. This development models that path from the operator's model to the plan and proves what
  it promises.

  Parts and theories, in the order the data flows:

  \<^item> Shared: \<open>Prelude\<close> has the ordered containers of the Rust library (\<open>BTreeMap\<close> and
    \<open>BTreeSet\<close> as ascending lists, with the locale \<open>ordered_map\<close> as their contract) and
    reachability; \<open>Rust_Str\<close>, \<open>Ip_Text\<close> and \<open>Json\<close> the \<open>str\<close> methods, the address
    parsers and \<open>serde_json::Value\<close>, with \<open>run\<close> for code that can panic.
  \<^item> The model (brocade-core/src/model.rs): \<open>Model\<close> (machines, settings), \<open>Wires\<close> (what an
    ingress speaks), \<open>App_Model\<close> (projects, chains, steps, rules, the snapshot), \<open>Core_Text\<close>
    (text.rs and the labels).
  \<^item> The compiler: \<open>System_Ir\<close> is ir/system.rs, \<open>Routing\<close> and \<open>App_Ir\<close> are ir/routing.rs,
    \<open>Hops\<close> is ir/hops.rs, \<open>Diagnostics\<close> is diagnostic.rs with the gate of compile.rs, and
    \<open>Compile\<close> is the pipeline of compile.rs.
  \<^item> The validator (ir/validate.rs): \<open>Validate_Rules\<close>, \<open>Validate_Fleet\<close>, \<open>Validate_Ingress\<close> and
    \<open>Validate_App\<close>, with the two depth-first searches in \<open>Graph_Cycles\<close>.
  \<^item> Deployment: \<open>Plan_Types\<close>, \<open>Plan\<close> and \<open>Waves\<close> are plan.rs, \<open>Hot_Swap\<close> is hotswap.rs,
    \<open>Traffic_Limit\<close> is traffic_limit.rs with its calendar in \<open>Traffic_Period\<close>.

  A struct is a record, an enum a datatype, a function a definition of the same name, a
  \<open>Result\<close> a sum, a loop over a collection a recursion over the list in the order the source
  iterates. A function that pushes diagnostics returns the list it pushes; messages keep the code,
  the location and the values they name, not their wording. Integers keep their width where they
  can wrap (\<open>u16\<close>, \<open>u32\<close>, \<open>u64\<close> are words); \<open>i64\<close> seconds of the calendar are \<open>int\<close>,
  since both ends of a billing period lie within 366 days of the moment it is computed for.
\<close>

text \<open>
  What the groups of lemmas show:

  \<^item> \<open>System_Ir\<close>: a link joins exactly the pairs of live members that can reach each other and are
    not disabled; it lands on addresses in front of NAT; a host of a fake-TCP server listens.
  \<^item> \<open>Routing\<close> and \<open>Routing_Guarantees\<close>: the searches end and find exactly what is reachable; a
    chain gets one step per existing machine its head or a reused listener leads to; rule tables
    end in a catch-all; a chain whose head leads to a retired machine is left out; what a compiled
    project refers to exists in it.
  \<^item> \<open>Hop_Guarantees\<close> and \<open>Compile\<close>: hops and forwarding edges correspond one to one when
    nothing is reported, and a hop meets the contract of its path and of the dial of its rule.
  \<^item> \<open>Validate_Guarantees\<close>: each pass that guards an invariant reports no error exactly when the
    invariant holds (sockets, labels, cycles, references).
  \<^item> \<open>Published\<close>, \<open>Published_Coverage\<close>, \<open>Published_Traffic\<close>, \<open>Published_Guarantees\<close>: what
    follows for a fleet that may be published. Its forwarding graph, over all projects, has no
    cycle, so a connection that arrives at a table leaves; sockets and labels have one owner, and
    nothing a machine binds or counts is missing from the listings; every rule has its hop; tenants
    stay apart. \<open>Published_Sample\<close> is a fleet that does pass, for the witnesses.
  \<^item> \<open>Hot_Swap_Safety\<close>: \<open>exec_op\<close> and \<open>exec_trace\<close> are the contract of the runtime verbs of
    xray. Run against it, the operations of a swap reach the desired configuration, and in every
    state on the way rules and balancers name existing outbounds, endpoints are exchanged only
    while no rule names them and their traffic is on a bridge with the same endpoint, old or new,
    and the default outbound and the WireGuard outbounds stay.
  \<^item> \<open>Plan\<close> and \<open>Plan_Guarantees\<close>: the actions of a machine against a table of desired and
    applied states, when planning panics, the comparison of grants, narrowing a plan to one kind,
    and that a plan without disruption is a hot swap from the running configuration.
  \<^item> \<open>Waves\<close>: the loop ends, gives every ordered target a wave, keeps the prerequisites except
    within a dependency cycle, isolates disables and starts with a canary.
  \<^item> \<open>Traffic_Limit\<close> and \<open>Traffic_Period\<close>: rules, rates and day boundaries; the civil calendar
    is exact, and billing periods tile the time line.

  Bounds. \<open>queue_walk\<close> and \<open>compile_walk\<close> stop after the initial queue plus the number of rules:
  a visit pushes at most one entry per rule of its machine and no machine is visited twice
  (\<open>queue_walk_reaches\<close>, \<open>compile_walk_fuel\<close>). \<open>cycle_walk\<close> and \<open>reach_walk\<close> descend at most
  one level per step of the graph and one more, and the lemmas of \<open>Graph_Cycles\<close> show they
  return. \<open>deliver\<close> passes at most as many tables as the fleet has. The wave loop and the search
  of \<open>Waves\<close> are total functions with a lexicographic measure; no bound there.

  Outside code is a parameter. The record \<open>outside\<close> gives the validator the text of a selector
  (serde_json), membership in an address range (ipnet), a base64 decoder, the reader of decimal
  fractions, and the passes over external outbounds, front groups and subscription names. The
  planner takes the parser of JSON, the digest and the rendered artifact texts of one machine.

  Not modelled: the projection of compiled layers to xray, WireGuard and Phantun texts and the
  printing of formats and subscriptions (presentation of what is modelled here), the store (SQL),
  the console (HTTP), the agent (processes, gRPC, netlink and files of a machine), the probes and
  the frontend, and the rules of forwarding.rs, which rest on ipnet.

  What modelling showed. \<open>planned_actions\<close> reaches an \<open>unreachable!\<close> for an unmanaged xray
  whose grants differ in the flow. A retired machine behind a
  reused listener keeps its step, unlike the comments say. \<open>hot_swap\<close> panics on a rule that is not an object,
  where its comment promises to give up (\<open>hot_swap_panics_on_scalar_rule\<close>).
\<close>

end
